(* ===== verification/Prelude.thy ===== *)
theory Prelude
  imports Complex_Main "HOL-Library.Word" "HOL-Library.Sublist"
begin

text \<open>
  The shared vocabulary of the development: names for the machine types the Rust code uses,
  the standard-library string functions it calls (\<open>strip_prefix\<close>, \<open>split\<close>, \<open>trim\<close>, \<open>find\<close>,
  \<open>to_string\<close> and \<open>parse\<close> of integers), \<open>Result\<close> as a sum type with the error on the left, and
  the generic lemmas and hint collections the components use.

  A Rust \<open>String\<close> is its UTF-8 bytes, one \<open>char\<close> each; a \<open>Uuid\<close> is the 128-bit word it wraps; a
  \<open>DateTime<Utc>\<close> is the number of nanoseconds since the Unix epoch, and an \<open>Instant\<close> a number of
  nanoseconds on the monotonic clock, both as integers.
\<close>

section \<open>Types\<close>

type_synonym u32 = "32 word"
type_synonym u64 = "64 word"
type_synonym uuid = "128 word"
type_synonym datetime = int
type_synonym instant = int

named_theorems model_defs \<open>unfolding rules of the small wrapper definitions\<close>
named_theorems inv_intros \<open>preservation lemmas of the component invariants\<close>

section \<open>Results\<close>

text \<open>\<open>Result::map_err\<close> and \<open>Result::and_then\<close>, with \<open>Inl\<close> the \<open>Err\<close> case.\<close>

fun map_err :: "('e \<Rightarrow> 'f) \<Rightarrow> 'e + 'a \<Rightarrow> 'f + 'a" where
  "map_err f (Inl e) = Inl (f e)"
| "map_err f (Inr x) = Inr x"

fun is_ok :: "'e + 'a \<Rightarrow> bool" where
  "is_ok (Inl _) = False"
| "is_ok (Inr _) = True"

lemma map_err_Inr [simp]: "map_err f r = Inr x \<longleftrightarrow> r = Inr x"
  by (cases r) auto

lemma map_err_Inl [simp]: "map_err f r = Inl e \<longleftrightarrow> (\<exists>e'. r = Inl e' \<and> e = f e')"
  by (cases r) auto

lemma is_ok_iff: "is_ok r \<longleftrightarrow> (\<exists>x. r = Inr x)"
  by (cases r) auto

section \<open>Integers\<close>

text \<open>\<open>Ord::clamp\<close> on \<open>i64\<close> values (the bounds in the code are literals with \<open>lo \<le> hi\<close>).\<close>

definition clamp :: "int \<Rightarrow> int \<Rightarrow> int \<Rightarrow> int" where
  "clamp lo hi x = (if x < lo then lo else if hi < x then hi else x)"

lemma clamp_bounds: "lo \<le> hi \<Longrightarrow> lo \<le> clamp lo hi x \<and> clamp lo hi x \<le> hi"
  by (simp add: clamp_def)

lemma clamp_ge [simp]: "lo \<le> hi \<Longrightarrow> lo \<le> clamp lo hi x"
  by (simp add: clamp_def)

lemma clamp_le [simp]: "lo \<le> hi \<Longrightarrow> clamp lo hi x \<le> hi"
  by (simp add: clamp_def)

lemma clamp_id [simp]: "lo \<le> x \<Longrightarrow> x \<le> hi \<Longrightarrow> clamp lo hi x = x"
  by (simp add: clamp_def)

lemma clamp_idem [simp]: "lo \<le> hi \<Longrightarrow> clamp lo hi (clamp lo hi x) = clamp lo hi x"
  by (simp add: clamp_def)

definition i64_min :: int where "i64_min = - (2 ^ 63)"
definition i64_max :: int where "i64_max = 2 ^ 63 - 1"

definition in_i64 :: "int \<Rightarrow> bool" where
  "in_i64 n \<longleftrightarrow> i64_min \<le> n \<and> n \<le> i64_max"

section \<open>Strings\<close>

text \<open>\<open>str::strip_prefix\<close>, \<open>str::strip_suffix\<close>, \<open>str::starts_with\<close>.\<close>

definition str_starts_with :: "string \<Rightarrow> string \<Rightarrow> bool" where
  "str_starts_with s p \<longleftrightarrow> take (length p) s = p"

definition str_strip_prefix :: "string \<Rightarrow> string \<Rightarrow> string option" where
  "str_strip_prefix s p = (if str_starts_with s p then Some (drop (length p) s) else None)"

definition str_strip_suffix :: "string \<Rightarrow> string \<Rightarrow> string option" where
  "str_strip_suffix s p =
     (if length p \<le> length s \<and> drop (length s - length p) s = p
      then Some (take (length s - length p) s) else None)"

lemma str_starts_with_append [simp]: "str_starts_with (p @ s) p"
  by (simp add: str_starts_with_def)

lemma str_starts_with_iff: "str_starts_with s p \<longleftrightarrow> (\<exists>t. s = p @ t)"
  by (metis append_eq_conv_conj str_starts_with_def)

lemma str_strip_prefix_append [simp]: "str_strip_prefix (p @ s) p = Some s"
  by (simp add: str_strip_prefix_def)

lemma str_strip_prefix_SomeD: "str_strip_prefix s p = Some t \<Longrightarrow> s = p @ t"
  by (auto simp: str_strip_prefix_def str_starts_with_def split: if_splits
      intro: append_take_drop_id [symmetric, THEN trans])

lemma str_strip_suffix_append [simp]: "str_strip_suffix (s @ p) p = Some s"
  by (simp add: str_strip_suffix_def)

lemma str_strip_suffix_SomeD: "str_strip_suffix s p = Some t \<Longrightarrow> s = t @ p"
  by (metis append_take_drop_id option.distinct(1) option.inject str_strip_suffix_def)

text \<open>\<open>str::split(c)\<close>: the pieces between the separators, at least one.\<close>

fun str_split :: "char \<Rightarrow> string \<Rightarrow> string list" where
  "str_split c [] = [[]]"
| "str_split c (x # xs) =
     (if x = c then [] # str_split c xs
      else (case str_split c xs of [] \<Rightarrow> [[x]] | p # ps \<Rightarrow> (x # p) # ps))"

lemma str_split_nonempty [simp]: "str_split c s \<noteq> []"
  by (induction s) (auto split: list.splits)

fun str_join :: "string \<Rightarrow> string list \<Rightarrow> string" where
  "str_join sep [] = []"
| "str_join sep [p] = p"
| "str_join sep (p # q # ps) = p @ sep @ str_join sep (q # ps)"

lemma str_join_split: "str_join [c] (str_split c s) = s"
proof (induction s)
  case Nil
  then show ?case by simp
next
  case (Cons x xs)
  obtain p ps where sp: "str_split c xs = p # ps"
    by (cases "str_split c xs") auto
  show ?case
  proof (cases "x = c")
    case True
    with Cons sp show ?thesis by simp
  next
    case False
    with Cons sp show ?thesis by (cases ps) auto
  qed
qed

lemma str_split_no_sep: "p \<in> set (str_split c s) \<Longrightarrow> c \<notin> set p"
proof (induction s arbitrary: p)
  case Nil
  then show ?case by simp
next
  case (Cons x xs)
  obtain q qs where "str_split c xs = q # qs"
    by (cases "str_split c xs") auto
  with Cons show ?case by (auto split: if_splits)
qed

text \<open>\<open>str::trim\<close> on the ASCII white space of header values.\<close>

definition is_ws :: "char \<Rightarrow> bool" where
  "is_ws c \<longleftrightarrow> c = CHR '' '' \<or> (9 \<le> (of_char c :: nat) \<and> (of_char c :: nat) \<le> 13)"

definition str_trim :: "string \<Rightarrow> string" where
  "str_trim s = rev (dropWhile is_ws (rev (dropWhile is_ws s)))"

text \<open>\<open>str::find(char)\<close>: the position of the first occurrence.\<close>

fun str_find :: "char \<Rightarrow> string \<Rightarrow> nat option" where
  "str_find c [] = None"
| "str_find c (x # xs) = (if x = c then Some 0 else map_option Suc (str_find c xs))"

lemma str_find_append: "c \<notin> set p \<Longrightarrow> str_find c (p @ c # s) = Some (length p)"
  by (induction p) auto

lemma str_find_Some: "str_find c s = Some i \<Longrightarrow> i < length s \<and> s ! i = c \<and> c \<notin> set (take i s)"
  by (induction s arbitrary: i) (auto split: if_splits)

end
