(* ===== verification/Numerals.thy ===== *)
theory Numerals
  imports Prelude
begin

text \<open>
  Decimal printing and parsing as the Rust standard library does them: \<open>to_string\<close> of the
  integer types (\<open>show_nat\<close>, \<open>show_int\<close>), and \<open>str::parse::<i64>\<close> and \<open>str::parse::<u64>\<close> and its narrower kin
  (\<open>parse_i64\<close>, \<open>parse_uint\<close> at a width): an optional sign (no minus for unsigned types), at least one
  digit, nothing else, and \<open>Err\<close> on overflow. The lemmas are the round trips, and that printed
  numbers hold digits and a minus sign only, which the formats built on them rest on.
\<close>

definition digit :: "nat \<Rightarrow> char" where
  "digit d = char_of (48 + d)"

definition digit_val :: "char \<Rightarrow> nat option" where
  "digit_val c = (let n = (of_char c :: nat) in if 48 \<le> n \<and> n \<le> 57 then Some (n - 48) else None)"

lemma digit_val_digit [simp]: "d < 10 \<Longrightarrow> digit_val (digit d) = Some d"
  by (simp add: digit_val_def digit_def Let_def of_char_of)

lemma digit_neq: "d < 10 \<Longrightarrow> digit_val c = None \<Longrightarrow> digit d \<noteq> c"
  by auto

fun show_nat :: "nat \<Rightarrow> string" where
  "show_nat n = (if n < 10 then [digit n] else show_nat (n div 10) @ [digit (n mod 10)])"

declare show_nat.simps [simp del]

definition show_int :: "int \<Rightarrow> string" where
  "show_int n = (if n < 0 then CHR ''-'' # show_nat (nat (- n)) else show_nat (nat n))"

fun parse_digits :: "nat \<Rightarrow> string \<Rightarrow> nat option" where
  "parse_digits acc [] = Some acc"
| "parse_digits acc (c # cs) =
     (case digit_val c of None \<Rightarrow> None | Some d \<Rightarrow> parse_digits (10 * acc + d) cs)"

definition parse_nat :: "string \<Rightarrow> nat option" where
  "parse_nat s = (if s = [] then None else parse_digits 0 s)"

definition parse_int :: "string \<Rightarrow> int option" where
  "parse_int s = (case s of
       [] \<Rightarrow> None
     | c # cs \<Rightarrow>
         (if c = CHR ''-'' then map_option (\<lambda>n. - int n) (parse_nat cs)
          else if c = CHR ''+'' then map_option int (parse_nat cs)
          else map_option int (parse_nat s)))"

definition parse_i64 :: "string \<Rightarrow> int option" where
  "parse_i64 s = (case parse_int s of
       None \<Rightarrow> None
     | Some n \<Rightarrow> (if in_i64 n then Some n else None))"

definition parse_uint :: "nat \<Rightarrow> string \<Rightarrow> nat option" where
  "parse_uint w s = (case s of
       [] \<Rightarrow> None
     | c # cs \<Rightarrow>
         (case parse_nat (if c = CHR ''+'' then cs else s) of
            None \<Rightarrow> None
          | Some n \<Rightarrow> (if n < 2 ^ w then Some n else None)))"

abbreviation parse_u64 :: "string \<Rightarrow> nat option" where
  "parse_u64 \<equiv> parse_uint 64"

section \<open>Round trips\<close>

lemma parse_digits_append:
  "parse_digits acc (xs @ ys) =
     (case parse_digits acc xs of None \<Rightarrow> None | Some n \<Rightarrow> parse_digits n ys)"
  by (induction xs arbitrary: acc) (auto split: option.splits)

lemma show_nat_nonempty [simp]: "show_nat n \<noteq> []"
  by (subst show_nat.simps) simp

lemma parse_digits_show_nat: "parse_digits 0 (show_nat n) = Some n"
proof (induction n rule: show_nat.induct)
  case (1 n)
  show ?case
  proof (cases "n < 10")
    case True
    then show ?thesis by (subst show_nat.simps) simp
  next
    case False
    with 1 have "parse_digits 0 (show_nat (n div 10)) = Some (n div 10)" by simp
    with False show ?thesis
      by (subst show_nat.simps) (simp add: parse_digits_append)
  qed
qed

lemma parse_nat_show_nat [simp]: "parse_nat (show_nat n) = Some n"
  by (simp add: parse_nat_def parse_digits_show_nat)

lemma show_nat_digits: "c \<in> set (show_nat n) \<Longrightarrow> digit_val c \<noteq> None"
proof (induction n rule: show_nat.induct)
  case (1 n)
  then show ?case
    by (subst (asm) (2) show_nat.simps) (auto split: if_splits)
qed

lemma show_nat_no: "digit_val c = None \<Longrightarrow> c \<notin> set (show_nat n)"
  using show_nat_digits by blast

lemma show_int_no: "digit_val c = None \<Longrightarrow> c \<noteq> CHR ''-'' \<Longrightarrow> c \<notin> set (show_int n)"
  by (auto simp: show_int_def dest: show_nat_no)

lemma show_int_nonempty [simp]: "show_int n \<noteq> []"
  by (simp add: show_int_def)

lemma show_nat_hd: "show_nat n = c # cs \<Longrightarrow> digit_val c \<noteq> None"
  using show_nat_digits [of c n] by simp

lemma digit_val_sign [simp]: "digit_val (CHR ''-'') = None" "digit_val (CHR ''+'') = None"
  by (simp_all add: digit_val_def)

lemma digit_val_colon [simp]: "digit_val (CHR '':'') = None"
  by (simp add: digit_val_def)

lemma parse_int_show_int [simp]: "parse_int (show_int n) = Some n"
proof (cases "n < 0")
  case True
  then show ?thesis by (simp add: parse_int_def show_int_def)
next
  case False
  obtain c cs where s: "show_nat (nat n) = c # cs"
    by (cases "show_nat (nat n)") auto
  with show_nat_hd [OF s] have "c \<noteq> CHR ''-''" "c \<noteq> CHR ''+''" by auto
  moreover have "parse_nat (c # cs) = Some (nat n)" using s by (metis parse_nat_show_nat)
  ultimately show ?thesis using False s by (simp add: parse_int_def show_int_def)
qed

lemma parse_i64_show_int: "in_i64 n \<Longrightarrow> parse_i64 (show_int n) = Some n"
  by (simp add: parse_i64_def)

lemma parse_i64_range: "parse_i64 s = Some n \<Longrightarrow> in_i64 n"
  by (auto simp: parse_i64_def split: option.splits if_splits)

lemma parse_uint_show_nat: "n < 2 ^ w \<Longrightarrow> parse_uint w (show_nat n) = Some n"
proof -
  assume n: "n < 2 ^ w"
  obtain c cs where s: "show_nat n = c # cs"
    by (cases "show_nat n") auto
  with show_nat_hd [OF s] have "c \<noteq> CHR ''+''" by auto
  moreover have "parse_nat (c # cs) = Some n" using s by (metis parse_nat_show_nat)
  ultimately show ?thesis using n s by (simp add: parse_uint_def)
qed

lemma parse_uint_range: "parse_uint w s = Some n \<Longrightarrow> n < 2 ^ w"
  by (auto simp: parse_uint_def split: list.splits option.splits if_splits)

lemma show_int_inject [simp]: "show_int m = show_int n \<longleftrightarrow> m = n"
  by (metis option.inject parse_int_show_int)

lemma show_nat_inject [simp]: "show_nat m = show_nat n \<longleftrightarrow> m = n"
  by (metis option.inject parse_nat_show_nat)

section \<open>Hexadecimal\<close>

text \<open>\<open>{:x}\<close> of an unsigned integer.\<close>

definition hex_digit :: "nat \<Rightarrow> char" where
  "hex_digit d = (if d < 10 then char_of (48 + d) else char_of (87 + d))"

fun show_hex :: "nat \<Rightarrow> string" where
  "show_hex n = (if n < 16 then [hex_digit n] else show_hex (n div 16) @ [hex_digit (n mod 16)])"

declare show_hex.simps [simp del]

end
