(* ===== verification/Errors.thy ===== *)
theory Errors
  imports Numerals
begin

text \<open>
  \<open>shared/src/errors.rs\<close>: the error codes of the API with their HTTP status and wire name, the
  error envelope, the application error the service layer returns, and the conversion of one into
  the other. \<open>serde_json::Value\<close> objects are association lists; \<open>JOther\<close> stands for the kinds of value
  (null, arrays, nested objects, other numbers) the code never looks into.
\<close>

section \<open>Error codes\<close>

datatype error_code =
    CUnauthorized
  | CContentNotFound
  | CContentTypeUnknown
  | CInvalidContentId
  | CBatchTooLarge
  | CInvalidCursor
  | CInvalidWindow
  | CRateLimited
  | CDependencyUnavailable
  | CInternalError

fun http_status :: "error_code \<Rightarrow> nat" where
  "http_status CUnauthorized = 401"
| "http_status CContentNotFound = 404"
| "http_status CContentTypeUnknown = 400"
| "http_status CInvalidContentId = 400"
| "http_status CBatchTooLarge = 400"
| "http_status CInvalidCursor = 400"
| "http_status CInvalidWindow = 400"
| "http_status CRateLimited = 429"
| "http_status CDependencyUnavailable = 503"
| "http_status CInternalError = 500"

fun show_error_code :: "error_code \<Rightarrow> string" where
  "show_error_code CUnauthorized = ''UNAUTHORIZED''"
| "show_error_code CContentNotFound = ''CONTENT_NOT_FOUND''"
| "show_error_code CContentTypeUnknown = ''CONTENT_TYPE_UNKNOWN''"
| "show_error_code CInvalidContentId = ''INVALID_CONTENT_ID''"
| "show_error_code CBatchTooLarge = ''BATCH_TOO_LARGE''"
| "show_error_code CInvalidCursor = ''INVALID_CURSOR''"
| "show_error_code CInvalidWindow = ''INVALID_WINDOW''"
| "show_error_code CRateLimited = ''RATE_LIMITED''"
| "show_error_code CDependencyUnavailable = ''DEPENDENCY_UNAVAILABLE''"
| "show_error_code CInternalError = ''INTERNAL_ERROR''"

lemma show_error_code_inject: "show_error_code a = show_error_code b \<longleftrightarrow> a = b"
  by (cases a; cases b) simp_all

section \<open>The error envelope\<close>

datatype json_val = JStr string | JNum nat | JBool bool | JOther

type_synonym json_obj = "(string \<times> json_val) list"

record api_error_body =
  code :: error_code
  message :: string
  request_id :: string
  details :: "json_obj option"

record api_error =
  error :: api_error_body

definition api_error_new :: "error_code \<Rightarrow> string \<Rightarrow> string \<Rightarrow> api_error" where
  "api_error_new c msg rid =
     \<lparr>error = \<lparr>code = c, message = msg, request_id = rid, details = None\<rparr>\<rparr>"

definition with_details :: "api_error \<Rightarrow> json_obj \<Rightarrow> api_error" where
  "with_details e d = e\<lparr>error := (error e)\<lparr>details := Some d\<rparr>\<rparr>"

definition api_http_status :: "api_error \<Rightarrow> nat" where
  "api_http_status e = http_status (code (error e))"

section \<open>Application errors\<close>

datatype app_error =
    Unauthorized string
  | ContentNotFound (ecnf_type: string) (ecnf_id: string)
  | ContentTypeUnknown string
  | InvalidContentId string
  | BatchTooLarge (ebatch_size: nat) (ebatch_max: nat)
  | InvalidCursor string
  | InvalidWindow string
  | RateLimited (retry_after_secs: u64)
  | DependencyUnavailable string
  | Internal string
  | Database string
  | Cache string

text \<open>The \<open>Display\<close> form \<open>thiserror\<close> derives from the \<open>#[error(...)]\<close> attributes.\<close>

fun show_app_error :: "app_error \<Rightarrow> string" where
  "show_app_error (Unauthorized m) = ''Unauthorized: '' @ m"
| "show_app_error (ContentNotFound ct cid) = ''Content not found: '' @ ct @ '':'' @ cid"
| "show_app_error (ContentTypeUnknown ct) = ''Unknown content type: '' @ ct"
| "show_app_error (InvalidContentId cid) = ''Invalid content ID: '' @ cid"
| "show_app_error (BatchTooLarge n m) =
     ''Batch too large: '' @ show_nat n @ '' items (max '' @ show_nat m @ '')''"
| "show_app_error (InvalidCursor m) = ''Invalid cursor: '' @ m"
| "show_app_error (InvalidWindow w) = ''Invalid time window: '' @ w"
| "show_app_error (RateLimited _) = ''Rate limited''"
| "show_app_error (DependencyUnavailable s) = ''Dependency unavailable: '' @ s"
| "show_app_error (Internal m) = ''Internal error: '' @ m"
| "show_app_error (Database m) = ''Database error: '' @ m"
| "show_app_error (Cache m) = ''Cache error: '' @ m"

text \<open>The match of \<open>to_api_error\<close> that yields \<open>(code, message, details)\<close>.\<close>

fun api_error_parts :: "app_error \<Rightarrow> error_code \<times> string \<times> json_obj option" where
  "api_error_parts (Unauthorized m) = (CUnauthorized, m, None)"
| "api_error_parts (ContentNotFound ct cid) =
     (CContentNotFound, ''Content item does not exist or has been removed'',
      Some [(''content_type'', JStr ct), (''content_id'', JStr cid)])"
| "api_error_parts (ContentTypeUnknown ct) =
     (CContentTypeUnknown, ''Unknown content type: '' @ ct, Some [(''content_type'', JStr ct)])"
| "api_error_parts (InvalidContentId cid) =
     (CInvalidContentId, ''Invalid content ID: '' @ cid, None)"
| "api_error_parts (BatchTooLarge n m) =
     (CBatchTooLarge, ''Batch size '' @ show_nat n @ '' exceeds maximum of '' @ show_nat m,
      Some [(''size'', JNum n), (''max'', JNum m)])"
| "api_error_parts (InvalidCursor m) = (CInvalidCursor, m, None)"
| "api_error_parts (InvalidWindow w) =
     (CInvalidWindow,
      ''Invalid time window: '' @ w @ ''. Valid values: 24h, 7d, 30d, all'', None)"
| "api_error_parts (RateLimited _) = (CRateLimited, ''Rate limit exceeded'', None)"
| "api_error_parts (DependencyUnavailable s) =
     (CDependencyUnavailable, ''External service unavailable: '' @ s, None)"
| "api_error_parts (Internal m) = (CInternalError, m, None)"
| "api_error_parts (Database m) = (CInternalError, ''Database error: '' @ m, None)"
| "api_error_parts (Cache _) = (CInternalError, ''Cache error'', None)"

definition to_api_error :: "app_error \<Rightarrow> string \<Rightarrow> api_error" where
  "to_api_error e rid =
     (case api_error_parts e of (c, msg, d) \<Rightarrow>
        (let err = api_error_new c msg rid in
         case d of None \<Rightarrow> err | Some o' \<Rightarrow> with_details err o'))"

fun app_error_code :: "app_error \<Rightarrow> error_code" where
  "app_error_code (Unauthorized _) = CUnauthorized"
| "app_error_code (ContentNotFound _ _) = CContentNotFound"
| "app_error_code (ContentTypeUnknown _) = CContentTypeUnknown"
| "app_error_code (InvalidContentId _) = CInvalidContentId"
| "app_error_code (BatchTooLarge _ _) = CBatchTooLarge"
| "app_error_code (InvalidCursor _) = CInvalidCursor"
| "app_error_code (InvalidWindow _) = CInvalidWindow"
| "app_error_code (RateLimited _) = CRateLimited"
| "app_error_code (DependencyUnavailable _) = CDependencyUnavailable"
| "app_error_code (Internal _) = CInternalError"
| "app_error_code (Database _) = CInternalError"
| "app_error_code (Cache _) = CInternalError"

lemma to_api_error_code [simp]: "code (error (to_api_error e rid)) = app_error_code e"
  by (cases e) (simp_all add: to_api_error_def api_error_new_def with_details_def Let_def)

lemma to_api_error_request_id [simp]: "request_id (error (to_api_error e rid)) = rid"
  by (cases e) (simp_all add: to_api_error_def api_error_new_def with_details_def Let_def)

text \<open>The status of a response is one of the six the API documents, and 5xx exactly for failures
  of the service or of what it depends on.\<close>

lemma http_status_cases: "http_status c \<in> {400, 401, 404, 429, 500, 503}"
  by (cases c) simp_all

lemma http_status_5xx: "500 \<le> http_status c \<longleftrightarrow> c \<in> {CDependencyUnavailable, CInternalError}"
  by (cases c) simp_all

end
