(* ===== verification/Types.thy ===== *)
theory Types
  imports Errors
begin

text \<open>
  \<open>shared/src/types.rs\<close> and \<open>shared/src/cursor.rs\<close>: the data the layers exchange, the time
  windows of the leaderboard, and the pagination cursor. The crates these types are printed and
  parsed with (uuid, chrono, serde\_json, base64) are not part of the repository: they are the
  fields of a \<open>codec\<close>, a parameter of every definition that uses them, and the behaviour the code
  relies on is the predicate \<open>codec_ok\<close>.
\<close>

section \<open>Users, content and likes\<close>

record authenticated_user =
  au_user_id :: uuid
  au_display_name :: string

record content_ref =
  cr_type :: string
  cr_id :: uuid

record like =
  lk_id :: int
  lk_user :: uuid
  lk_type :: string
  lk_content :: uuid
  lk_created :: datetime

datatype like_event =
    Liked (ev_user: uuid) (ev_count: int) (ev_time: datetime)
  | Unliked (ev_user: uuid) (ev_count: int) (ev_time: datetime)
  | Heartbeat (ev_time: datetime)
  | Shutdown (ev_time: datetime)

section \<open>Time windows\<close>

datatype time_window = Day | Week | Month | All

definition from_str_value :: "string \<Rightarrow> time_window option" where
  "from_str_value s =
     (if s = ''24h'' then Some Day
      else if s = ''7d'' then Some Week
      else if s = ''30d'' then Some Month
      else if s = ''all'' then Some All
      else None)"

fun duration_secs :: "time_window \<Rightarrow> int option" where
  "duration_secs Day = Some 86400"
| "duration_secs Week = Some 604800"
| "duration_secs Month = Some 2592000"
| "duration_secs All = None"

fun tw_as_str :: "time_window \<Rightarrow> string" where
  "tw_as_str Day = ''24h''"
| "tw_as_str Week = ''7d''"
| "tw_as_str Month = ''30d''"
| "tw_as_str All = ''all''"

lemma from_str_value_as_str [simp]: "from_str_value (tw_as_str w) = Some w"
  by (cases w) (simp_all add: from_str_value_def)

lemma from_str_value_SomeD: "from_str_value s = Some w \<Longrightarrow> s = tw_as_str w"
  by (auto simp: from_str_value_def split: if_splits)

lemma tw_as_str_inject [simp]: "tw_as_str v = tw_as_str w \<longleftrightarrow> v = w"
  by (cases v; cases w) simp_all

text \<open>Windows ordered by their length, the unbounded one last.\<close>

instantiation time_window :: linorder
begin

definition less_eq_time_window :: "time_window \<Rightarrow> time_window \<Rightarrow> bool" where
  "less_eq_time_window a b \<longleftrightarrow>
     (case duration_secs b of None \<Rightarrow> True
      | Some n \<Rightarrow> (case duration_secs a of None \<Rightarrow> False | Some m \<Rightarrow> m \<le> n))"

definition less_time_window :: "time_window \<Rightarrow> time_window \<Rightarrow> bool" where
  "less_time_window a b \<longleftrightarrow> a \<le> b \<and> \<not> b \<le> a"

instance
proof
  fix a b c :: time_window
  show "a < b \<longleftrightarrow> a \<le> b \<and> \<not> b \<le> a" by (simp add: less_time_window_def)
  show "a \<le> a" by (cases a) (simp_all add: less_eq_time_window_def)
  show "a \<le> b \<or> b \<le> a" by (cases a; cases b) (simp_all add: less_eq_time_window_def)
  show "a \<le> b \<Longrightarrow> b \<le> a \<Longrightarrow> a = b" by (cases a; cases b) (simp_all add: less_eq_time_window_def)
  show "a \<le> b \<Longrightarrow> b \<le> c \<Longrightarrow> a \<le> c" by (cases a; cases b; cases c) (simp_all add: less_eq_time_window_def)
qed

end

lemma windows_in_order [simp]: "Day < Week" "Week < Month" "Month < All"
  by (simp_all add: less_time_window_def less_eq_time_window_def)

lemma longer_window:
  "a \<le> b \<Longrightarrow> duration_secs b = Some n \<Longrightarrow> \<exists>m. duration_secs a = Some m \<and> m \<le> n"
  by (auto simp: less_eq_time_window_def split: option.splits)

section \<open>Requests and responses\<close>

record user_like_item =
  uli_type :: string
  uli_content :: uuid
  uli_liked_at :: datetime

record paginated_response =
  pg_items :: "user_like_item list"
  pg_next_cursor :: "string option"
  pg_has_more :: bool

record like_count_response =
  lcr_type :: string
  lcr_content :: uuid
  lcr_count :: int

record like_status_response =
  lsr_liked :: bool
  lsr_liked_at :: "datetime option"

record like_action_response =
  lar_liked :: bool
  lar_already_existed :: "bool option"
  lar_was_liked :: "bool option"
  lar_count :: int
  lar_liked_at :: "datetime option"

record batch_count_result =
  bcr_type :: string
  bcr_content :: uuid
  bcr_count :: int

record batch_status_result =
  bsr_type :: string
  bsr_content :: uuid
  bsr_liked :: bool
  bsr_liked_at :: "datetime option"

record top_liked_item =
  tli_type :: string
  tli_content :: uuid
  tli_count :: int

record top_liked_response =
  tlr_window :: string
  tlr_type :: "string option"
  tlr_items :: "top_liked_item list"

record health_detail =
  hd_status :: string
  hd_error :: "string option"

record cursor =
  cur_timestamp :: datetime
  cur_id :: int

text \<open>A row of \<open>likes\<close> as the repositories return it, and the cached first page of a user's likes.\<close>

record like_row =
  row_id :: int
  row_type :: string
  row_content :: uuid
  row_created :: datetime

record cached_user_like_page =
  cp_rows :: "like_row list"
  cp_has_more :: bool

section \<open>External codecs\<close>

record codec =
  uuid_show :: "uuid \<Rightarrow> string"
  uuid_parse :: "string \<Rightarrow> uuid option"
  rfc3339_show :: "datetime \<Rightarrow> string"
  rfc3339_parse :: "string \<Rightarrow> datetime option"
  cursor_to_json :: "cursor \<Rightarrow> string"
  cursor_from_json :: "string \<Rightarrow> cursor option"
  b64_encode :: "string \<Rightarrow> string"
  b64_decode :: "string \<Rightarrow> string option"
  page_to_json :: "cached_user_like_page \<Rightarrow> string option"
  page_from_json :: "string \<Rightarrow> cached_user_like_page option"
  items_to_json :: "top_liked_item list \<Rightarrow> string option"
  items_from_json :: "string \<Rightarrow> top_liked_item list option"
  user_to_json :: "authenticated_user \<Rightarrow> string option"
  user_from_json :: "string \<Rightarrow> authenticated_user option"
  event_to_json :: "like_event \<Rightarrow> string option"
  event_from_json :: "string \<Rightarrow> like_event option"

text \<open>The timestamps RFC 3339 can express, in nanoseconds: years 1970 to 9999.\<close>

definition dt_ok :: "datetime \<Rightarrow> bool" where
  "dt_ok t \<longleftrightarrow> 0 \<le> t \<and> t < 253402300800 * 10 ^ 9"

text \<open>\<open>Display\<close> and \<open>FromStr\<close> of \<open>Uuid\<close>: hyphenated hexadecimal, which parses back.\<close>

definition uuid_char :: "char \<Rightarrow> bool" where
  "uuid_char c \<longleftrightarrow> c \<in> set ''0123456789abcdef-''"

definition uuid_codec_ok :: "codec \<Rightarrow> bool" where
  "uuid_codec_ok cx \<longleftrightarrow>
     (\<forall>u. uuid_parse cx (uuid_show cx u) = Some u) \<and> (\<forall>u. \<forall>c \<in> set (uuid_show cx u). uuid_char c)"

definition time_codec_ok :: "codec \<Rightarrow> bool" where
  "time_codec_ok cx \<longleftrightarrow>
     (\<forall>t. dt_ok t \<longrightarrow> rfc3339_parse cx (rfc3339_show cx t) = Some t \<and> rfc3339_show cx t \<noteq> [])"

lemma uuid_parse_show [simp]: "uuid_codec_ok cx \<Longrightarrow> uuid_parse cx (uuid_show cx u) = Some u"
  by (simp add: uuid_codec_ok_def)

lemma uuid_show_inject: "uuid_codec_ok cx \<Longrightarrow> uuid_show cx u = uuid_show cx v \<longleftrightarrow> u = v"
  by (metis option.inject uuid_parse_show)

lemma uuid_show_no_colon: "uuid_codec_ok cx \<Longrightarrow> CHR '':'' \<notin> set (uuid_show cx u)"
  by (auto simp: uuid_codec_ok_def uuid_char_def)

text \<open>A key that ends in a colon and an identifier determines both parts: the identifier has no colon, so
  the last one separates.\<close>

lemma append_colon_inject:
  assumes "CHR '':'' \<notin> set u" "CHR '':'' \<notin> set v"
  shows "a @ CHR '':'' # u = b @ CHR '':'' # v \<longleftrightarrow> a = b \<and> u = v"
  using assms by (auto simp: append_eq_append_conv2 append_eq_Cons_conv Cons_eq_append_conv)

lemma colon_key_inject:
  "uuid_codec_ok cx \<Longrightarrow> a @ CHR '':'' # uuid_show cx u = b @ CHR '':'' # uuid_show cx v \<longleftrightarrow> a = b \<and> u = v"
  by (simp add: append_colon_inject uuid_show_no_colon uuid_show_inject)

definition show_content_ref :: "codec \<Rightarrow> content_ref \<Rightarrow> string" where
  "show_content_ref cx r = cr_type r @ '':'' @ uuid_show cx (cr_id r)"

section \<open>UTF-8\<close>

text \<open>\<open>std::str::from_utf8\<close>: the well-formed byte sequences of the Unicode standard.\<close>

definition byte_in :: "nat \<Rightarrow> nat \<Rightarrow> char \<Rightarrow> bool" where
  "byte_in lo hi c \<longleftrightarrow> lo \<le> (of_char c :: nat) \<and> (of_char c :: nat) \<le> hi"

abbreviation cont_byte :: "char \<Rightarrow> bool" where
  "cont_byte \<equiv> byte_in 0x80 0xBF"

fun utf8_ok :: "string \<Rightarrow> bool" where
  "utf8_ok [] = True"
| "utf8_ok (a # s) =
     (if byte_in 0 0x7F a then utf8_ok s
      else (case s of
          [] \<Rightarrow> False
        | b # s1 \<Rightarrow>
            (if byte_in 0xC2 0xDF a then cont_byte b \<and> utf8_ok s1
             else (case s1 of
                 [] \<Rightarrow> False
               | c # s2 \<Rightarrow>
                   (if byte_in 0xE0 0xEF a then
                      byte_in (if byte_in 0xE0 0xE0 a then 0xA0 else 0x80)
                              (if byte_in 0xED 0xED a then 0x9F else 0xBF) b
                      \<and> cont_byte c \<and> utf8_ok s2
                    else (case s2 of
                        [] \<Rightarrow> False
                      | d # s3 \<Rightarrow>
                          byte_in 0xF0 0xF4 a
                          \<and> byte_in (if byte_in 0xF0 0xF0 a then 0x90 else 0x80)
                                    (if byte_in 0xF4 0xF4 a then 0x8F else 0xBF) b
                          \<and> cont_byte c \<and> cont_byte d \<and> utf8_ok s3))))))"

definition is_ascii :: "string \<Rightarrow> bool" where
  "is_ascii s \<longleftrightarrow> (\<forall>c \<in> set s. byte_in 0 0x7F c)"

lemma is_ascii_utf8_ok: "is_ascii s \<Longrightarrow> utf8_ok s"
  by (induction s) (auto simp: is_ascii_def)

section \<open>Cursors\<close>

datatype cursor_error = InvalidBase64 | InvalidUtf8 | InvalidFormat

fun show_cursor_error :: "cursor_error \<Rightarrow> string" where
  "show_cursor_error InvalidBase64 = ''invalid base64 encoding''"
| "show_cursor_error InvalidUtf8 = ''invalid UTF-8 in cursor''"
| "show_cursor_error InvalidFormat = ''invalid cursor format''"

definition cursor_new :: "datetime \<Rightarrow> int \<Rightarrow> cursor" where
  "cursor_new t i = \<lparr>cur_timestamp = t, cur_id = i\<rparr>"

definition cursor_encode :: "codec \<Rightarrow> cursor \<Rightarrow> string" where
  "cursor_encode cx c = b64_encode cx (cursor_to_json cx c)"

definition cursor_decode :: "codec \<Rightarrow> string \<Rightarrow> cursor_error + cursor" where
  "cursor_decode cx s =
     (case b64_decode cx s of
        None \<Rightarrow> Inl InvalidBase64
      | Some bytes \<Rightarrow>
          (if \<not> utf8_ok bytes then Inl InvalidUtf8
           else (case cursor_from_json cx bytes of
               None \<Rightarrow> Inl InvalidFormat
             | Some c \<Rightarrow> Inr c)))"

text \<open>What the code relies on: base64 decodes what it encoded, and the JSON of a cursor is ASCII
  and parses back to it (timestamps in range, \<open>i64\<close> ids).\<close>

definition cursor_ok :: "cursor \<Rightarrow> bool" where
  "cursor_ok c \<longleftrightarrow> dt_ok (cur_timestamp c) \<and> in_i64 (cur_id c)"

definition cursor_codec_ok :: "codec \<Rightarrow> bool" where
  "cursor_codec_ok cx \<longleftrightarrow>
     (\<forall>s. b64_decode cx (b64_encode cx s) = Some s) \<and>
     (\<forall>c. cursor_ok c \<longrightarrow>
        is_ascii (cursor_to_json cx c) \<and> cursor_from_json cx (cursor_to_json cx c) = Some c)"

lemma cursor_decode_encode:
  "cursor_codec_ok cx \<Longrightarrow> cursor_ok c \<Longrightarrow> cursor_decode cx (cursor_encode cx c) = Inr c"
  by (simp add: cursor_codec_ok_def cursor_decode_def cursor_encode_def is_ascii_utf8_ok)

end
