(* ===== verification/Circuit_Breaker.thy ===== *)
theory Circuit_Breaker
  imports Prelude
begin

text \<open>
  \<open>social-api/src/clients/circuit_breaker.rs\<close>: the breaker every call to an external service goes
  through. The state under the mutex is the record \<open>inner\<close>; each method takes the lock for its
  whole body, so a method is one state transformer, and the readings of \<open>Instant::now()\<close> it makes
  are arguments. The counters are 32-bit words (the release profile does not check overflow), the
  rate threshold is a rational number. The second half holds the invariant, the abstract machine
  the documentation draws, and the refinement between the two.
\<close>

section \<open>State\<close>

datatype circuit_state = Closed | HalfOpen | Open

record circuit_breaker_config =
  failure_threshold :: u32
  recovery_timeout :: int
  success_threshold :: u32
  service_name :: string
  rate_window :: int
  failure_rate_threshold :: rat
  min_calls_for_rate :: u32

record call_record =
  call_time :: instant
  call_success :: bool

record inner =
  cb_state :: circuit_state
  consecutive_failures :: u32
  consecutive_successes :: u32
  last_failure_time :: "instant option"
  call_window :: "call_record list"
  probe_in_flight :: bool

fun as_gauge_value :: "circuit_state \<Rightarrow> nat" where
  "as_gauge_value Closed = 0"
| "as_gauge_value HalfOpen = 1"
| "as_gauge_value Open = 2"

definition cb_new :: "inner" where
  "cb_new = \<lparr>cb_state = Closed, consecutive_failures = 0, consecutive_successes = 0,
             last_failure_time = None, call_window = [], probe_in_flight = False\<rparr>"

section \<open>Operations\<close>

definition do_transition :: "inner \<Rightarrow> circuit_state \<Rightarrow> inner" where
  "do_transition s new_state =
     (if cb_state s = new_state then s
      else (let s = s\<lparr>cb_state := new_state\<rparr> in
        (case new_state of
           Closed \<Rightarrow> s\<lparr>consecutive_failures := 0, consecutive_successes := 0,
                       probe_in_flight := False, call_window := []\<rparr>
         | HalfOpen \<Rightarrow> s\<lparr>consecutive_successes := 0, probe_in_flight := False\<rparr>
         | Open \<Rightarrow> s\<lparr>consecutive_successes := 0, probe_in_flight := False\<rparr>)))"

text \<open>The \<open>while let Some(front)\<close> loop of \<open>push_call\<close>.\<close>

fun prune_window :: "instant \<Rightarrow> call_record list \<Rightarrow> call_record list" where
  "prune_window cutoff [] = []"
| "prune_window cutoff (front # rest) =
     (if call_time front < cutoff then prune_window cutoff rest else front # rest)"

definition push_call :: "circuit_breaker_config \<Rightarrow> instant \<Rightarrow> inner \<Rightarrow> bool \<Rightarrow> inner" where
  "push_call cfg now s success =
     s\<lparr>call_window := prune_window (now - rate_window cfg) (call_window s)
          @ [\<lparr>call_time = now, call_success = success\<rparr>]\<rparr>"

definition failure_rate_exceeded :: "circuit_breaker_config \<Rightarrow> inner \<Rightarrow> bool" where
  "failure_rate_exceeded cfg s =
     (let total = (of_nat (length (call_window s)) :: u32) in
      if total < min_calls_for_rate cfg then False
      else of_nat (length (filter (\<lambda>r. \<not> call_success r) (call_window s))) / of_nat (unat total)
             > failure_rate_threshold cfg)"

text \<open>\<open>Instant::elapsed\<close> saturates at zero.\<close>

definition elapsed :: "instant \<Rightarrow> instant \<Rightarrow> int" where
  "elapsed now t = max 0 (now - t)"

definition allow_request :: "circuit_breaker_config \<Rightarrow> instant \<Rightarrow> inner \<Rightarrow> bool \<times> inner" where
  "allow_request cfg now s =
     (case cb_state s of
        Closed \<Rightarrow> (True, s)
      | HalfOpen \<Rightarrow>
          (if probe_in_flight s then (False, s) else (True, s\<lparr>probe_in_flight := True\<rparr>))
      | Open \<Rightarrow>
          (let el = (case last_failure_time s of
                       None \<Rightarrow> False
                     | Some t \<Rightarrow> elapsed now t \<ge> recovery_timeout cfg) in
           if el then (True, (do_transition s HalfOpen)\<lparr>probe_in_flight := True\<rparr>)
           else (False, s)))"

definition record_success :: "circuit_breaker_config \<Rightarrow> instant \<Rightarrow> inner \<Rightarrow> inner" where
  "record_success cfg now s =
     (let s = s\<lparr>consecutive_failures := 0, probe_in_flight := False\<rparr>;
          s = (if cb_state s \<noteq> Open then push_call cfg now s True else s) in
      if cb_state s = HalfOpen then
        (let s = s\<lparr>consecutive_successes := consecutive_successes s + 1\<rparr> in
         if consecutive_successes s \<ge> success_threshold cfg then do_transition s Closed else s)
      else s)"

definition record_failure :: "circuit_breaker_config \<Rightarrow> instant \<Rightarrow> instant \<Rightarrow> inner \<Rightarrow> inner" where
  "record_failure cfg now now' s =
     (let s = s\<lparr>consecutive_successes := 0, probe_in_flight := False, last_failure_time := Some now\<rparr>;
          s = (if cb_state s \<noteq> Open then push_call cfg now' s False else s) in
      (case cb_state s of
         Closed \<Rightarrow>
           (let s = s\<lparr>consecutive_failures := consecutive_failures s + 1\<rparr> in
            if consecutive_failures s \<ge> failure_threshold cfg then do_transition s Open
            else if failure_rate_exceeded cfg s then do_transition s Open
            else s)
       | HalfOpen \<Rightarrow> do_transition s Open
       | Open \<Rightarrow> s\<lparr>consecutive_failures := consecutive_failures s + 1\<rparr>))"

section \<open>Runs\<close>

text \<open>A history of the breaker: the calls its mutex serialises, in order.\<close>

datatype cb_event = EAllow instant | ESuccess instant | EFailure instant instant

fun cb_step :: "circuit_breaker_config \<Rightarrow> cb_event \<Rightarrow> inner \<Rightarrow> inner" where
  "cb_step cfg (EAllow t) s = snd (allow_request cfg t s)"
| "cb_step cfg (ESuccess t) s = record_success cfg t s"
| "cb_step cfg (EFailure t t') s = record_failure cfg t t' s"

fun cb_run :: "circuit_breaker_config \<Rightarrow> cb_event list \<Rightarrow> inner \<Rightarrow> inner" where
  "cb_run cfg [] s = s"
| "cb_run cfg (e # es) s = cb_run cfg es (cb_step cfg e s)"

text \<open>The answers \<open>allow_request\<close> gives along a history.\<close>

fun cb_grants :: "circuit_breaker_config \<Rightarrow> cb_event list \<Rightarrow> inner \<Rightarrow> bool list" where
  "cb_grants cfg [] s = []"
| "cb_grants cfg (e # es) s =
     (case e of
        EAllow t \<Rightarrow> fst (allow_request cfg t s) # cb_grants cfg es (cb_step cfg e s)
      | _ \<Rightarrow> cb_grants cfg es (cb_step cfg e s))"

lemma cb_run_append: "cb_run cfg (xs @ ys) s = cb_run cfg ys (cb_run cfg xs s)"
  by (induction xs arbitrary: s) auto

inductive cb_reachable :: "circuit_breaker_config \<Rightarrow> inner \<Rightarrow> bool" for cfg where
  cb_init: "cb_reachable cfg cb_new"
| cb_next: "cb_reachable cfg s \<Longrightarrow> cb_reachable cfg (cb_step cfg e s)"

inductive_simps cb_reachable_simps: "cb_reachable cfg s"

lemma cb_reachable_run: "cb_reachable cfg s \<Longrightarrow> cb_reachable cfg (cb_run cfg es s)"
  by (induction es arbitrary: s) (auto intro: cb_next)

section \<open>Invariant\<close>

fun cb_inv_at :: "circuit_breaker_config \<Rightarrow> circuit_state \<Rightarrow> inner \<Rightarrow> bool" where
  "cb_inv_at cfg Closed s \<longleftrightarrow>
     (consecutive_failures s = 0 \<or> consecutive_failures s < failure_threshold cfg)
     \<and> consecutive_successes s = 0 \<and> \<not> probe_in_flight s"
| "cb_inv_at cfg HalfOpen s \<longleftrightarrow>
     (consecutive_successes s = 0 \<or> consecutive_successes s < success_threshold cfg)
     \<and> last_failure_time s \<noteq> None"
| "cb_inv_at cfg Open s \<longleftrightarrow>
     consecutive_successes s = 0 \<and> \<not> probe_in_flight s \<and> last_failure_time s \<noteq> None"

definition cb_inv :: "circuit_breaker_config \<Rightarrow> inner \<Rightarrow> bool" where
  "cb_inv cfg s = cb_inv_at cfg (cb_state s) s"

lemmas cb_op_defs = allow_request_def record_success_def record_failure_def push_call_def
  do_transition_def Let_def

lemma cb_inv_new [simp]: "cb_inv cfg cb_new"
  by (simp add: cb_inv_def cb_new_def)

lemma word32_le_notD: "\<not> (t :: u32) \<le> x + 1 \<Longrightarrow> x + 1 < t"
  by simp

lemma cb_inv_allow [inv_intros]: "cb_inv cfg s \<Longrightarrow> cb_inv cfg (snd (allow_request cfg t s))"
  by (cases "cb_state s") (auto simp: cb_inv_def cb_op_defs split: option.splits)

lemma cb_inv_success [inv_intros]: "cb_inv cfg s \<Longrightarrow> cb_inv cfg (record_success cfg t s)"
  by (cases "cb_state s") (auto simp: cb_inv_def cb_op_defs)

lemma cb_inv_failure [inv_intros]: "cb_inv cfg s \<Longrightarrow> cb_inv cfg (record_failure cfg t t' s)"
  by (cases "cb_state s") (auto simp: cb_inv_def cb_op_defs)

lemma cb_inv_step: "cb_inv cfg s \<Longrightarrow> cb_inv cfg (cb_step cfg e s)"
  by (cases e) (auto intro: inv_intros)

lemma cb_inv_reachable: "cb_reachable cfg s \<Longrightarrow> cb_inv cfg s"
  by (induction rule: cb_reachable.induct) (auto intro: cb_inv_step)

section \<open>The abstract machine\<close>

text \<open>What the documentation of \<open>CircuitBreaker\<close> describes: a closed circuit knows its run of
  failures and the outcomes in the rate window, an open one the last failure, a half-open one its
  run of successes and whether the probe slot is taken. Counters do not wrap, the window is what
  the clock selects, and no field outlives its state.\<close>

datatype acb =
    AClosed nat "call_record list"
  | AHalfOpen nat bool
  | AOpen instant

definition spec_window ::
  "circuit_breaker_config \<Rightarrow> instant \<Rightarrow> bool \<Rightarrow> call_record list \<Rightarrow> call_record list" where
  "spec_window cfg now ok w =
     filter (\<lambda>r. call_time r \<ge> now - rate_window cfg) w @ [\<lparr>call_time = now, call_success = ok\<rparr>]"

definition spec_rate_exceeded :: "circuit_breaker_config \<Rightarrow> call_record list \<Rightarrow> bool" where
  "spec_rate_exceeded cfg w \<longleftrightarrow>
     unat (min_calls_for_rate cfg) \<le> length w \<and>
     of_nat (length (filter (\<lambda>r. \<not> call_success r) w)) / of_nat (length w)
       > failure_rate_threshold cfg"

fun spec_step :: "circuit_breaker_config \<Rightarrow> cb_event \<Rightarrow> acb \<Rightarrow> acb" where
  "spec_step cfg (EAllow t) (AClosed f w) = AClosed f w"
| "spec_step cfg (EAllow t) (AHalfOpen n p) = AHalfOpen n True"
| "spec_step cfg (EAllow t) (AOpen u) =
     (if elapsed t u \<ge> recovery_timeout cfg then AHalfOpen 0 True else AOpen u)"
| "spec_step cfg (ESuccess t) (AClosed f w) = AClosed 0 (spec_window cfg t True w)"
| "spec_step cfg (ESuccess t) (AHalfOpen n p) =
     (if n + 1 \<ge> unat (success_threshold cfg) then AClosed 0 [] else AHalfOpen (n + 1) False)"
| "spec_step cfg (ESuccess t) (AOpen u) = AOpen u"
| "spec_step cfg (EFailure t t') (AClosed f w) =
     (let w' = spec_window cfg t' False w in
      if f + 1 \<ge> unat (failure_threshold cfg) \<or> spec_rate_exceeded cfg w' then AOpen t
      else AClosed (f + 1) w')"
| "spec_step cfg (EFailure t t') (AHalfOpen n p) = AOpen t"
| "spec_step cfg (EFailure t t') (AOpen u) = AOpen t"

fun spec_grant :: "circuit_breaker_config \<Rightarrow> instant \<Rightarrow> acb \<Rightarrow> bool" where
  "spec_grant cfg t (AClosed f w) = True"
| "spec_grant cfg t (AHalfOpen n p) = (\<not> p)"
| "spec_grant cfg t (AOpen u) = (elapsed t u \<ge> recovery_timeout cfg)"

fun spec_run :: "circuit_breaker_config \<Rightarrow> cb_event list \<Rightarrow> acb \<Rightarrow> acb" where
  "spec_run cfg [] a = a"
| "spec_run cfg (e # es) a = spec_run cfg es (spec_step cfg e a)"

fun spec_grants :: "circuit_breaker_config \<Rightarrow> cb_event list \<Rightarrow> acb \<Rightarrow> bool list" where
  "spec_grants cfg [] a = []"
| "spec_grants cfg (e # es) a =
     (case e of
        EAllow t \<Rightarrow> spec_grant cfg t a # spec_grants cfg es (spec_step cfg e a)
      | _ \<Rightarrow> spec_grants cfg es (spec_step cfg e a))"

definition cb_abs :: "inner \<Rightarrow> acb" where
  "cb_abs s = (case cb_state s of
       Closed \<Rightarrow> AClosed (unat (consecutive_failures s)) (call_window s)
     | HalfOpen \<Rightarrow> AHalfOpen (unat (consecutive_successes s)) (probe_in_flight s)
     | Open \<Rightarrow> AOpen (case last_failure_time s of None \<Rightarrow> 0 | Some t \<Rightarrow> t))"

text \<open>A history whose clock readings never go back.\<close>

fun clock_mono :: "instant \<Rightarrow> cb_event list \<Rightarrow> bool" where
  "clock_mono T [] = True"
| "clock_mono T (EAllow t # es) = (T \<le> t \<and> clock_mono t es)"
| "clock_mono T (ESuccess t # es) = (T \<le> t \<and> clock_mono t es)"
| "clock_mono T (EFailure t t' # es) = (T \<le> t \<and> t \<le> t' \<and> clock_mono t' es)"

fun ev_time_last :: "cb_event \<Rightarrow> instant" where
  "ev_time_last (EAllow t) = t"
| "ev_time_last (ESuccess t) = t"
| "ev_time_last (EFailure t t') = t'"

definition cb_timed :: "instant \<Rightarrow> nat \<Rightarrow> inner \<Rightarrow> bool" where
  "cb_timed T k s \<longleftrightarrow>
     sorted (map call_time (call_window s)) \<and> (\<forall>r \<in> set (call_window s). call_time r \<le> T)
     \<and> length (call_window s) \<le> k"

lemma prune_window_filter:
  "sorted (map call_time w) \<Longrightarrow> prune_window c w = filter (\<lambda>r. c \<le> call_time r) w"
proof (induction w)
  case Nil
  then show ?case by simp
next
  case (Cons r w)
  show ?case
  proof (cases "call_time r < c")
    case True
    with Cons show ?thesis by simp
  next
    case False
    with Cons.prems have "\<forall>r' \<in> set w. c \<le> call_time r'" by fastforce
    then have "filter (\<lambda>r. c \<le> call_time r) w = w" by (simp add: filter_id_conv)
    with False show ?thesis by simp
  qed
qed

lemma set_prune_window: "set (prune_window c w) \<subseteq> set w"
  by (induction w) auto

lemma length_prune_window: "length (prune_window c w) \<le> length w"
  by (induction w) auto

lemma sorted_prune_window: "sorted (map call_time w) \<Longrightarrow> sorted (map call_time (prune_window c w))"
  by (induction w) auto

lemma push_call_timed:
  "cb_timed T k s \<Longrightarrow> T \<le> t \<Longrightarrow> cb_timed t (Suc k) (push_call cfg t s ok)"
  using set_prune_window [of "t - rate_window cfg" "call_window s"]
    length_prune_window [of "t - rate_window cfg" "call_window s"]
  by (force simp: cb_timed_def push_call_def sorted_append sorted_prune_window)

lemma cb_timed_mono: "cb_timed T k s \<Longrightarrow> T \<le> t \<Longrightarrow> k \<le> j \<Longrightarrow> cb_timed t j s"
  by (force simp: cb_timed_def)

lemma cb_timed_empty: "call_window s = [] \<Longrightarrow> cb_timed T k s"
  by (simp add: cb_timed_def)

lemma cb_timed_window: "call_window s' = call_window s \<Longrightarrow> cb_timed T k s' = cb_timed T k s"
  by (simp add: cb_timed_def)

lemma call_window_do_transition:
  "call_window (do_transition s c) =
     (if c = Closed \<and> cb_state s \<noteq> Closed then [] else call_window s)"
  by (cases c) (auto simp: do_transition_def Let_def)

lemma cb_timed_allow:
  "cb_timed T k s \<Longrightarrow> T \<le> t \<Longrightarrow> cb_timed t (Suc k) (snd (allow_request cfg t s))"
proof -
  assume a: "cb_timed T k s" "T \<le> t"
  have "call_window (snd (allow_request cfg t s)) = call_window s"
    by (cases "cb_state s")
      (auto simp: allow_request_def Let_def call_window_do_transition split: option.splits)
  then have "cb_timed t (Suc k) (snd (allow_request cfg t s)) = cb_timed t (Suc k) s"
    by (rule cb_timed_window)
  with a show ?thesis by (simp add: cb_timed_mono)
qed

lemma cb_timed_success:
  assumes "cb_timed T k s" "T \<le> t"
  shows "cb_timed t (Suc k) (record_success cfg t s)"
proof -
  let ?s = "push_call cfg t s True"
  have "call_window (record_success cfg t s) \<in> {call_window s, call_window ?s, []}"
    by (cases "cb_state s") (auto simp: record_success_def Let_def call_window_do_transition push_call_def)
  then show ?thesis
    using assms cb_timed_mono [of T k s t "Suc k"] push_call_timed [of T k s t cfg True]
    by (auto intro: cb_timed_empty simp: cb_timed_def)
qed

lemma cb_timed_failure:
  assumes "cb_timed T k s" "T \<le> t'"
  shows "cb_timed t' (Suc k) (record_failure cfg t t' s)"
proof -
  let ?s = "push_call cfg t' s False"
  have "call_window (record_failure cfg t t' s) \<in> {call_window s, call_window ?s}"
    by (cases "cb_state s") (auto simp: record_failure_def Let_def call_window_do_transition push_call_def)
  then show ?thesis
    using assms cb_timed_mono [of T k s t' "Suc k"] push_call_timed [of T k s t' cfg False]
    by (auto simp: cb_timed_def)
qed

lemma cb_timed_step:
  "clock_mono T (e # es) \<Longrightarrow> cb_timed T k s \<Longrightarrow> cb_timed (ev_time_last e) (Suc k) (cb_step cfg e s)"
  by (cases e) (auto intro: cb_timed_allow cb_timed_success cb_timed_failure)

lemma unat_inc_le: "(x :: u32) < t \<Longrightarrow> unat (x + 1) = unat x + 1"
  by unat_arith

lemma unat_one_le: "t \<le> (1 :: u32) \<longleftrightarrow> unat t \<le> 1"
  by (simp add: word_le_nat_alt)

lemma inc_ge_iff: "(x :: u32) < t \<Longrightarrow> t \<le> x + 1 \<longleftrightarrow> unat t \<le> unat x + 1"
  by (simp add: word_le_nat_alt unat_inc_le)

lemma rate_exceeded_spec:
  "length (call_window s) < 2 ^ 32 \<Longrightarrow>
   failure_rate_exceeded cfg s = spec_rate_exceeded cfg (call_window s)"
  by (auto simp: failure_rate_exceeded_def spec_rate_exceeded_def Let_def word_less_nat_alt
      unat_of_nat take_bit_nat_eq_self)

lemma window_spec:
  "cb_timed T k s \<Longrightarrow> call_window (push_call cfg t s ok) = spec_window cfg t ok (call_window s)"
  by (simp add: push_call_def spec_window_def prune_window_filter cb_timed_def)

lemma cb_refine_allow:
  "cb_inv cfg s \<Longrightarrow> cb_abs (snd (allow_request cfg t s)) = spec_step cfg (EAllow t) (cb_abs s)"
  by (cases "cb_state s") (auto simp: cb_inv_def cb_abs_def cb_op_defs split: option.splits)

lemma cb_refine_grant:
  "cb_inv cfg s \<Longrightarrow> fst (allow_request cfg t s) = spec_grant cfg t (cb_abs s)"
  by (cases "cb_state s") (auto simp: cb_inv_def cb_abs_def cb_op_defs split: option.splits)

lemma cb_refine_success:
  assumes "cb_inv cfg s" "cb_timed T k s"
  shows "cb_abs (record_success cfg t s) = spec_step cfg (ESuccess t) (cb_abs s)"
proof (cases "cb_state s")
  case Closed
  with assms show ?thesis
    using window_spec [OF assms(2), of cfg t True]
    by (simp add: cb_abs_def record_success_def Let_def push_call_def)
next
  case HalfOpen
  with assms show ?thesis
    by (auto simp: cb_inv_def cb_abs_def cb_op_defs unat_one_le inc_ge_iff unat_inc_le)
next
  case Open
  with assms show ?thesis
    by (simp add: cb_inv_def cb_abs_def record_success_def Let_def)
qed

lemma cb_refine_failure:
  assumes "cb_inv cfg s" "cb_timed T k s" "T \<le> t'" "Suc k < 2 ^ 32"
  shows "cb_abs (record_failure cfg t t' s) = spec_step cfg (EFailure t t') (cb_abs s)"
proof (cases "cb_state s")
  case Closed
  let ?w = "spec_window cfg t' False (call_window s)"
  have "length ?w < 2 ^ 32"
    using push_call_timed [OF assms(2,3), of cfg False] window_spec [OF assms(2), of cfg t' False] assms(4)
    by (simp add: cb_timed_def)
  moreover have "prune_window (t' - rate_window cfg) (call_window s) @ [\<lparr>call_time = t', call_success = False\<rparr>] = ?w"
    using window_spec [OF assms(2), of cfg t' False] by (simp add: push_call_def)
  moreover have "failure_threshold cfg \<le> consecutive_failures s + 1 \<longleftrightarrow>
      unat (failure_threshold cfg) \<le> unat (consecutive_failures s) + 1"
    using assms(1) Closed by (auto simp: cb_inv_def unat_one_le inc_ge_iff)
  moreover have "\<not> failure_threshold cfg \<le> consecutive_failures s + 1 \<Longrightarrow>
      unat (consecutive_failures s + 1) = unat (consecutive_failures s) + 1"
    using assms(1) Closed by (auto simp: cb_inv_def unat_one_le unat_inc_le)
  ultimately show ?thesis using Closed
    by (auto simp: cb_abs_def record_failure_def do_transition_def push_call_def Let_def rate_exceeded_spec)
next
  case HalfOpen
  then show ?thesis by (simp add: cb_abs_def cb_op_defs)
next
  case Open
  then show ?thesis by (simp add: cb_abs_def record_failure_def Let_def)
qed

lemma cb_refine_step:
  assumes "cb_inv cfg s" "cb_timed T k s" "clock_mono T (e # es)" "Suc k < 2 ^ 32"
  shows "cb_abs (cb_step cfg e s) = spec_step cfg e (cb_abs s)"
  using assms
  by (cases e) (simp_all add: cb_refine_allow cb_refine_success cb_refine_failure)

lemma clock_mono_tail: "clock_mono T (e # es) \<Longrightarrow> clock_mono (ev_time_last e) es"
  by (cases e) auto

lemma cb_refine_run:
  assumes "cb_inv cfg s" "cb_timed T k s" "clock_mono T es" "k + length es < 2 ^ 32"
  shows "cb_abs (cb_run cfg es s) = spec_run cfg es (cb_abs s)
       \<and> cb_grants cfg es s = spec_grants cfg es (cb_abs s)"
  using assms
proof (induction es arbitrary: s T k)
  case Nil
  then show ?case by simp
next
  case (Cons e es)
  have step: "cb_abs (cb_step cfg e s) = spec_step cfg e (cb_abs s)"
    using Cons.prems cb_refine_step [of cfg s T k e es] by simp
  have "cb_abs (cb_run cfg es (cb_step cfg e s)) = spec_run cfg es (cb_abs (cb_step cfg e s))
      \<and> cb_grants cfg es (cb_step cfg e s) = spec_grants cfg es (cb_abs (cb_step cfg e s))"
    using Cons.prems Cons.IH [of "cb_step cfg e s" "ev_time_last e" "Suc k"]
      cb_timed_step [of T e es k s cfg] clock_mono_tail [of T e es] cb_inv_step
    by simp
  then show ?case
    using step cb_refine_grant [OF Cons.prems(1)] by (auto split: cb_event.splits)
qed

section \<open>Behaviour of whole histories\<close>

text \<open>The configuration the witnesses run: two failures trip, two successes close.\<close>

definition cb_small :: circuit_breaker_config where
  "cb_small = \<lparr>failure_threshold = 2, recovery_timeout = 10, success_threshold = 2,
               service_name = ''profile'', rate_window = 30, failure_rate_threshold = 1 / 2,
               min_calls_for_rate = 10\<rparr>"

definition cb_small_open :: inner where
  "cb_small_open = \<lparr>cb_state = Open, consecutive_failures = 2, consecutive_successes = 0,
     last_failure_time = Some 1,
     call_window = [\<lparr>call_time = 0, call_success = False\<rparr>, \<lparr>call_time = 1, call_success = False\<rparr>],
     probe_in_flight = False\<rparr>"

lemma cb_small_run: "cb_run cb_small [EFailure 0 0, EFailure 1 1] cb_new = cb_small_open"
  by (simp add: cb_new_def cb_small_def cb_small_open_def cb_op_defs failure_rate_exceeded_def
      word_le_nat_alt)

lemma cb_small_allow:
  "allow_request cb_small 12 cb_small_open =
     (True, cb_small_open\<lparr>cb_state := HalfOpen, probe_in_flight := True\<rparr>)"
  by (simp add: cb_small_def cb_small_open_def cb_op_defs elapsed_def)

lemma cb_small_open_not_closed: "cb_state cb_small_open \<noteq> Closed"
  by (simp add: cb_small_open_def)

lemma allow_false_same: "allow_request cfg t s = (False, s') \<Longrightarrow> s' = s"
  by (cases "cb_state s") (auto simp: allow_request_def Let_def split: if_splits)

lemma allow_busy:
  "cb_state s = HalfOpen \<Longrightarrow> probe_in_flight s \<Longrightarrow> allow_request cfg t s = (False, s)"
  by (simp add: allow_request_def)

lemma allow_grant_half_open:
  "cb_state s \<noteq> Closed \<Longrightarrow> allow_request cfg t s = (True, s') \<Longrightarrow>
   cb_state s' = HalfOpen \<and> probe_in_flight s'"
  by (cases "cb_state s")
    (auto simp: allow_request_def do_transition_def Let_def split: if_splits option.splits)

lemma grants_busy:
  "cb_state s = HalfOpen \<Longrightarrow> probe_in_flight s \<Longrightarrow>
   cb_grants cfg (map EAllow ts) s = replicate (length ts) False
   \<and> cb_run cfg (map EAllow ts) s = s"
  by (induction ts) (auto simp: allow_busy)

text \<open>Every reachable breaker is well formed: a closed one has fewer failures in a row than the
  threshold and no probe out, a half-open one fewer successes than it needs, an open one knows when
  it failed last and has no probe out.\<close>

theorem cb_reachable_inv: "cb_reachable cfg s \<Longrightarrow> cb_inv cfg s"
  by (rule cb_inv_reachable)

theorem cb_reachable_inv_witness:
  "cb_inv cb_small (cb_run cb_small [EFailure 0 0, EFailure 1 1, EAllow 12] cb_new)
   \<and> cb_state (cb_run cb_small [EFailure 0 0, EFailure 1 1, EAllow 12] cb_new) = HalfOpen"
  by (rule conjI, rule cb_reachable_inv, rule cb_reachable_run, rule cb_init)
    (simp add: cb_new_def cb_small_def cb_op_defs elapsed_def failure_rate_exceeded_def)

text \<open>C11. The breaker refines its documentation: along every history in which the clock does not run
  backwards, of fewer than \<open>2 ^ 32\<close> calls, its state and every answer of \<open>allow_request\<close> are those
  of the abstract machine, whose counters never wrap, whose window is a selection by time and which
  keeps no stale fields.\<close>

theorem cb_refines_spec:
  assumes "clock_mono T es" "length es < 2 ^ 32"
  shows "cb_abs (cb_run cfg es cb_new) = spec_run cfg es (AClosed 0 [])
       \<and> cb_grants cfg es cb_new = spec_grants cfg es (AClosed 0 [])"
proof -
  have "cb_timed T 0 cb_new" by (simp add: cb_timed_def cb_new_def)
  moreover have "cb_abs cb_new = AClosed 0 []" by (simp add: cb_abs_def cb_new_def)
  ultimately show ?thesis
    using cb_refine_run [of cfg cb_new T 0 es] assms cb_inv_new by simp
qed

theorem cb_refines_spec_witness:
  "cb_abs (cb_run cb_small [EFailure 0 0, EFailure 1 1, EAllow 5, EAllow 12, ESuccess 13] cb_new)
     = AHalfOpen 1 False
   \<and> cb_grants cb_small [EFailure 0 0, EFailure 1 1, EAllow 5, EAllow 12, ESuccess 13] cb_new
     = [False, True]"
  using cb_refines_spec [of 0 "[EFailure 0 0, EFailure 1 1, EAllow 5, EAllow 12, ESuccess 13]" cb_small]
  by (simp add: cb_small_def spec_rate_exceeded_def spec_window_def elapsed_def Let_def)

text \<open>C26. At most one probe is out: from any state that is not closed, and with no outcome reported
  in between, at most one of any number of callers is let through, whenever they ask.\<close>

theorem cb_single_probe:
  assumes "cb_state s \<noteq> Closed"
  shows "length (filter id (cb_grants cfg (map EAllow ts) s)) \<le> 1"
  using assms
proof (induction ts arbitrary: s)
  case Nil
  then show ?case by simp
next
  case (Cons t ts)
  obtain g s' where a: "allow_request cfg t s = (g, s')" by fastforce
  show ?case
  proof (cases g)
    case True
    with allow_grant_half_open Cons.prems a grants_busy [of s' cfg ts] show ?thesis by simp
  next
    case False
    with a have "s' = s" by (auto dest: allow_false_same)
    with a False Cons show ?thesis by simp
  qed
qed

theorem cb_single_probe_witness:
  "length (filter id (cb_grants cb_small (map EAllow [3, 12, 12, 40]) cb_small_open)) \<le> 1
   \<and> length (filter id (cb_grants cb_small (map EAllow [3, 12, 12, 40]) cb_small_open)) = 1"
  using cb_single_probe [OF cb_small_open_not_closed, of cb_small "[3, 12, 12, 40]"]
  by (simp add: allow_busy cb_small_allow)
    (simp add: cb_small_def cb_small_open_def cb_op_defs elapsed_def)

text \<open>A probe whose outcome is never reported wedges the breaker: once the slot is taken, every
  later request is refused and nothing changes, however much time passes.\<close>

theorem cb_probe_wedged:
  assumes "cb_state s \<noteq> Closed" "allow_request cfg t s = (True, s')"
  shows "cb_grants cfg (map EAllow ts) s' = replicate (length ts) False
       \<and> cb_run cfg (map EAllow ts) s' = s'"
  using allow_grant_half_open [OF assms] grants_busy by blast

theorem cb_probe_wedged_witness:
  "cb_grants cb_small (map EAllow [13, 1000000])
     (cb_small_open\<lparr>cb_state := HalfOpen, probe_in_flight := True\<rparr>) = [False, False]"
  using cb_probe_wedged [OF cb_small_open_not_closed cb_small_allow, of "[13, 1000000]"]
  by (simp add: eval_nat_numeral)

text \<open>An open breaker rejects until its recovery timeout and no longer: a request before
  \<open>last_failure_time + recovery_timeout\<close> is refused and leaves the state alone, one at or after it is
  let through as the probe of the half-open state.\<close>

theorem cb_open_timeout:
  assumes "cb_state s = Open" "last_failure_time s = Some u" "0 < recovery_timeout cfg"
  shows "allow_request cfg t s =
     (if t < u + recovery_timeout cfg then (False, s)
      else (True, s\<lparr>cb_state := HalfOpen, consecutive_successes := 0, probe_in_flight := True\<rparr>))"
  using assms by (auto simp: allow_request_def do_transition_def elapsed_def Let_def)

theorem cb_open_timeout_witness:
  "allow_request cb_small 10 cb_small_open = (False, cb_small_open)"
  using cb_open_timeout [of cb_small_open 1 cb_small 10]
  by (simp add: cb_small_open_def cb_small_def)

lemma failure_below:
  assumes "cb_state s = Closed" "unat (consecutive_failures s) + 1 < unat (failure_threshold cfg)"
    "length (call_window s) + 1 < unat (min_calls_for_rate cfg)"
  shows "cb_state (record_failure cfg t t' s) = Closed
       \<and> unat (consecutive_failures (record_failure cfg t t' s)) = unat (consecutive_failures s) + 1
       \<and> length (call_window (record_failure cfg t t' s)) \<le> length (call_window s) + 1"
proof -
  let ?s = "s\<lparr>consecutive_successes := 0, probe_in_flight := False, last_failure_time := Some t,
    call_window := prune_window (t' - rate_window cfg) (call_window s)
      @ [\<lparr>call_time = t', call_success = False\<rparr>], consecutive_failures := consecutive_failures s + 1\<rparr>"
  have len: "length (call_window ?s) \<le> length (call_window s) + 1"
    by (simp add: length_prune_window)
  moreover have "unat (min_calls_for_rate cfg) < 2 ^ 32"
    using unsigned_less [of "min_calls_for_rate cfg", where 'a = nat] by simp
  ultimately have "\<not> failure_rate_exceeded cfg ?s"
    using assms(3) rate_exceeded_spec [of ?s cfg] by (simp add: spec_rate_exceeded_def)
  moreover have "consecutive_failures s < failure_threshold cfg"
    using assms(2) by (simp add: word_less_nat_alt)
  ultimately show ?thesis
    using assms len inc_ge_iff [of "consecutive_failures s" "failure_threshold cfg"]
      unat_inc_le [of "consecutive_failures s" "failure_threshold cfg"]
    by (simp add: record_failure_def push_call_def Let_def)
qed

lemma failure_at_threshold:
  "cb_state s = Closed \<Longrightarrow> unat (consecutive_failures s) + 1 = unat (failure_threshold cfg) \<Longrightarrow>
   cb_state (record_failure cfg t t' s) = Open"
  using inc_ge_iff [of "consecutive_failures s" "failure_threshold cfg"]
  by (simp add: record_failure_def push_call_def do_transition_def Let_def word_less_nat_alt)

lemma failure_open: "cb_state s = Open \<Longrightarrow> cb_state (record_failure cfg t t' s) = Open"
  by (simp add: record_failure_def Let_def)

lemma failures_open:
  "cb_state s = Open \<Longrightarrow> cb_state (cb_run cfg (map (\<lambda>t. EFailure t t) ts) s) = Open"
  by (induction ts arbitrary: s) (auto simp: failure_open)

lemma failures_trip:
  assumes "cb_state s = Closed" "unat (consecutive_failures s) < unat (failure_threshold cfg)"
    "length (call_window s) + length ts < unat (min_calls_for_rate cfg)"
  shows "cb_state (cb_run cfg (map (\<lambda>t. EFailure t t) ts) s) =
     (if unat (failure_threshold cfg) \<le> unat (consecutive_failures s) + length ts then Open else Closed)"
  using assms
proof (induction ts arbitrary: s)
  case Nil
  then show ?case by simp
next
  case (Cons t ts)
  let ?s = "record_failure cfg t t s"
  show ?case
  proof (cases "unat (consecutive_failures s) + 1 < unat (failure_threshold cfg)")
    case True
    then show ?thesis using failure_below [of s cfg t t] Cons by simp
  next
    case False
    then show ?thesis
      using failure_at_threshold [of s cfg t t] failures_open [of ?s cfg ts] Cons.prems by simp
  qed
qed

text \<open>A closed breaker trips exactly at its threshold: after a success (or from the start), while
  too few calls are in the window for the rate rule, a run of consecutive failures leaves the
  circuit closed until there are \<open>failure_threshold\<close> of them, and open from then on.\<close>

theorem cb_trips_at_threshold:
  assumes "cb_state s = Closed" "consecutive_failures s = 0" "0 < failure_threshold cfg"
    "length (call_window s) + length ts < unat (min_calls_for_rate cfg)"
  shows "cb_state (cb_run cfg (map (\<lambda>t. EFailure t t) ts) s) =
     (if unat (failure_threshold cfg) \<le> length ts then Open else Closed)"
  using failures_trip [of s cfg ts] assms by (simp add: word_less_nat_alt)

theorem cb_trips_at_threshold_witness:
  "cb_state (cb_run cb_small (map (\<lambda>t. EFailure t t) [5, 6]) cb_new) = Open
   \<and> cb_state (cb_run cb_small (map (\<lambda>t. EFailure t t) [5]) cb_new) = Closed"
  using cb_trips_at_threshold [of cb_new cb_small "[5, 6]"]
    cb_trips_at_threshold [of cb_new cb_small "[5]"]
  by (simp add: cb_new_def cb_small_def)

lemma probe_cycle:
  assumes "cb_state s = HalfOpen" "\<not> probe_in_flight s"
    "unat (consecutive_successes s) < unat (success_threshold cfg)"
  shows "let s' = cb_run cfg [EAllow t, ESuccess t'] s in
     (if unat (success_threshold cfg) \<le> unat (consecutive_successes s) + 1 then cb_state s' = Closed
      else cb_state s' = HalfOpen \<and> \<not> probe_in_flight s'
         \<and> unat (consecutive_successes s') = unat (consecutive_successes s) + 1)"
  using assms inc_ge_iff [of "consecutive_successes s" "success_threshold cfg"]
    unat_inc_le [of "consecutive_successes s" "success_threshold cfg"]
  by (simp add: allow_request_def record_success_def push_call_def do_transition_def Let_def
      word_less_nat_alt)

lemma closed_cycle:
  "cb_state s = Closed \<Longrightarrow> cb_state (cb_run cfg [EAllow t, ESuccess t'] s) = Closed"
  by (simp add: allow_request_def record_success_def push_call_def Let_def)

definition probe_cycles :: "instant list \<Rightarrow> cb_event list" where
  "probe_cycles ts = concat (map (\<lambda>t. [EAllow t, ESuccess t]) ts)"

lemma closed_cycles: "cb_state s = Closed \<Longrightarrow> cb_state (cb_run cfg (probe_cycles ts) s) = Closed"
proof (induction ts arbitrary: s)
  case (Cons t ts)
  then show ?case using closed_cycle [of s cfg t t] by (simp add: probe_cycles_def)
qed (simp add: probe_cycles_def)

lemma half_open_cycles:
  assumes "cb_state s = HalfOpen" "\<not> probe_in_flight s"
    "unat (consecutive_successes s) < unat (success_threshold cfg)"
  shows "cb_state (cb_run cfg (probe_cycles ts) s) =
    (if unat (success_threshold cfg) \<le> unat (consecutive_successes s) + length ts then Closed else HalfOpen)"
  using assms
proof (induction ts arbitrary: s)
  case Nil
  then show ?case by (simp add: probe_cycles_def)
next
  case (Cons t ts)
  let ?s = "cb_run cfg [EAllow t, ESuccess t] s"
  have run: "cb_run cfg (probe_cycles (t # ts)) s = cb_run cfg (probe_cycles ts) ?s"
    by (simp add: probe_cycles_def)
  show ?case
  proof (cases "unat (success_threshold cfg) \<le> unat (consecutive_successes s) + 1")
    case True
    then show ?thesis using probe_cycle [OF Cons.prems, of t t] closed_cycles [of ?s cfg ts] run
      by (simp add: Let_def)
  next
    case False
    then show ?thesis using probe_cycle [OF Cons.prems, of t t] Cons.IH [of ?s] run
      by (simp add: Let_def)
  qed
qed

text \<open>C34. The breaker recovers: once the recovery timeout has passed, \<open>success_threshold\<close> probes that
  succeed one after the other close an open circuit, and fewer leave it half open.\<close>

theorem cb_recovers:
  assumes "cb_inv cfg s" "cb_state s = Open" "last_failure_time s = Some u"
    "0 < success_threshold cfg" "0 < recovery_timeout cfg" "u + recovery_timeout cfg \<le> t"
  shows "cb_state (cb_run cfg (probe_cycles (t # ts)) s) =
    (if unat (success_threshold cfg) \<le> length (t # ts) then Closed else HalfOpen)"
proof -
  let ?h = "s\<lparr>cb_state := HalfOpen, consecutive_successes := 0, probe_in_flight := False\<rparr>"
  have "cb_run cfg (probe_cycles (t # ts)) s = cb_run cfg (probe_cycles (t # ts)) ?h"
    using cb_open_timeout [OF assms(2,3,5), of t] assms(6)
    by (simp add: probe_cycles_def allow_request_def)
  moreover have "cb_state (cb_run cfg (probe_cycles (t # ts)) ?h) =
    (if unat (success_threshold cfg) \<le> length (t # ts) then Closed else HalfOpen)"
    using half_open_cycles [of ?h cfg "t # ts"] assms(4) by (simp add: word_less_nat_alt)
  ultimately show ?thesis by simp
qed

theorem cb_recovers_witness:
  "cb_state (cb_run cb_small (probe_cycles [11, 12]) cb_small_open) = Closed
   \<and> cb_state (cb_run cb_small (probe_cycles [11]) cb_small_open) = HalfOpen"
  using cb_recovers [of cb_small cb_small_open 1 11 "[12]"] cb_recovers [of cb_small cb_small_open 1 11 "[]"]
  by (simp add: cb_small_def cb_small_open_def cb_inv_def)

end
