(* ===== verification/Config.thy ===== *)
theory Config
  imports Types Circuit_Breaker "HOL-Library.AList"
begin

text \<open>
  \<open>social-api/src/config.rs\<close>, \<open>content.rs\<close> and the breaker construction of \<open>state.rs\<close>: the
  configuration is read from an environment (the list of its variables, in the order
  \<open>std::env::vars\<close> yields them), a \<open>HashMap\<close> an association list with one entry per key, a panic of \<open>from_env\<close> is an \<open>Inl\<close> with its message. Unsigned
  fields are natural numbers; the parse bounds them by their width.
\<close>

type_synonym env = "(string \<times> string) list"

section \<open>Reading variables\<close>

definition usize_max :: nat where "usize_max = 2 ^ 64 - 1"

definition saturating_mul :: "nat \<Rightarrow> nat \<Rightarrow> nat" where
  "saturating_mul a b = min (a * b) usize_max"

definition default_server_concurrency_limit :: "nat \<Rightarrow> nat \<Rightarrow> nat" where
  "default_server_concurrency_limit db_max_connections redis_pool_size =
     (let db_budget = saturating_mul db_max_connections 4;
          redis_budget = saturating_mul redis_pool_size 8 in
      max (min db_budget redis_budget) 16)"

definition env_var :: "env \<Rightarrow> string \<Rightarrow> string option" where
  "env_var env name = map_of env name"

text \<open>\<open>require_env\<close> returns the value and the list of missing names, extended.\<close>

definition require_env :: "env \<Rightarrow> string \<Rightarrow> string list \<Rightarrow> string \<times> string list" where
  "require_env env name missing =
     (case env_var env name of
        Some val \<Rightarrow> (if val \<noteq> [] then (val, missing) else ([], missing @ [name]))
      | None \<Rightarrow> ([], missing @ [name]))"

text \<open>\<open>env_or_default\<close> at the unsigned type of width \<open>w\<close>.\<close>

definition env_or_default :: "env \<Rightarrow> nat \<Rightarrow> string \<Rightarrow> nat \<Rightarrow> nat" where
  "env_or_default env w name def =
     (case env_var env name of
        None \<Rightarrow> def
      | Some v \<Rightarrow> (case parse_uint w v of None \<Rightarrow> def | Some n \<Rightarrow> n))"

definition env_or_string :: "env \<Rightarrow> string \<Rightarrow> string \<Rightarrow> string" where
  "env_or_string env name def = (case env_var env name of None \<Rightarrow> def | Some v \<Rightarrow> v)"

text \<open>\<open>to_lowercase\<close> on the ASCII letters environment names are made of.\<close>

definition to_lower_char :: "char \<Rightarrow> char" where
  "to_lower_char c =
     (let n = (of_char c :: nat) in if 65 \<le> n \<and> n \<le> 90 then char_of (n + 32) else c)"

definition to_lowercase :: "string \<Rightarrow> string" where
  "to_lowercase = map to_lower_char"

definition content_type_of_key :: "string \<Rightarrow> string option" where
  "content_type_of_key key =
     (case str_strip_prefix key ''CONTENT_API_'' of
        None \<Rightarrow> None
      | Some s \<Rightarrow> map_option to_lowercase (str_strip_suffix s ''_URL''))"

fun build_content_api_urls :: "env \<Rightarrow> env \<Rightarrow> env" where
  "build_content_api_urls [] urls = urls"
| "build_content_api_urls ((key, val) # rest) urls =
     build_content_api_urls rest
       (case content_type_of_key key of
          Some t \<Rightarrow> (if val \<noteq> [] then AList.update t val urls else urls)
        | None \<Rightarrow> urls)"

section \<open>The configuration\<close>

record config =
  database_url :: string
  read_database_url :: string
  redis_url :: string
  http_port :: nat
  grpc_port :: nat
  internal_transport :: string
  internal_grpc_url :: string
  content_api_urls :: "(string \<times> string) list"
  profile_api_url :: string
  db_max_connections :: nat
  db_min_connections :: nat
  db_acquire_timeout_secs :: nat
  redis_pool_size :: nat
  rate_limit_write_per_minute :: nat
  rate_limit_read_per_minute :: nat
  cache_ttl_like_counts_secs :: nat
  cache_ttl_content_validation_secs :: nat
  cache_ttl_user_status_secs :: nat
  cache_ttl_like_status_secs :: nat
  cache_ttl_user_likes_secs :: nat
  cache_ttl_leaderboard_filtered_secs :: nat
  circuit_breaker_failure_threshold :: nat
  circuit_breaker_recovery_timeout_secs :: nat
  circuit_breaker_success_threshold :: nat
  circuit_breaker_rate_window_secs :: nat
  server_concurrency_limit :: nat
  upstream_request_timeout_secs :: nat
  shutdown_timeout_secs :: nat
  sse_heartbeat_interval_secs :: nat
  sse_broadcast_capacity :: nat
  leaderboard_refresh_interval_secs :: nat
  local_cache_ttl_ms :: nat
  local_cache_max_capacity :: nat
  log_level :: string

definition required_names :: "string list" where
  "required_names =
     [''DATABASE_URL'', ''READ_DATABASE_URL'', ''REDIS_URL'', ''HTTP_PORT'', ''PROFILE_API_URL'']"

text \<open>The five \<open>require_env\<close> calls of \<open>from_env\<close>, then its panics, then the record.\<close>

definition config_of ::
  "env \<Rightarrow> string \<Rightarrow> string \<Rightarrow> string \<Rightarrow> nat \<Rightarrow> string \<Rightarrow> env \<Rightarrow> config" where
  "config_of env db rdb redis port profile urls =
     (let int_var = env_or_default env;
          db_max = int_var 32 ''DB_MAX_CONNECTIONS'' 20;
          redis_size = int_var 32 ''REDIS_POOL_SIZE'' 10;
          limit = int_var 64 ''SERVER_CONCURRENCY_LIMIT''
                    (default_server_concurrency_limit db_max redis_size) in
      \<lparr>database_url = db,
       read_database_url = rdb,
       redis_url = redis,
       http_port = port,
       grpc_port = int_var 16 ''GRPC_PORT'' 50051,
       internal_transport = env_or_string env ''INTERNAL_TRANSPORT'' ''http'',
       internal_grpc_url = env_or_string env ''INTERNAL_GRPC_URL'' ''http://mock-services:50052'',
       content_api_urls = urls,
       profile_api_url = profile,
       db_max_connections = db_max,
       db_min_connections = int_var 32 ''DB_MIN_CONNECTIONS'' 5,
       db_acquire_timeout_secs = int_var 64 ''DB_ACQUIRE_TIMEOUT_SECS'' 5,
       redis_pool_size = redis_size,
       rate_limit_write_per_minute = int_var 64 ''RATE_LIMIT_WRITE_PER_MINUTE'' 30,
       rate_limit_read_per_minute = int_var 64 ''RATE_LIMIT_READ_PER_MINUTE'' 1000,
       cache_ttl_like_counts_secs = int_var 64 ''CACHE_TTL_LIKE_COUNTS_SECS'' 300,
       cache_ttl_content_validation_secs = int_var 64 ''CACHE_TTL_CONTENT_VALIDATION_SECS'' 3600,
       cache_ttl_user_status_secs = int_var 64 ''CACHE_TTL_USER_STATUS_SECS'' 60,
       cache_ttl_like_status_secs = int_var 64 ''CACHE_TTL_LIKE_STATUS_SECS'' 300,
       cache_ttl_user_likes_secs = int_var 64 ''CACHE_TTL_USER_LIKES_SECS'' 60,
       cache_ttl_leaderboard_filtered_secs = int_var 64 ''CACHE_TTL_LEADERBOARD_FILTERED_SECS'' 60,
       circuit_breaker_failure_threshold = int_var 32 ''CIRCUIT_BREAKER_FAILURE_THRESHOLD'' 5,
       circuit_breaker_recovery_timeout_secs =
         int_var 64 ''CIRCUIT_BREAKER_RECOVERY_TIMEOUT_SECS'' 30,
       circuit_breaker_success_threshold = int_var 32 ''CIRCUIT_BREAKER_SUCCESS_THRESHOLD'' 3,
       circuit_breaker_rate_window_secs = int_var 64 ''CIRCUIT_BREAKER_RATE_WINDOW_SECS'' 30,
       server_concurrency_limit = limit,
       upstream_request_timeout_secs = int_var 64 ''UPSTREAM_REQUEST_TIMEOUT_SECS'' 5,
       shutdown_timeout_secs = int_var 64 ''SHUTDOWN_TIMEOUT_SECS'' 30,
       sse_heartbeat_interval_secs = int_var 64 ''SSE_HEARTBEAT_INTERVAL_SECS'' 10,
       sse_broadcast_capacity = int_var 64 ''SSE_BROADCAST_CAPACITY'' 128,
       leaderboard_refresh_interval_secs = int_var 64 ''LEADERBOARD_REFRESH_INTERVAL_SECS'' 60,
       local_cache_ttl_ms = int_var 64 ''LOCAL_CACHE_TTL_MS'' 200,
       local_cache_max_capacity = int_var 64 ''LOCAL_CACHE_MAX_CAPACITY'' 10000,
       log_level = env_or_string env ''LOG_LEVEL'' ''info''\<rparr>)"

definition from_env :: "env \<Rightarrow> string + config" where
  "from_env env =
     (let (db, m1) = require_env env ''DATABASE_URL'' [];
          (rdb, m2) = require_env env ''READ_DATABASE_URL'' m1;
          (redis, m3) = require_env env ''REDIS_URL'' m2;
          (port_str, m4) = require_env env ''HTTP_PORT'' m3;
          (profile, missing) = require_env env ''PROFILE_API_URL'' m4 in
      if missing \<noteq> [] then
        Inl (''Missing required environment variables: '' @ str_join '', '' missing)
      else (case parse_uint 16 port_str of
          None \<Rightarrow> Inl (''HTTP_PORT must be a valid port number, got: '' @ port_str)
        | Some port \<Rightarrow>
            (let urls = build_content_api_urls env [] in
             if urls = [] then
               Inl (''No content API URLs configured. Set at least one CONTENT_API_{TYPE}_URL ''
                    @ ''env var (e.g., CONTENT_API_POST_URL)'')
             else Inr (config_of env db rdb redis port profile urls))))"

definition is_valid_content_type :: "config \<Rightarrow> string \<Rightarrow> bool" where
  "is_valid_content_type cfg t = (map_of (content_api_urls cfg) t \<noteq> None)"

definition content_api_url :: "config \<Rightarrow> string \<Rightarrow> string option" where
  "content_api_url cfg t = map_of (content_api_urls cfg) t"

definition use_grpc_transport :: "config \<Rightarrow> bool" where
  "use_grpc_transport cfg = (to_lowercase (internal_transport cfg) = ''grpc'')"

definition nanos :: "nat \<Rightarrow> int" where
  "nanos secs = int secs * 10 ^ 9"

definition build_circuit_breaker :: "config \<Rightarrow> string \<Rightarrow> circuit_breaker_config \<times> inner" where
  "build_circuit_breaker cfg name =
     (\<lparr>failure_threshold = of_nat (circuit_breaker_failure_threshold cfg),
       recovery_timeout = nanos (circuit_breaker_recovery_timeout_secs cfg),
       success_threshold = of_nat (circuit_breaker_success_threshold cfg),
       service_name = name,
       rate_window = nanos (circuit_breaker_rate_window_secs cfg),
       failure_rate_threshold = 1 / 2,
       min_calls_for_rate = 10\<rparr>, cb_new)"

section \<open>Content types\<close>

definition ensure_registered_content_type :: "config \<Rightarrow> string \<Rightarrow> app_error + unit" where
  "ensure_registered_content_type cfg t =
     (if \<not> is_valid_content_type cfg t then Inl (ContentTypeUnknown t) else Inr ())"

fun ensure_registered_content_types :: "config \<Rightarrow> string list \<Rightarrow> app_error + unit" where
  "ensure_registered_content_types cfg [] = Inr ()"
| "ensure_registered_content_types cfg (t # ts) =
     (case ensure_registered_content_type cfg t of
        Inl e \<Rightarrow> Inl e
      | Inr _ \<Rightarrow> ensure_registered_content_types cfg ts)"

definition ensure_registered_batch_items :: "config \<Rightarrow> content_ref list \<Rightarrow> app_error + unit" where
  "ensure_registered_batch_items cfg items = ensure_registered_content_types cfg (map cr_type items)"

lemma ensure_type_ok [simp]:
  "ensure_registered_content_type cfg t = Inr () \<longleftrightarrow> is_valid_content_type cfg t"
  by (simp add: ensure_registered_content_type_def)

lemma ensure_type_err [simp]:
  "ensure_registered_content_type cfg t = Inl e \<longleftrightarrow>
   \<not> is_valid_content_type cfg t \<and> e = ContentTypeUnknown t"
  by (auto simp: ensure_registered_content_type_def)

lemma ensure_types_ok:
  "ensure_registered_content_types cfg ts = Inr () \<longleftrightarrow> (\<forall>t \<in> set ts. is_valid_content_type cfg t)"
  by (induction ts) (auto simp: ensure_registered_content_type_def)

lemma ensure_types_first:
  "ensure_registered_content_types cfg ts =
     (case dropWhile (is_valid_content_type cfg) ts of
        [] \<Rightarrow> Inr ()
      | t # _ \<Rightarrow> Inl (ContentTypeUnknown t))"
  by (induction ts) (auto simp: ensure_registered_content_type_def)

section \<open>Loading\<close>

lemma require_env_missing:
  "snd (require_env env name m) = m @ (if env_var env name \<in> {None, Some []} then [name] else [])"
  by (auto simp: require_env_def split: option.splits)

lemma require_env_value:
  "snd (require_env env name m) = [] \<Longrightarrow>
   env_var env name = Some (fst (require_env env name m)) \<and> fst (require_env env name m) \<noteq> []"
  by (auto simp: require_env_def split: option.splits if_splits)

lemma require_env_pair: "require_env env name m = (v, m') \<Longrightarrow>
   m' = m @ (if env_var env name \<in> {None, Some []} then [name] else [])
   \<and> (m' = [] \<longrightarrow> env_var env name = Some v \<and> v \<noteq> [])"
  using require_env_missing [of env name m] require_env_value [of env name m] by auto

lemma env_or_default_bound: "def < 2 ^ w \<Longrightarrow> env_or_default env w name def < 2 ^ w"
  by (auto simp: env_or_default_def parse_uint_range split: option.splits)

lemma default_concurrency_limit_ge: "16 \<le> default_server_concurrency_limit a b"
  by (simp add: default_server_concurrency_limit_def Let_def)

lemma map_of_build_urls:
  "map_of (build_content_api_urls env urls) t =
     (case find (\<lambda>(k, v). content_type_of_key k = Some t \<and> v \<noteq> []) (rev env) of
        Some (k, v) \<Rightarrow> Some v
      | None \<Rightarrow> map_of urls t)"
proof (induction env urls rule: build_content_api_urls.induct)
  case (1 urls)
  then show ?case by simp
next
  case (2 key val rest urls)
  have find_snoc: "find P (xs @ [x]) = (case find P xs of None \<Rightarrow> if P x then Some x else None | Some y \<Rightarrow> Some y)"
    for P and xs :: "(string \<times> string) list" and x
    by (induction xs) auto
  show ?case
    using 2 by (auto simp: find_snoc update_conv split: option.splits)
qed

text \<open>A content type is known exactly when a non-empty variable \<open>CONTENT_API_<T>_URL\<close> names it,
  case folded; every other variable is ignored.\<close>

theorem valid_content_type_iff:
  assumes "from_env env = Inr cfg"
  shows "is_valid_content_type cfg t \<longleftrightarrow>
    (\<exists>n v. (''CONTENT_API_'' @ n @ ''_URL'', v) \<in> set env \<and> v \<noteq> [] \<and> to_lowercase n = t)"
proof -
  have urls: "content_api_urls cfg = build_content_api_urls env []"
    using assms by (auto simp: from_env_def config_of_def Let_def split: prod.splits option.splits if_splits)
  have key: "content_type_of_key k = Some t \<longleftrightarrow>
      (\<exists>n. k = ''CONTENT_API_'' @ n @ ''_URL'' \<and> to_lowercase n = t)" for k
  proof
    assume "content_type_of_key k = Some t"
    then obtain s n where "str_strip_prefix k ''CONTENT_API_'' = Some s"
      "str_strip_suffix s ''_URL'' = Some n" "to_lowercase n = t"
      by (auto simp: content_type_of_key_def split: option.splits)
    then show "\<exists>n. k = ''CONTENT_API_'' @ n @ ''_URL'' \<and> to_lowercase n = t"
      by (auto dest!: str_strip_prefix_SomeD str_strip_suffix_SomeD)
  next
    assume "\<exists>n. k = ''CONTENT_API_'' @ n @ ''_URL'' \<and> to_lowercase n = t"
    then show "content_type_of_key k = Some t"
      using str_strip_prefix_append [of "''CONTENT_API_''"] str_strip_suffix_append [of _ "''_URL''"]
      by (auto simp: content_type_of_key_def)
  qed
  have "is_valid_content_type cfg t \<longleftrightarrow>
      find (\<lambda>(k, v). content_type_of_key k = Some t \<and> v \<noteq> []) (rev env) \<noteq> None"
    by (auto simp: is_valid_content_type_def urls map_of_build_urls split: option.splits)
  also have "\<dots> \<longleftrightarrow> (\<exists>x \<in> set env. content_type_of_key (fst x) = Some t \<and> snd x \<noteq> [])"
    unfolding find_None_iff by force
  also have "\<dots> \<longleftrightarrow> (\<exists>k v. content_type_of_key k = Some t \<and> (k, v) \<in> set env \<and> v \<noteq> [])"
    by force
  finally show ?thesis unfolding key by blast
qed

text \<open>An environment the examples start from.\<close>

definition env_small :: env where
  "env_small =
     [(''DATABASE_URL'', ''postgres://db''), (''READ_DATABASE_URL'', ''postgres://replica''),
      (''REDIS_URL'', ''redis://r''), (''HTTP_PORT'', ''8080''), (''PROFILE_API_URL'', ''http://p''),
      (''CONTENT_API_POST_URL'', ''http://c''), (''REDIS_POOL_SIZE'', ''+3''),
      (''DB_MAX_CONNECTIONS'', ''x'')]"

definition cfg_small :: config where
  "cfg_small = config_of env_small ''postgres://db'' ''postgres://replica'' ''redis://r'' 8080
     ''http://p'' [(''post'', ''http://c'')]"

lemma to_lowercase_POST: "to_lowercase ''POST'' = ''post''"
  by code_simp

lemma from_env_small: "from_env env_small = Inr cfg_small"
  by (simp add: from_env_def require_env_def env_var_def env_small_def cfg_small_def Let_def
      content_type_of_key_def str_strip_prefix_def str_starts_with_def str_strip_suffix_def
      to_lowercase_POST parse_uint_def parse_nat_def digit_val_def)

theorem valid_content_type_iff_witness: "is_valid_content_type cfg_small ''post''"
  unfolding valid_content_type_iff [OF from_env_small]
  by (rule exI [of _ "''POST''"], rule exI [of _ "''http://c''"])
    (simp add: env_small_def to_lowercase_POST)

lemma filter_Cons_append: "filter P (x # xs) = (if P x then [x] else []) @ filter P xs"
  by simp

definition env_missing :: "env \<Rightarrow> string list" where
  "env_missing env = filter (\<lambda>n. env_var env n \<in> {None, Some []}) required_names"

text \<open>C40. Start-up fails fast and completely: \<open>from_env\<close> succeeds exactly when the five required
  variables are set and non-empty, the port parses as 16 bits and a content API is configured; when
  a required variable is absent or empty the message lists all such names, in order.\<close>

theorem from_env_fails_fast:
  "(env_missing env \<noteq> [] \<longrightarrow>
      from_env env = Inl (''Missing required environment variables: '' @ str_join '', '' (env_missing env)))
   \<and> (is_ok (from_env env) \<longleftrightarrow>
        env_missing env = [] \<and> (\<exists>p n. env_var env ''HTTP_PORT'' = Some p \<and> parse_uint 16 p = Some n)
        \<and> build_content_api_urls env [] \<noteq> [])"
proof -
  obtain db m1 where 1: "require_env env ''DATABASE_URL'' [] = (db, m1)" by fastforce
  obtain rdb m2 where 2: "require_env env ''READ_DATABASE_URL'' m1 = (rdb, m2)" by fastforce
  obtain redis m3 where 3: "require_env env ''REDIS_URL'' m2 = (redis, m3)" by fastforce
  obtain port m4 where 4: "require_env env ''HTTP_PORT'' m3 = (port, m4)" by fastforce
  obtain prof m5 where 5: "require_env env ''PROFILE_API_URL'' m4 = (prof, m5)" by fastforce
  note ps = 1 [THEN require_env_pair] 2 [THEN require_env_pair] 3 [THEN require_env_pair]
    4 [THEN require_env_pair] 5 [THEN require_env_pair]
  have m5: "m5 = env_missing env"
    unfolding ps [THEN conjunct1] env_missing_def required_names_def filter_Cons_append by simp
  have "m5 = [] \<Longrightarrow> m4 = []" using ps(5) [THEN conjunct1] by (metis Nil_is_append_conv)
  then have port: "m5 = [] \<Longrightarrow> env_var env ''HTTP_PORT'' = Some port"
    using ps(4) [THEN conjunct2] by blast
  have run: "from_env env =
     (if m5 \<noteq> [] then Inl (''Missing required environment variables: '' @ str_join '', '' m5)
      else case parse_uint 16 port of
          None \<Rightarrow> Inl (''HTTP_PORT must be a valid port number, got: '' @ port)
        | Some n \<Rightarrow>
            (let urls = build_content_api_urls env [] in
             if urls = [] then
               Inl (''No content API URLs configured. Set at least one CONTENT_API_{TYPE}_URL ''
                    @ ''env var (e.g., CONTENT_API_POST_URL)'')
             else Inr (config_of env db rdb redis n prof urls)))"
    by (simp add: from_env_def 1 2 3 4 5)
  show ?thesis
    unfolding run m5 using port m5 by (auto simp: Let_def split: option.splits)
qed

theorem from_env_fails_fast_witness:
  "from_env (tl env_small) =
     Inl ''Missing required environment variables: DATABASE_URL''"
  using conjunct1 [OF from_env_fails_fast [of "tl env_small"]]
  by (simp add: env_missing_def required_names_def env_small_def env_var_def)

text \<open>The loaded limits are usable: a derived concurrency limit is at least 16, the ports fit 16
  bits, and the breaker built from the configuration starts closed with its thresholds unchanged by
  the conversion to 32 bits.\<close>

theorem from_env_limits:
  assumes "from_env env = Inr cfg"
  shows "(env_var env ''SERVER_CONCURRENCY_LIMIT'' = None \<longrightarrow> 16 \<le> server_concurrency_limit cfg)
    \<and> http_port cfg < 2 ^ 16 \<and> grpc_port cfg < 2 ^ 16
    \<and> unat (failure_threshold (fst (build_circuit_breaker cfg n))) = circuit_breaker_failure_threshold cfg
    \<and> unat (success_threshold (fst (build_circuit_breaker cfg n))) = circuit_breaker_success_threshold cfg
    \<and> cb_inv (fst (build_circuit_breaker cfg n)) (snd (build_circuit_breaker cfg n))"
proof -
  obtain db rdb redis port_s port prof urls where
    "parse_uint 16 port_s = Some port" and cfg: "cfg = config_of env db rdb redis port prof urls"
    using assms
    by (auto simp: from_env_def Let_def split: prod.splits option.splits if_splits)
  moreover have "env_or_default env 32 ''CIRCUIT_BREAKER_FAILURE_THRESHOLD'' 5 < 2 ^ 32"
    "env_or_default env 32 ''CIRCUIT_BREAKER_SUCCESS_THRESHOLD'' 3 < 2 ^ 32"
    "env_or_default env 16 ''GRPC_PORT'' 50051 < 2 ^ 16"
    by (rule env_or_default_bound, simp)+
  ultimately show ?thesis
    using parse_uint_range [of 16 port_s port]
    by (simp add: config_of_def build_circuit_breaker_def Let_def env_or_default_def
        default_concurrency_limit_ge unat_of_nat take_bit_nat_eq_self)
qed

lemma server_concurrency_limit_config_of:
  "server_concurrency_limit (config_of env a b c p q u) =
     env_or_default env 64 ''SERVER_CONCURRENCY_LIMIT''
       (default_server_concurrency_limit (env_or_default env 32 ''DB_MAX_CONNECTIONS'' 20)
          (env_or_default env 32 ''REDIS_POOL_SIZE'' 10))"
  by (simp add: config_of_def Let_def)

lemma env_small_lookups:
  "env_var env_small ''SERVER_CONCURRENCY_LIMIT'' = None"
  "env_var env_small ''DB_MAX_CONNECTIONS'' = Some ''x''"
  "env_var env_small ''REDIS_POOL_SIZE'' = Some ''+3''"
  by (simp_all add: env_var_def env_small_def)

lemma cfg_small_limit: "server_concurrency_limit cfg_small = 24"
  by (simp add: cfg_small_def server_concurrency_limit_config_of env_or_default_def
      env_small_lookups parse_uint_def parse_nat_def digit_val_def
      default_server_concurrency_limit_def saturating_mul_def usize_max_def)

theorem from_env_limits_witness:
  "server_concurrency_limit cfg_small = 24 \<and> 16 \<le> server_concurrency_limit cfg_small"
  using from_env_limits [OF from_env_small, of "[]", THEN conjunct1] env_small_lookups(1) cfg_small_limit
  by blast

end
