(* ===== verification/Tables.thy ===== *)
theory Tables
  imports Types "HOL-Library.AList" "HOL-Library.Multiset" "HOL-Library.Product_Lexorder"
begin

text \<open>
  The database: the two tables of \<open>migrations/\<close> and, one definition each, the SQL statements
  \<open>social-api/src/repositories.rs\<close> sends. A table is the list of its rows; \<open>BIGSERIAL\<close> is a
  counter that every attempted insert consumes; \<open>NOW()\<close> is an argument. The invariant says that
  the materialised counters count: it is what the write transactions keep and the reads rely on.
  \<open>updated_at\<close> is never read by the program and left out.
\<close>

type_synonym content_key = "string \<times> uuid"

record db =
  likes :: "like list"
  like_counts :: "(content_key \<times> int) list"
  next_like_id :: int

definition db_empty :: db where
  "db_empty = \<lparr>likes = [], like_counts = [], next_like_id = 1\<rparr>"

definition like_content :: "like \<Rightarrow> content_key" where
  "like_content r = (lk_type r, lk_content r)"

definition like_key :: "like \<Rightarrow> uuid \<times> content_key" where
  "like_key r = (lk_user r, like_content r)"

section \<open>Statements\<close>

definition sql_find_like :: "uuid \<Rightarrow> content_key \<Rightarrow> db \<Rightarrow> like option" where
  "sql_find_like user c d = find (\<lambda>r. like_key r = (user, c)) (likes d)"

definition sql_count :: "content_key \<Rightarrow> db \<Rightarrow> int" where
  "sql_count c d = (case map_of (like_counts d) c of None \<Rightarrow> 0 | Some n \<Rightarrow> n)"

text \<open>\<open>VARCHAR(50)\<close> counts characters, not bytes.\<close>

definition varchar50_ok :: "string \<Rightarrow> bool" where
  "varchar50_ok s \<longleftrightarrow> length (filter (\<lambda>c. \<not> cont_byte c) s) \<le> 50"

text \<open>\<open>INSERT INTO likes ... ON CONFLICT DO NOTHING RETURNING ...\<close>: the row if it was inserted, and
  the database; the sequence advances either way.\<close>

definition sql_insert_like :: "uuid \<Rightarrow> content_key \<Rightarrow> datetime \<Rightarrow> db \<Rightarrow> like option \<times> db" where
  "sql_insert_like user c now d =
     (let d' = d\<lparr>next_like_id := next_like_id d + 1\<rparr> in
      case sql_find_like user c d of
        Some _ \<Rightarrow> (None, d')
      | None \<Rightarrow>
          (let r = \<lparr>lk_id = next_like_id d, lk_user = user, lk_type = fst c, lk_content = snd c,
                    lk_created = now\<rparr> in
           (Some r, d'\<lparr>likes := likes d @ [r]\<rparr>)))"

text \<open>\<open>INSERT INTO like_counts ... ON CONFLICT DO UPDATE SET total_count = total_count + 1\<close>.\<close>

definition sql_upsert_count :: "content_key \<Rightarrow> db \<Rightarrow> int \<times> db" where
  "sql_upsert_count c d =
     (let n = (case map_of (like_counts d) c of None \<Rightarrow> 1 | Some n \<Rightarrow> n + 1) in
      (n, d\<lparr>like_counts := AList.update c n (like_counts d)\<rparr>))"

text \<open>\<open>DELETE FROM likes WHERE ...\<close>: the number of rows affected.\<close>

definition sql_delete_like :: "uuid \<Rightarrow> content_key \<Rightarrow> db \<Rightarrow> nat \<times> db" where
  "sql_delete_like user c d =
     (length (filter (\<lambda>r. like_key r = (user, c)) (likes d)),
      d\<lparr>likes := filter (\<lambda>r. like_key r \<noteq> (user, c)) (likes d)\<rparr>)"

text \<open>\<open>UPDATE like_counts SET total_count = GREATEST(total_count - 1, 0) ... RETURNING\<close>.\<close>

definition sql_decrement_count :: "content_key \<Rightarrow> db \<Rightarrow> int option \<times> db" where
  "sql_decrement_count c d =
     (case map_of (like_counts d) c of
        None \<Rightarrow> (None, d)
      | Some n \<Rightarrow>
          (let n' = max (n - 1) 0 in
           (Some n', d\<lparr>like_counts := AList.update c n' (like_counts d)\<rparr>)))"

text \<open>The paginated \<open>SELECT\<close> of a user's likes: filters, keyset condition, order, limit.\<close>

definition page_key :: "like \<Rightarrow> datetime \<times> int" where
  "page_key r = (lk_created r, lk_id r)"

definition user_rows :: "uuid \<Rightarrow> string option \<Rightarrow> db \<Rightarrow> like list" where
  "user_rows user filt d =
     filter (\<lambda>r. lk_user r = user \<and> (case filt of None \<Rightarrow> True | Some ct \<Rightarrow> lk_type r = ct)) (likes d)"

definition sql_user_likes ::
  "uuid \<Rightarrow> string option \<Rightarrow> (datetime \<times> int) option \<Rightarrow> nat \<Rightarrow> db \<Rightarrow> like list" where
  "sql_user_likes user filt cursor fetch_limit d =
     take fetch_limit (rev (sort_key page_key
       (filter (\<lambda>r. case cursor of None \<Rightarrow> True | Some k \<Rightarrow> page_key r < k) (user_rows user filt d))))"

text \<open>An order the database is free to choose: \<open>p n\<close> lists the positions of a result of \<open>n\<close> rows.\<close>

definition permute_by :: "(nat \<Rightarrow> nat list) \<Rightarrow> 'a list \<Rightarrow> 'a list" where
  "permute_by p xs = map ((!) xs) (p (length xs))"

definition is_ordering :: "(nat \<Rightarrow> nat list) \<Rightarrow> bool" where
  "is_ordering p \<longleftrightarrow> (\<forall>n. mset (p n) = mset [0..<n])"

lemma mset_permute_by: "is_ordering p \<Longrightarrow> mset (permute_by p xs) = mset xs"
proof -
  assume "is_ordering p"
  then have "mset (p (length xs)) = mset [0..<length xs]" by (simp add: is_ordering_def)
  then have "mset (permute_by p xs) = mset (map ((!) xs) [0..<length xs])"
    by (simp add: permute_by_def)
  then show ?thesis by (simp add: map_nth)
qed

lemma set_permute_by: "is_ordering p \<Longrightarrow> set (permute_by p xs) = set xs"
  by (metis mset_permute_by mset_eq_setD)

text \<open>The two leaderboard queries. \<open>GROUP BY\<close> yields one row per content, in no order, then
  \<open>ORDER BY count DESC LIMIT n\<close>, ties in no order.\<close>

definition group_counts :: "like list \<Rightarrow> (string \<times> uuid \<times> int) list" where
  "group_counts rs =
     map (\<lambda>(ct, cid). (ct, cid, int (length (filter (\<lambda>r. like_content r = (ct, cid)) rs))))
       (remdups (map like_content rs))"

definition top_rows ::
  "(nat \<Rightarrow> nat list) \<Rightarrow> nat \<Rightarrow> (string \<times> uuid \<times> int) list \<Rightarrow> (string \<times> uuid \<times> int) list" where
  "top_rows p limit rows = take limit (sort_key (\<lambda>(_, _, n). - n) (permute_by p rows))"

definition board_rows :: "string option \<Rightarrow> datetime option \<Rightarrow> db \<Rightarrow> (string \<times> uuid \<times> int) list" where
  "board_rows filt since d =
     (case since of
        Some t \<Rightarrow>
          group_counts (filter (\<lambda>r. t \<le> lk_created r \<and>
            (case filt of None \<Rightarrow> True | Some ct \<Rightarrow> lk_type r = ct)) (likes d))
      | None \<Rightarrow>
          map (\<lambda>((ct, cid), n). (ct, cid, n))
            (filter (\<lambda>((ct, cid), n). case filt of None \<Rightarrow> True | Some t \<Rightarrow> ct = t) (like_counts d)))"

definition sql_leaderboard ::
  "(nat \<Rightarrow> nat list) \<Rightarrow> string option \<Rightarrow> datetime option \<Rightarrow> nat \<Rightarrow> db \<Rightarrow> (string \<times> uuid \<times> int) list" where
  "sql_leaderboard p filt since limit d = top_rows p limit (board_rows filt since d)"

section \<open>Invariant\<close>

definition liked :: "uuid \<Rightarrow> content_key \<Rightarrow> db \<Rightarrow> bool" where
  "liked user c d \<longleftrightarrow> sql_find_like user c d \<noteq> None"

definition rows_of :: "content_key \<Rightarrow> db \<Rightarrow> nat" where
  "rows_of c d = length (filter (\<lambda>r. like_content r = c) (likes d))"

definition db_inv :: "db \<Rightarrow> bool" where
  "db_inv d \<longleftrightarrow>
     distinct (map like_key (likes d)) \<and> distinct (map lk_id (likes d))
     \<and> (\<forall>r \<in> set (likes d). 0 < lk_id r \<and> lk_id r < next_like_id d) \<and> 0 < next_like_id d
     \<and> distinct (map fst (like_counts d))
     \<and> (\<forall>c. sql_count c d = int (rows_of c d))"

lemma db_inv_empty [simp]: "db_inv db_empty"
  by (simp add: db_inv_def db_empty_def sql_count_def rows_of_def)

lemma db_inv_count: "db_inv d \<Longrightarrow> sql_count c d = int (rows_of c d)"
  by (simp only: db_inv_def)

lemma liked_iff: "liked user c d \<longleftrightarrow> (user, c) \<in> like_key ` set (likes d)"
  by (force simp: liked_def sql_find_like_def find_None_iff)

lemma liked_ex: "liked user c d \<longleftrightarrow> (\<exists>r \<in> set (likes d). like_key r = (user, c))"
  by (force simp: liked_iff)

lemma find_like_SomeD:
  "sql_find_like user c d = Some r \<Longrightarrow> r \<in> set (likes d) \<and> like_key r = (user, c)"
  by (auto simp: sql_find_like_def find_Some_iff)

lemma sql_count_update:
  "sql_count c (d\<lparr>like_counts := AList.update k n (like_counts d)\<rparr>) = (if c = k then n else sql_count c d)"
  by (simp add: sql_count_def update_conv)

lemma count_pos_entry: "0 < sql_count c d \<Longrightarrow> map_of (like_counts d) c = Some (sql_count c d)"
  by (auto simp: sql_count_def split: option.splits)

lemma distinct_key_filter:
  assumes "distinct (map f xs)"
  shows "length (filter (\<lambda>x. f x = k) xs) = (if k \<in> f ` set xs then 1 else 0)"
  using assms
proof (induction xs)
  case (Cons a xs)
  then show ?case
    by (cases "f a = k") (auto simp: filter_empty_conv)
qed simp

lemma find_distinct:
  "distinct (map f xs) \<Longrightarrow> x \<in> set xs \<Longrightarrow> find (\<lambda>y. f y = f x) xs = Some x"
  by (induction xs) (auto simp: image_iff)

section \<open>Write transactions\<close>

text \<open>The two write transactions as the statements that run when all of them succeed.\<close>

definition tx_insert :: "uuid \<Rightarrow> content_key \<Rightarrow> datetime \<Rightarrow> db \<Rightarrow> (like \<times> int) option \<times> db" where
  "tx_insert user c now d =
     (case sql_insert_like user c now d of
        (Some r, d) \<Rightarrow> (case sql_upsert_count c d of (n, d) \<Rightarrow> (Some (r, n), d))
      | (None, d) \<Rightarrow> (None, d))"

definition tx_delete :: "uuid \<Rightarrow> content_key \<Rightarrow> db \<Rightarrow> (nat \<times> int option) \<times> db" where
  "tx_delete user c d =
     (case sql_delete_like user c d of
        (n, d) \<Rightarrow> (if n > 0 then (case sql_decrement_count c d of (m, d) \<Rightarrow> ((n, m), d)) else ((n, None), d)))"

lemma sql_count_seq [simp]: "sql_count c (d\<lparr>next_like_id := i\<rparr>) = sql_count c d"
  "sql_count c (d\<lparr>likes := l\<rparr>) = sql_count c d"
  by (simp_all add: sql_count_def)

lemma tx_insert_cases:
  "tx_insert user c now d =
     (let d' = d\<lparr>next_like_id := next_like_id d + 1\<rparr>;
          r = \<lparr>lk_id = next_like_id d, lk_user = user, lk_type = fst c, lk_content = snd c, lk_created = now\<rparr> in
      if liked user c d then (None, d')
      else (Some (r, sql_count c d + 1),
            d'\<lparr>likes := likes d @ [r], like_counts := AList.update c (sql_count c d + 1) (like_counts d)\<rparr>))"
  by (auto simp: tx_insert_def sql_insert_like_def liked_def sql_upsert_count_def sql_count_def Let_def
      split: option.splits)

lemma like_key_new [simp]:
  "like_key \<lparr>lk_id = i, lk_user = user, lk_type = fst c, lk_content = snd c, lk_created = now\<rparr> = (user, c)"
  "like_content \<lparr>lk_id = i, lk_user = user, lk_type = fst c, lk_content = snd c, lk_created = now\<rparr> = c"
  by (simp_all add: like_key_def like_content_def)

lemma rows_of_liked:
  assumes "liked user c d"
  shows "0 < rows_of c d"
proof -
  obtain r where r: "r \<in> set (likes d)" "like_key r = (user, c)" using assms by (auto simp: liked_iff)
  then have "filter (\<lambda>r. like_content r = c) (likes d) \<noteq> []"
    by (auto simp: filter_empty_conv like_key_def)
  then show ?thesis by (simp add: rows_of_def)
qed

lemma tx_insert_inv [inv_intros]:
  assumes "db_inv d"
  shows "db_inv (snd (tx_insert user c now d))"
proof (cases "liked user c d")
  case True
  then have "snd (tx_insert user c now d) = d\<lparr>next_like_id := next_like_id d + 1\<rparr>"
    by (simp add: tx_insert_cases Let_def)
  moreover have "rows_of k (d\<lparr>next_like_id := next_like_id d + 1\<rparr>) = rows_of k d" for k
    by (simp add: rows_of_def)
  ultimately show ?thesis using assms db_inv_count [OF assms] by (auto simp: db_inv_def)
next
  case False
  have ids: "next_like_id d \<notin> lk_id ` set (likes d)" using assms by (auto simp: db_inv_def)
  have keys: "(user, c) \<notin> like_key ` set (likes d)" using False by (simp add: liked_iff)
  let ?d = "snd (tx_insert user c now d)"
  have "sql_count k ?d = (if k = c then sql_count c d + 1 else sql_count k d)" for k
    using False by (simp add: tx_insert_cases Let_def sql_count_def [of k] update_conv)
  moreover have "rows_of k ?d = (if k = c then rows_of c d + 1 else rows_of k d)" for k
    using False by (simp add: tx_insert_cases Let_def rows_of_def)
  ultimately have "\<forall>k. sql_count k ?d = int (rows_of k ?d)"
    using db_inv_count [OF assms] by (simp del: split_paired_All)
  moreover have "distinct (map fst (like_counts ?d))"
    using assms False by (simp add: tx_insert_cases Let_def db_inv_def distinct_update)
  moreover have "distinct (map like_key (likes ?d)) \<and> distinct (map lk_id (likes ?d))
      \<and> (\<forall>r \<in> set (likes ?d). 0 < lk_id r \<and> lk_id r < next_like_id ?d) \<and> 0 < next_like_id ?d"
    using assms False ids keys by (auto simp: tx_insert_cases Let_def db_inv_def)
  ultimately show ?thesis unfolding db_inv_def by blast
qed

lemma tx_delete_liked:
  assumes inv: "db_inv d" and l: "liked user c d"
  shows "tx_delete user c d =
     ((1, Some (sql_count c d - 1)),
      d\<lparr>likes := filter (\<lambda>r. like_key r \<noteq> (user, c)) (likes d),
        like_counts := AList.update c (sql_count c d - 1) (like_counts d)\<rparr>)"
proof -
  have "length (filter (\<lambda>r. like_key r = (user, c)) (likes d)) = 1"
    using inv l by (simp add: db_inv_def distinct_key_filter liked_iff)
  moreover have "0 < sql_count c d" using rows_of_liked [OF l] db_inv_count [OF inv] by simp
  ultimately show ?thesis
    using count_pos_entry [of c d] max_absorb1 [of 0 "sql_count c d - 1"]
    by (simp add: tx_delete_def sql_delete_like_def sql_decrement_count_def Let_def)
qed

lemma tx_delete_not_liked:
  assumes "\<not> liked user c d"
  shows "tx_delete user c d = ((0, None), d)"
proof -
  have none: "\<forall>r \<in> set (likes d). like_key r \<noteq> (user, c)" using assms by (force simp: liked_iff)
  then have "filter (\<lambda>r. like_key r = (user, c)) (likes d) = []"
    and "filter (\<lambda>r. like_key r \<noteq> (user, c)) (likes d) = likes d"
    by (simp_all add: filter_empty_conv filter_id_conv)
  then show ?thesis by (simp add: tx_delete_def sql_delete_like_def)
qed

lemma rows_of_delete:
  assumes "db_inv d"
  shows "int (length (filter (\<lambda>r. like_content r = k) (filter (\<lambda>r. like_key r \<noteq> (user, c)) (likes d)))) =
    int (rows_of k d) - (if k = c \<and> liked user c d then 1 else 0)"
proof -
  let ?P = "\<lambda>r. like_content r = k" and ?Q = "\<lambda>r. like_key r = (user, c)"
  have "length (filter ?P (likes d)) =
      length (filter ?P (filter (\<lambda>r. \<not> ?Q r) (likes d))) + length (filter ?P (filter ?Q (likes d)))"
    using sum_length_filter_compl [of ?Q "filter ?P (likes d)"]
    by (simp add: conj_commute)
  moreover have "length (filter ?P (filter ?Q (likes d))) = (if k = c \<and> liked user c d then 1 else 0)"
  proof (cases "k = c")
    case True
    then have "filter ?P (filter ?Q (likes d)) = filter ?Q (likes d)"
      by (auto simp: filter_id_conv like_key_def)
    then show ?thesis using True assms by (simp add: db_inv_def distinct_key_filter liked_iff)
  next
    case False
    then have "filter ?P (filter ?Q (likes d)) = []" by (auto simp: filter_empty_conv like_key_def)
    with False show ?thesis by simp
  qed
  ultimately show ?thesis by (simp add: rows_of_def)
qed

lemma tx_delete_inv [inv_intros]:
  assumes "db_inv d"
  shows "db_inv (snd (tx_delete user c d))"
proof (cases "liked user c d")
  case True
  let ?d = "snd (tx_delete user c d)"
  have "sql_count k ?d = (if k = c then sql_count c d - 1 else sql_count k d)" for k
    using assms True by (simp add: tx_delete_liked sql_count_def [of k] update_conv)
  moreover have "int (rows_of k ?d) = int (rows_of k d) - (if k = c then 1 else 0)" for k
    using rows_of_delete [OF assms, of k user c] assms True
    by (simp add: tx_delete_liked rows_of_def [of k "d\<lparr>likes := _, like_counts := _\<rparr>"])
  ultimately have "\<forall>k. sql_count k ?d = int (rows_of k ?d)"
    using db_inv_count [OF assms] by (simp del: split_paired_All)
  moreover have "distinct (map like_key (likes ?d)) \<and> distinct (map lk_id (likes ?d))
      \<and> (\<forall>r \<in> set (likes ?d). 0 < lk_id r \<and> lk_id r < next_like_id ?d) \<and> 0 < next_like_id ?d
      \<and> distinct (map fst (like_counts ?d))"
    using assms True by (auto simp: tx_delete_liked db_inv_def distinct_map_filter distinct_update)
  ultimately show ?thesis unfolding db_inv_def by blast
next
  case False
  then show ?thesis using assms by (simp add: tx_delete_not_liked)
qed

lemma liked_tx_insert: "liked u k (snd (tx_insert user c now d)) \<longleftrightarrow> (u, k) = (user, c) \<or> liked u k d"
  by (auto simp: tx_insert_cases Let_def liked_iff)

lemma liked_tx_delete:
  assumes "db_inv d"
  shows "liked u k (snd (tx_delete user c d)) \<longleftrightarrow> (u, k) \<noteq> (user, c) \<and> liked u k d"
proof (cases "liked user c d")
  case True
  then have "snd (tx_delete user c d) = d\<lparr>likes := filter (\<lambda>r. like_key r \<noteq> (user, c)) (likes d),
      like_counts := AList.update c (sql_count c d - 1) (like_counts d)\<rparr>"
    using assms by (simp add: tx_delete_liked)
  then show ?thesis by (auto simp: liked_ex)
next
  case False
  then show ?thesis by (auto simp: tx_delete_not_liked)
qed

section \<open>Pages\<close>

text \<open>All rows of a user, newest first: what a traversal must produce.\<close>

definition user_feed :: "uuid \<Rightarrow> string option \<Rightarrow> db \<Rightarrow> like list" where
  "user_feed user filt d = rev (sort_key page_key (user_rows user filt d))"

lemma sql_user_likes_filter:
  "sql_user_likes user filt cursor n d =
     take n (filter (\<lambda>r. case cursor of None \<Rightarrow> True | Some k \<Rightarrow> page_key r < k) (user_feed user filt d))"
  by (simp add: sql_user_likes_def user_feed_def rev_filter flip: filter_sort)

lemma distinct_page_keys:
  assumes "db_inv d"
  shows "distinct (map page_key (user_feed user filt d))"
proof -
  have "distinct (map lk_id (user_rows user filt d))"
    using assms by (simp add: db_inv_def user_rows_def distinct_map_filter)
  then have "distinct (map page_key (user_rows user filt d))"
    by (auto simp: distinct_map inj_on_def page_key_def)
  moreover have "mset (user_feed user filt d) = mset (user_rows user filt d)"
    by (simp add: user_feed_def)
  ultimately show ?thesis by (metis mset_eq_imp_distinct_iff mset_map)
qed

lemma sorted_user_feed: "sorted (map page_key (rev (user_feed user filt d)))"
  by (simp add: user_feed_def)

lemma sql_user_likes_first: "sql_user_likes user filt None n d = take n (user_feed user filt d)"
  by (simp add: sql_user_likes_filter)

lemma sql_user_likes_after:
  assumes inv: "db_inv d" and feed: "user_feed user filt d = xs @ r # ys"
  shows "sql_user_likes user filt (Some (page_key r)) n d = take n ys"
proof -
  have "sorted (map page_key (rev ys @ r # rev xs))"
    using sorted_user_feed [of user filt d] feed by simp
  then have ys: "\<forall>y \<in> set ys. page_key y \<le> page_key r" and xs: "\<forall>y \<in> set xs. page_key r \<le> page_key y"
    by (auto simp: sorted_append)
  have "distinct (map page_key (xs @ r # ys))"
    using distinct_page_keys [OF inv, of user filt] feed by simp
  then have "page_key r \<notin> page_key ` set ys" by simp
  then have "page_key y < page_key r" if "y \<in> set ys" for y
    using ys that by (metis image_eqI order_le_imp_less_or_eq)
  then have "filter (\<lambda>y. page_key y < page_key r) (xs @ r # ys) = ys"
    using xs by (auto simp: filter_id_conv filter_empty_conv not_less)
  then show ?thesis by (simp add: sql_user_likes_filter feed)
qed

section \<open>Leaderboards\<close>

text \<open>What a top-\<open>n\<close> list promises: it is part of the rows, in descending order, as long as asked for,
  and no row that was left out counts more than one that is in it.\<close>

definition is_top :: "nat \<Rightarrow> (string \<times> uuid \<times> int) list \<Rightarrow> (string \<times> uuid \<times> int) list \<Rightarrow> bool" where
  "is_top n rows best \<longleftrightarrow>
     length best = min n (length rows) \<and> sorted (map (\<lambda>(_, _, m). - m) best)
     \<and> (\<exists>rest. mset rows = mset best + mset rest
          \<and> (\<forall>(_, _, m) \<in> set best. \<forall>(_, _, m') \<in> set rest. m' \<le> m))"

lemma top_rows_is_top:
  assumes "is_ordering p"
  shows "is_top n rows (top_rows p n rows)"
proof -
  let ?s = "sort_key (\<lambda>(_, _, m). - m) (permute_by p rows)"
  have m: "mset ?s = mset rows" using assms by (simp add: mset_permute_by)
  have len: "length ?s = length rows" using mset_eq_length [OF m] .
  have s: "sorted (map (\<lambda>(_, _, m). - m) (take n ?s @ drop n ?s))" by simp
  then have s': "sorted (map (\<lambda>(_, _, m). - m) (take n ?s))"
    "\<forall>a \<in> set (take n ?s). \<forall>b \<in> set (drop n ?s). (\<lambda>(_, _, m). - m) a \<le> (\<lambda>(_, _, m). - m) b"
    unfolding map_append sorted_append by auto
  have "mset rows = mset (take n ?s) + mset (drop n ?s)"
    using m by (metis append_take_drop_id mset_append)
  moreover have "\<forall>(_, _, m) \<in> set (take n ?s). \<forall>(_, _, m') \<in> set (drop n ?s). m' \<le> m"
    using s'(2) by fastforce
  ultimately show ?thesis
    using s'(1) len unfolding is_top_def top_rows_def by (auto simp: min_def)
qed

lemma board_rows_distinct:
  assumes "db_inv d"
  shows "distinct (map (\<lambda>(ct, cid, n). (ct, cid)) (board_rows filt since d))"
proof (cases since)
  case None
  have "distinct (map fst (filter P (like_counts d)))" for P
    using assms by (simp add: db_inv_def distinct_map_filter)
  moreover have "(\<lambda>(ct, cid, n). (ct, cid)) \<circ> (\<lambda>((ct, cid), n). (ct, cid, n))
      = (fst :: content_key \<times> int \<Rightarrow> content_key)"
    by auto
  ultimately show ?thesis using None by (simp add: board_rows_def)
next
  case (Some t)
  have "map (\<lambda>(ct, cid, n). (ct, cid)) (group_counts rs) = remdups (map like_content rs)" for rs
    by (simp add: group_counts_def o_def case_prod_unfold)
  with Some show ?thesis by (simp add: board_rows_def)
qed

text \<open>The all-time board shows the like counts, the windowed one the likes of the window.\<close>

lemma board_rows_counts:
  assumes "db_inv d" "(ct, cid, n) \<in> set (board_rows filt since d)"
  shows "n = int (length (filter (\<lambda>r. like_content r = (ct, cid) \<and>
           (case since of None \<Rightarrow> True | Some t \<Rightarrow> t \<le> lk_created r)) (likes d)))
       \<and> (case filt of None \<Rightarrow> True | Some f \<Rightarrow> ct = f)"
proof (cases since)
  case None
  then have "((ct, cid), n) \<in> set (like_counts d)" "case filt of None \<Rightarrow> True | Some f \<Rightarrow> ct = f"
    using assms(2) by (auto simp: board_rows_def)
  moreover have "sql_count (ct, cid) d = n"
    using calculation(1) assms(1) by (simp add: sql_count_def db_inv_def)
  ultimately show ?thesis
    using None db_inv_count [OF assms(1), of "(ct, cid)"] by (simp add: rows_of_def)
next
  case (Some t)
  let ?R = "filter (\<lambda>r. t \<le> lk_created r \<and> (case filt of None \<Rightarrow> True | Some f \<Rightarrow> lk_type r = f)) (likes d)"
  obtain r where r: "r \<in> set ?R" "like_content r = (ct, cid)"
    and n: "n = int (length (filter (\<lambda>r. like_content r = (ct, cid)) ?R))"
    using assms(2) Some by (auto simp: board_rows_def group_counts_def)
  have f: "case filt of None \<Rightarrow> True | Some f \<Rightarrow> ct = f"
    using r by (auto simp: like_content_def split: option.splits)
  then have "filter (\<lambda>r. like_content r = (ct, cid)) ?R =
      filter (\<lambda>r. like_content r = (ct, cid) \<and> t \<le> lk_created r) (likes d)"
    by (auto simp: like_content_def intro!: filter_cong split: option.splits)
  with n f Some show ?thesis by simp
qed

end
