(* ===== verification/World.thy ===== *)
theory World
  imports Tables
begin

text \<open>
  What the program calls and the repository does not hold: the in-process cache (moka), the Redis
  server behind its pool, the clocks, the HTTP and gRPC clients, and the faults of the database
  connection. Each is a field of the record \<open>ext\<close>, a function on an abstract state \<open>'w\<close> of the
  world outside; the definitions of the development take an \<open>ext\<close> as their argument and thread
  the \<open>'w\<close>. An \<open>Inl\<close> is a failure the client library reports.
\<close>

type_synonym zset = "(string \<times> rat) list"

datatype redis_value = RInt int | RArray "redis_value list" | ROther

datatype grpc_code =
    GOk | GInvalidArgument | GNotFound | GUnauthenticated | GResourceExhausted | GUnavailable
  | GInternal | GDeadlineExceeded | GFailedPrecondition | GUnimplemented | GCancelled | GUnknown
  | GAlreadyExists | GPermissionDenied | GAborted | GOutOfRange | GDataLoss

text \<open>An HTTP GET of the two clients with its timeout, the status and JSON body of a response (or the
  parse error), and the three outcomes of a gRPC call under \<open>tokio::time::timeout\<close>.\<close>

record http_request =
  hr_url :: string
  hr_bearer :: "string option"
  hr_timeout_secs :: nat

record http_response =
  hs_status :: nat
  hs_json :: "string + json_obj"

datatype 'a grpc_outcome = GrpcReply 'a | GrpcStatus grpc_code string | GrpcTimeout

text \<open>A server-side script runs atomically on the sorted set of its key, the members with their
  integer scores in score order. It returns its reply, the set it leaves, and the seconds of the
  \<open>EXPIRE\<close> it issued, if it did.\<close>

type_synonym script_effect =
  "(string \<times> int) list \<Rightarrow> redis_value \<times> (string \<times> int) list \<times> nat option"

text \<open>Of the database, whose tables are in \<open>Tables\<close>: \<open>db_fault\<close> makes a statement fail, \<open>db_commit\<close> a
  commit (with whether the server had applied it), \<open>db_others\<close> is what other connections commit
  meanwhile, \<open>db_now\<close> the server's clock, \<open>db_plan\<close> the row order of an unordered result.
  \<open>hash_order\<close> is the iteration order of a \<open>HashMap\<close> with a random seed. The two \<open>peer\<close> fields are the
  other requests this process is serving: whether one of them holds the fetch of a count, and what
  waiting for it delivers; the theory \<open>Coalescing\<close> models those requests and proves what they deliver.\<close>

record 'w ext =
  l1_get :: "string \<Rightarrow> 'w \<Rightarrow> string option \<times> 'w"
  l1_insert :: "string \<Rightarrow> string \<Rightarrow> 'w \<Rightarrow> 'w"
  l1_remove :: "string \<Rightarrow> 'w \<Rightarrow> 'w"
  l1_invalidate_if :: "(string \<Rightarrow> bool) \<Rightarrow> 'w \<Rightarrow> 'w"
  lz_get :: "string \<Rightarrow> 'w \<Rightarrow> zset option \<times> 'w"
  lz_insert :: "string \<Rightarrow> zset \<Rightarrow> 'w \<Rightarrow> 'w"
  lz_invalidate_if :: "(string \<Rightarrow> bool) \<Rightarrow> 'w \<Rightarrow> 'w"
  pool_get :: "'w \<Rightarrow> bool \<times> 'w"
  redis_get :: "string \<Rightarrow> 'w \<Rightarrow> (unit + string option) \<times> 'w"
  redis_setex :: "(string \<times> string \<times> nat) list \<Rightarrow> 'w \<Rightarrow> (unit + unit) \<times> 'w"
  redis_mget :: "string list \<Rightarrow> 'w \<Rightarrow> (unit + string option list) \<times> 'w"
  redis_del :: "string list \<Rightarrow> 'w \<Rightarrow> (unit + unit) \<times> 'w"
  redis_publish :: "string \<Rightarrow> string \<Rightarrow> 'w \<Rightarrow> (unit + unit) \<times> 'w"
  redis_del_zadd :: "string \<Rightarrow> zset \<Rightarrow> 'w \<Rightarrow> (unit + unit) \<times> 'w"
  redis_zrevrange :: "string \<Rightarrow> int \<Rightarrow> int \<Rightarrow> 'w \<Rightarrow> (unit + zset) \<times> 'w"
  redis_script :: "string \<Rightarrow> script_effect \<Rightarrow> 'w \<Rightarrow> (unit + redis_value) \<times> 'w"
  redis_ping :: "'w \<Rightarrow> bool \<times> 'w"
  utc_now :: "'w \<Rightarrow> datetime \<times> 'w"
  unix_millis :: "'w \<Rightarrow> nat \<times> 'w"
  instant_now :: "'w \<Rightarrow> instant \<times> 'w"
  http_send :: "http_request \<Rightarrow> 'w \<Rightarrow> (string + http_response) \<times> 'w"
  grpc_content_validate :: "string \<Rightarrow> string \<Rightarrow> nat \<Rightarrow> 'w \<Rightarrow> bool grpc_outcome \<times> 'w"
  grpc_token_validate :: "string \<Rightarrow> nat \<Rightarrow> 'w \<Rightarrow> (bool \<times> string \<times> string) grpc_outcome \<times> 'w"
  db_fault :: "'w \<Rightarrow> string option \<times> 'w"
  db_commit :: "'w \<Rightarrow> (string \<times> bool) option \<times> 'w"
  db_others :: "'w \<Rightarrow> (db \<Rightarrow> db) \<times> 'w"
  db_now :: "'w \<Rightarrow> datetime \<times> 'w"
  db_plan :: "'w \<Rightarrow> (nat \<Rightarrow> nat list) \<times> 'w"
  hash_order :: "'w \<Rightarrow> (nat \<Rightarrow> nat list) \<times> 'w"
  peer_fetching :: "string \<Rightarrow> 'w \<Rightarrow> bool \<times> 'w"
  peer_count :: "string \<Rightarrow> 'w \<Rightarrow> int option \<times> 'w"

end
