(* ===== verification/Cache.thy ===== *)
theory Cache
  imports World
begin

text \<open>
  \<open>social-api/src/cache.rs\<close>: the \<open>CacheManager\<close>, an in-process cache (L1) in front of Redis.
  Every method of it is a function on the outside world; a Redis error is a miss or is dropped,
  never an error of the caller. The last section is the interface the services use, as a locale:
  whatever holds of every entry written holds of every value read back.
\<close>

section \<open>Strings\<close>

definition cm_get :: "'w ext \<Rightarrow> string \<Rightarrow> 'w \<Rightarrow> string option \<times> 'w" where
  "cm_get x key w =
     (case l1_get x key w of
        (Some val, w) \<Rightarrow> (Some val, w)
      | (None, w) \<Rightarrow>
          (case pool_get x w of
             (False, w) \<Rightarrow> (None, w)
           | (True, w) \<Rightarrow>
               (case redis_get x key w of
                  (Inr (Some val), w) \<Rightarrow> (Some val, l1_insert x key val w)
                | (Inr None, w) \<Rightarrow> (None, w)
                | (Inl _, w) \<Rightarrow> (None, w))))"

definition cm_set :: "'w ext \<Rightarrow> string \<Rightarrow> string \<Rightarrow> nat \<Rightarrow> 'w \<Rightarrow> 'w" where
  "cm_set x key val ttl w =
     (case pool_get x (l1_insert x key val w) of
        (False, w) \<Rightarrow> w
      | (True, w) \<Rightarrow> snd (redis_setex x [(key, val, ttl)] w))"

text \<open>The loop that fills L1, in the order of the entries.\<close>

fun l1_insert_all :: "'w ext \<Rightarrow> (string \<times> string \<times> nat) list \<Rightarrow> 'w \<Rightarrow> 'w" where
  "l1_insert_all x [] w = w"
| "l1_insert_all x ((key, val, ttl) # es) w = l1_insert_all x es (l1_insert x key val w)"

definition cm_set_many :: "'w ext \<Rightarrow> (string \<times> string \<times> nat) list \<Rightarrow> 'w \<Rightarrow> 'w" where
  "cm_set_many x entries w =
     (if entries = [] then w
      else (case pool_get x (l1_insert_all x entries w) of
          (False, w) \<Rightarrow> w
        | (True, w) \<Rightarrow> snd (redis_setex x entries w)))"

definition cm_del :: "'w ext \<Rightarrow> string \<Rightarrow> 'w \<Rightarrow> 'w" where
  "cm_del x key w =
     (case pool_get x (l1_remove x key w) of
        (False, w) \<Rightarrow> w
      | (True, w) \<Rightarrow> snd (redis_del x [key] w))"

text \<open>Phase 1 of \<open>mget\<close>: the L1 results, and the keys still needed with their positions.\<close>

fun mget_l1 ::
  "'w ext \<Rightarrow> nat \<Rightarrow> string list \<Rightarrow> 'w \<Rightarrow> string option list \<times> (nat \<times> string) list \<times> 'w" where
  "mget_l1 x idx [] w = ([], [], w)"
| "mget_l1 x idx (key # keys) w =
     (case l1_get x key w of
        (Some val, w) \<Rightarrow>
          (case mget_l1 x (Suc idx) keys w of (rs, need, w) \<Rightarrow> (Some val # rs, need, w))
      | (None, w) \<Rightarrow>
          (case mget_l1 x (Suc idx) keys w of (rs, need, w) \<Rightarrow> (None # rs, (idx, key) # need, w)))"

text \<open>Phase 2: the values Redis returned, put in their places and into L1. The code indexes
  \<open>redis_needed[i]\<close>, which panics (aborting the process) if Redis returns more values than keys;
  the model stops there.\<close>

fun mget_fill ::
  "'w ext \<Rightarrow> (nat \<times> string) list \<Rightarrow> string option list \<Rightarrow> string option list \<Rightarrow> 'w
     \<Rightarrow> string option list \<times> 'w" where
  "mget_fill x ((i, key) # need) (v # vs) rs w =
     mget_fill x need vs (rs[i := v])
       (case v of Some s \<Rightarrow> l1_insert x key s w | None \<Rightarrow> w)"
| "mget_fill x _ _ rs w = (rs, w)"

definition cm_mget :: "'w ext \<Rightarrow> string list \<Rightarrow> 'w \<Rightarrow> string option list \<times> 'w" where
  "cm_mget x keys w =
     (if keys = [] then ([], w)
      else (case mget_l1 x 0 keys w of (results, redis_needed, w) \<Rightarrow>
        if redis_needed = [] then (results, w)
        else (case pool_get x w of
            (False, w) \<Rightarrow> (results, w)
          | (True, w) \<Rightarrow>
              (case redis_mget x (map snd redis_needed) w of
                 (Inr vals, w) \<Rightarrow> mget_fill x redis_needed vals results w
               | (Inl _, w) \<Rightarrow> (results, w)))))"

definition cm_publish :: "'w ext \<Rightarrow> string \<Rightarrow> string \<Rightarrow> 'w \<Rightarrow> 'w" where
  "cm_publish x channel msg w =
     (case pool_get x w of
        (False, w) \<Rightarrow> w
      | (True, w) \<Rightarrow> snd (redis_publish x channel msg w))"

definition cm_invoke_script ::
  "'w ext \<Rightarrow> string \<Rightarrow> script_effect \<Rightarrow> 'w \<Rightarrow> redis_value option \<times> 'w" where
  "cm_invoke_script x key script w =
     (case pool_get x w of
        (False, w) \<Rightarrow> (None, w)
      | (True, w) \<Rightarrow>
          (case redis_script x key script w of
             (Inr v, w) \<Rightarrow> (Some v, w)
           | (Inl _, w) \<Rightarrow> (None, w)))"

section \<open>Sorted sets\<close>

definition cm_replace_sorted_set :: "'w ext \<Rightarrow> string \<Rightarrow> zset \<Rightarrow> 'w \<Rightarrow> 'w" where
  "cm_replace_sorted_set x key members w =
     (case pool_get x (lz_invalidate_if x (\<lambda>k. str_starts_with k (key @ '':'')) w) of
        (False, w) \<Rightarrow> w
      | (True, w) \<Rightarrow> snd (redis_del_zadd x key members w))"

definition cm_zrevrange :: "'w ext \<Rightarrow> string \<Rightarrow> int \<Rightarrow> int \<Rightarrow> 'w \<Rightarrow> zset \<times> 'w" where
  "cm_zrevrange x key start stop w =
     (let l1_key = key @ '':'' @ show_int start @ '':'' @ show_int stop in
      case lz_get x l1_key w of
        (Some cached, w) \<Rightarrow> (cached, w)
      | (None, w) \<Rightarrow>
          (case pool_get x w of
             (False, w) \<Rightarrow> ([], w)
           | (True, w) \<Rightarrow>
               (case redis_zrevrange x key start stop w of
                  (Inr pairs, w) \<Rightarrow>
                    (pairs, if pairs \<noteq> [] then lz_insert x l1_key pairs w else w)
                | (Inl _, w) \<Rightarrow> ([], w))))"

fun l1_drop_all :: "'w ext \<Rightarrow> string list \<Rightarrow> 'w \<Rightarrow> 'w" where
  "l1_drop_all x [] w = w"
| "l1_drop_all x (key # keys) w =
     l1_drop_all x keys
       (lz_invalidate_if x (\<lambda>k. str_starts_with k (key @ '':'')) (l1_remove x key w))"

definition cm_del_many :: "'w ext \<Rightarrow> string list \<Rightarrow> 'w \<Rightarrow> 'w" where
  "cm_del_many x keys w =
     (if keys = [] then w
      else (case pool_get x (l1_drop_all x keys w) of
          (False, w) \<Rightarrow> w
        | (True, w) \<Rightarrow> snd (redis_del x keys w)))"

definition cm_invalidate_l1_prefix :: "'w ext \<Rightarrow> string \<Rightarrow> 'w \<Rightarrow> 'w" where
  "cm_invalidate_l1_prefix x pre w = l1_invalidate_if x (\<lambda>k. str_starts_with k pre) w"

definition cm_is_healthy :: "'w ext \<Rightarrow> 'w \<Rightarrow> bool \<times> 'w" where
  "cm_is_healthy x w =
     (case pool_get x w of
        (False, w) \<Rightarrow> (False, w)
      | (True, w) \<Rightarrow> redis_ping x w)"

section \<open>What the cache may return\<close>

text \<open>The contract of the two stores, stated over a relation \<open>H w k v\<close>: in world \<open>w\<close> a read of key
  \<open>k\<close> may return \<open>v\<close>. Reads return only such values, \<open>MGET\<close> answers key by key, writes add only
  what was written, and nothing else adds entries. Expiry, eviction, lost writes and failures are
  all allowed; other replicas are allowed whatever \<open>H\<close> already grants.\<close>

definition shrinks :: "('w \<Rightarrow> 'k \<Rightarrow> 'v \<Rightarrow> bool) \<Rightarrow> 'w \<Rightarrow> 'w \<Rightarrow> bool" where
  "shrinks H w w' \<longleftrightarrow> (\<forall>k v. H w' k v \<longrightarrow> H w k v)"

definition adds_only ::
  "('w \<Rightarrow> 'k \<Rightarrow> 'v \<Rightarrow> bool) \<Rightarrow> ('k \<times> 'v) set \<Rightarrow> 'w \<Rightarrow> 'w \<Rightarrow> bool" where
  "adds_only H E w w' \<longleftrightarrow> (\<forall>k v. H w' k v \<longrightarrow> H w k v \<or> (k, v) \<in> E)"

definition store_ok :: "'w ext \<Rightarrow> ('w \<Rightarrow> string \<Rightarrow> string \<Rightarrow> bool) \<Rightarrow> bool" where
  "store_ok x H \<longleftrightarrow>
     (\<forall>k w. shrinks H w (snd (l1_get x k w)) \<and> (\<forall>v. fst (l1_get x k w) = Some v \<longrightarrow> H w k v)) \<and>
     (\<forall>k v w. adds_only H {(k, v)} w (l1_insert x k v w)) \<and>
     (\<forall>k w. shrinks H w (l1_remove x k w)) \<and>
     (\<forall>p w. shrinks H w (l1_invalidate_if x p w)) \<and>
     (\<forall>k w. shrinks H w (snd (lz_get x k w))) \<and>
     (\<forall>k z w. shrinks H w (lz_insert x k z w)) \<and>
     (\<forall>p w. shrinks H w (lz_invalidate_if x p w)) \<and>
     (\<forall>w. shrinks H w (snd (pool_get x w))) \<and>
     (\<forall>k w. shrinks H w (snd (redis_get x k w))
        \<and> (\<forall>v. fst (redis_get x k w) = Inr (Some v) \<longrightarrow> H w k v)) \<and>
     (\<forall>es w. adds_only H ((\<lambda>(k, v, t). (k, v)) ` set es) w (snd (redis_setex x es w))) \<and>
     (\<forall>ks w. shrinks H w (snd (redis_mget x ks w))
        \<and> (\<forall>vs. fst (redis_mget x ks w) = Inr vs \<longrightarrow>
              list_all2 (\<lambda>k r. \<forall>v. r = Some v \<longrightarrow> H w k v) ks vs)) \<and>
     (\<forall>ks w. shrinks H w (snd (redis_del x ks w))) \<and>
     (\<forall>c m w. shrinks H w (snd (redis_publish x c m w))) \<and>
     (\<forall>k z w. shrinks H w (snd (redis_del_zadd x k z w))) \<and>
     (\<forall>k a b w. shrinks H w (snd (redis_zrevrange x k a b w))) \<and>
     (\<forall>k f w. shrinks H w (snd (redis_script x k f w))) \<and>
     (\<forall>w. shrinks H w (snd (redis_ping x w))) \<and>
     (\<forall>w. shrinks H w (snd (utc_now x w))) \<and>
     (\<forall>w. shrinks H w (snd (unix_millis x w))) \<and>
     (\<forall>w. shrinks H w (snd (instant_now x w))) \<and>
     (\<forall>r w. shrinks H w (snd (http_send x r w))) \<and>
     (\<forall>a b t w. shrinks H w (snd (grpc_content_validate x a b t w))) \<and>
     (\<forall>a t w. shrinks H w (snd (grpc_token_validate x a t w))) \<and>
     (\<forall>w. shrinks H w (snd (hash_order x w))) \<and>
     (\<forall>k w. shrinks H w (snd (peer_fetching x k w))) \<and>
     (\<forall>k w. shrinks H w (snd (peer_count x k w))) \<and>
     (\<forall>w. shrinks H w (snd (db_fault x w))) \<and>
     (\<forall>w. shrinks H w (snd (db_commit x w))) \<and>
     (\<forall>w. shrinks H w (snd (db_others x w))) \<and>
     (\<forall>w. shrinks H w (snd (db_now x w))) \<and>
     (\<forall>w. shrinks H w (snd (db_plan x w)))"

text \<open>Every entry that may be read satisfies \<open>P\<close>.\<close>

definition entries :: "('w \<Rightarrow> 'k \<Rightarrow> 'v \<Rightarrow> bool) \<Rightarrow> ('k \<Rightarrow> 'v \<Rightarrow> bool) \<Rightarrow> 'w \<Rightarrow> bool" where
  "entries H P w \<longleftrightarrow> (\<forall>k v. H w k v \<longrightarrow> P k v)"

lemma entries_shrinks: "shrinks H w w' \<Longrightarrow> entries H P w \<Longrightarrow> entries H P w'"
  by (auto simp: shrinks_def entries_def)

lemma entries_adds:
  "adds_only H E w w' \<Longrightarrow> (\<And>k v. (k, v) \<in> E \<Longrightarrow> P k v) \<Longrightarrow> entries H P w \<Longrightarrow> entries H P w'"
  unfolding adds_only_def entries_def by blast

lemma adds_only_entries: "adds_only H E w w' \<longleftrightarrow> entries H (\<lambda>k v. H w k v \<or> (k, v) \<in> E) w'"
  by (simp add: adds_only_def entries_def)

lemma shrinks_refl [simp]: "shrinks H w w"
  by (simp add: shrinks_def)

lemma shrinks_adds: "shrinks H w w' \<Longrightarrow> adds_only H E w w'"
  by (auto simp: shrinks_def adds_only_def)

lemma adds_trans:
  "adds_only H E w w' \<Longrightarrow> adds_only H E w' w'' \<Longrightarrow> adds_only H E w w''"
  by (auto simp: adds_only_def)

lemma adds_mono: "adds_only H E w w' \<Longrightarrow> E \<subseteq> F \<Longrightarrow> adds_only H F w w'"
  by (auto simp: adds_only_def)

text \<open>The contract, operation by operation, in the form the proofs use: the equation of a call on the
  left, what it gives on the right.\<close>

lemma store_reads:
  assumes "store_ok x H"
  shows "l1_get x k w = (Some v, w') \<Longrightarrow> H w k v"
    and "redis_get x k w = (Inr (Some v), w') \<Longrightarrow> H w k v"
    and "redis_mget x ks w = (Inr vs, w') \<Longrightarrow> list_all2 (\<lambda>k r. \<forall>v. r = Some v \<longrightarrow> H w k v) ks vs"
proof -
  show "l1_get x k w = (Some v, w') \<Longrightarrow> H w k v"
    using assms by (simp add: store_ok_def)
  show "redis_get x k w = (Inr (Some v), w') \<Longrightarrow> H w k v"
    using assms by (simp add: store_ok_def)
  have "fst (redis_mget x ks w) = Inr vs \<Longrightarrow> list_all2 (\<lambda>k r. \<forall>v. r = Some v \<longrightarrow> H w k v) ks vs"
    using assms by (simp add: store_ok_def)
  then show "redis_mget x ks w = (Inr vs, w') \<Longrightarrow> list_all2 (\<lambda>k r. \<forall>v. r = Some v \<longrightarrow> H w k v) ks vs"
    by simp
qed

lemma store_writes:
  assumes "store_ok x H"
  shows "adds_only H {(k, v)} w (l1_insert x k v w)"
    and "adds_only H ((\<lambda>(k, v, t). (k, v)) ` set es) w (snd (redis_setex x es w))"
  using assms by (simp_all add: store_ok_def)

lemma store_snd:
  assumes "store_ok x H"
  shows "shrinks H w (snd (l1_get x k w))"
    and "shrinks H w (snd (redis_get x k w))"
    and "shrinks H w (snd (redis_mget x ks w))"
    and "shrinks H w (snd (lz_get x k w))"
    and "shrinks H w (snd (pool_get x w))"
    and "shrinks H w (snd (redis_del x ks w))"
    and "shrinks H w (snd (redis_publish x c msg w))"
    and "shrinks H w (snd (redis_del_zadd x k z w))"
    and "shrinks H w (snd (redis_zrevrange x k i j w))"
    and "shrinks H w (snd (redis_script x k f w))"
    and "shrinks H w (snd (redis_ping x w))"
    and "shrinks H w (snd (utc_now x w))"
    and "shrinks H w (snd (unix_millis x w))"
    and "shrinks H w (snd (instant_now x w))"
    and "shrinks H w (snd (http_send x rq w))"
    and "shrinks H w (snd (grpc_content_validate x a1 a2 n w))"
    and "shrinks H w (snd (grpc_token_validate x a1 n w))"
    and "shrinks H w (snd (db_fault x w))"
    and "shrinks H w (snd (db_commit x w))"
    and "shrinks H w (snd (db_others x w))"
    and "shrinks H w (snd (db_now x w))"
    and "shrinks H w (snd (db_plan x w))"
    and "shrinks H w (snd (hash_order x w))"
    and "shrinks H w (snd (peer_fetching x k w))"
    and "shrinks H w (snd (peer_count x k w))"
  using assms by (simp_all add: store_ok_def)

lemma shrinks_pair: "shrinks H w (snd p) \<Longrightarrow> p = (a, w') \<Longrightarrow> shrinks H w w'"
  by simp

lemmas store_shrinks = store_snd [THEN shrinks_pair]

lemma store_direct:
  assumes "store_ok x H"
  shows "shrinks H w (l1_remove x k w)"
    and "shrinks H w (l1_invalidate_if x p w)"
    and "shrinks H w (lz_insert x k z w)"
    and "shrinks H w (lz_invalidate_if x p w)"
  using assms by (simp_all add: store_ok_def)

lemma shrinks_trans [trans]: "shrinks H w w' \<Longrightarrow> shrinks H w' w'' \<Longrightarrow> shrinks H w w''"
  by (simp add: shrinks_def)

lemma adds_after: "shrinks H w w' \<Longrightarrow> adds_only H E w' w'' \<Longrightarrow> adds_only H E w w''"
  by (auto simp: shrinks_def adds_only_def)

lemma adds_before: "adds_only H E w w' \<Longrightarrow> shrinks H w' w'' \<Longrightarrow> adds_only H E w w''"
  by (auto simp: shrinks_def adds_only_def)

lemma adds_known: "adds_only H E w' w'' \<Longrightarrow> shrinks H w w' \<Longrightarrow> (\<And>k v. (k, v) \<in> E \<Longrightarrow> H w k v)
   \<Longrightarrow> shrinks H w w''"
  unfolding shrinks_def adds_only_def by blast

lemma shrinksD: "shrinks H w w' \<Longrightarrow> H w' k v \<Longrightarrow> H w k v"
  by (simp add: shrinks_def)

lemma cm_get_sound:
  assumes ok: "store_ok x H" and run: "cm_get x key w = (r, w')"
  shows "shrinks H w w' \<and> (\<forall>v. r = Some v \<longrightarrow> H w key v)"
proof -
  obtain r1 w1 where 1: "l1_get x key w = (r1, w1)" by fastforce
  obtain b w2 where 2: "pool_get x w1 = (b, w2)" by fastforce
  obtain q w3 where 3: "redis_get x key w2 = (q, w3)" by fastforce
  note s1 = store_shrinks(1) [OF ok 1] and s2 = store_shrinks(5) [OF ok 2]
    and s3 = store_shrinks(2) [OF ok 3]
  have hit: "H w key v" if "q = Inr (Some v)" for v
    using store_reads(2) [OF ok 3 [unfolded that]] s1 s2 by (auto dest: shrinksD)
  have fill: "shrinks H w (l1_insert x key v w3)" if "q = Inr (Some v)" for v
    using adds_known [OF store_writes(1) [OF ok, of key v w3], of w] hit [OF that]
      shrinks_trans [OF s1 shrinks_trans [OF s2 s3]] by simp
  show ?thesis
    using run 1 2 3 s1 shrinks_trans [OF s1 s2] shrinks_trans [OF s1 shrinks_trans [OF s2 s3]]
      hit fill store_reads(1) [OF ok, of key w]
    by (auto simp: cm_get_def split: option.splits bool.splits sum.splits)
qed

lemma l1_insert_all_adds:
  assumes "store_ok x H"
  shows "adds_only H ((\<lambda>(k, v, t). (k, v)) ` set es) w (l1_insert_all x es w)"
proof (induction es arbitrary: w)
  case Nil
  then show ?case by (simp add: adds_only_def)
next
  case (Cons e es)
  obtain k v t where e: "e = (k, v, t)" by (cases e) auto
  show ?case
    using Cons [of "l1_insert x k v w"] store_writes(1) [OF assms, of k v w] e
    by (auto simp: adds_only_def)
qed

lemma cm_set_many_adds:
  assumes ok: "store_ok x H"
  shows "adds_only H ((\<lambda>(k, v, t). (k, v)) ` set es) w (cm_set_many x es w)"
proof (cases "es = []")
  case True
  then show ?thesis by (simp add: cm_set_many_def adds_only_def)
next
  case False
  let ?E = "(\<lambda>(k, v, t). (k, v)) ` set es"
  obtain b w1 where p: "pool_get x (l1_insert_all x es w) = (b, w1)" by fastforce
  have "adds_only H ?E w w1"
    using adds_before [OF l1_insert_all_adds [OF ok] store_shrinks(5) [OF ok p]] .
  then show ?thesis
    using False p adds_trans [OF _ store_writes(2) [OF ok, of es w1]]
    by (cases b) (simp_all add: cm_set_many_def)
qed

lemma cm_set_adds:
  assumes ok: "store_ok x H"
  shows "adds_only H {(k, v)} w (cm_set x k v ttl w)"
  using cm_set_many_adds [OF ok, of "[(k, v, ttl)]" w] by (simp add: cm_set_many_def cm_set_def)

lemma mget_l1_sound:
  assumes ok: "store_ok x H"
  shows "mget_l1 x i keys w = (rs, need, w') \<Longrightarrow>
     shrinks H w w' \<and> length rs = length keys
     \<and> list_all2 (\<lambda>k r. \<forall>v. r = Some v \<longrightarrow> H w k v) keys rs
     \<and> (\<forall>(j, k) \<in> set need. i \<le> j \<and> j - i < length keys \<and> keys ! (j - i) = k)"
proof (induction keys arbitrary: i w rs need w')
  case Nil
  then show ?case by simp
next
  case (Cons key keys)
  obtain r1 w1 where 1: "l1_get x key w = (r1, w1)" by fastforce
  obtain rs1 need1 w2 where 2: "mget_l1 x (Suc i) keys w1 = (rs1, need1, w2)" by (metis prod_cases3)
  note ih = Cons.IH [OF 2] and s1 = store_shrinks(1) [OF ok 1]
  have "list_all2 (\<lambda>k r. \<forall>v. r = Some v \<longrightarrow> H w k v) keys rs1"
    using ih s1 by (auto elim!: list_all2_mono dest: shrinksD)
  moreover have "\<forall>(j, k) \<in> set need1. i \<le> j \<and> j - i < length (key # keys) \<and> (key # keys) ! (j - i) = k"
    using ih by (fastforce simp: nth_Cons' Suc_diff_le)
  moreover have "shrinks H w w2" using ih s1 by (auto intro: shrinks_trans)
  ultimately show ?case
    using Cons.prems 1 2 ih store_reads(1) [OF ok, of key w]
    by (auto split: option.splits)
qed

lemma insert_known:
  "store_ok x H \<Longrightarrow> shrinks H w0 w \<Longrightarrow> H w0 k v \<Longrightarrow> shrinks H w0 (l1_insert x k v w)"
  by (rule adds_known [OF store_writes(1)]) auto

lemma mget_fill_sound:
  shows "mget_fill x need vs rs w = (rs', w') \<Longrightarrow> store_ok x H \<Longrightarrow>
     list_all2 (\<lambda>k r. \<forall>v. r = Some v \<longrightarrow> H w0 k v) (map snd need) vs \<Longrightarrow>
     list_all2 (\<lambda>k r. \<forall>v. r = Some v \<longrightarrow> H w0 k v) keys rs \<Longrightarrow>
     \<forall>(j, k) \<in> set need. j < length keys \<and> keys ! j = k \<Longrightarrow> shrinks H w0 w \<Longrightarrow>
     shrinks H w0 w' \<and> list_all2 (\<lambda>k r. \<forall>v. r = Some v \<longrightarrow> H w0 k v) keys rs'"
proof (induction x need vs rs w rule: mget_fill.induct)
  case (1 x i key need v vs rs w)
  let ?w = "case v of Some s \<Rightarrow> l1_insert x key s w | None \<Rightarrow> w"
  have "list_all2 (\<lambda>k r. \<forall>v. r = Some v \<longrightarrow> H w0 k v) keys (rs[i := v])"
    using 1(4-6) by (auto simp: list_all2_conv_all_nth nth_list_update)
  moreover have "shrinks H w0 ?w"
    using 1(3,4,7) insert_known by (auto split: option.splits)
  ultimately show ?case using 1 by simp
qed simp_all

lemma cm_mget_sound:
  assumes ok: "store_ok x H" and run: "cm_mget x keys w = (rs, w')"
  shows "shrinks H w w' \<and> list_all2 (\<lambda>k r. \<forall>v. r = Some v \<longrightarrow> H w k v) keys rs"
proof (cases "keys = []")
  case True
  then show ?thesis using run by (simp add: cm_mget_def)
next
  case False
  obtain rs1 need w1 where 1: "mget_l1 x 0 keys w = (rs1, need, w1)" by (metis prod_cases3)
  obtain b w2 where 2: "pool_get x w1 = (b, w2)" by fastforce
  obtain m w3 where 3: "redis_mget x (map snd need) w2 = (m, w3)" by fastforce
  note l1 = mget_l1_sound [OF ok 1]
  have s12: "shrinks H w w2" using l1 store_shrinks(5) [OF ok 2] by (auto intro: shrinks_trans)
  have s3: "shrinks H w w3" using s12 store_shrinks(3) [OF ok 3] by (rule shrinks_trans)
  have fill: "shrinks H w w'' \<and> list_all2 (\<lambda>k r. \<forall>v. r = Some v \<longrightarrow> H w k v) keys rs''"
    if m: "m = Inr vs" and f: "mget_fill x need vs rs1 w3 = (rs'', w'')" for vs rs'' w''
  proof (rule mget_fill_sound [OF f ok _ _ _ s3])
    show "list_all2 (\<lambda>k r. \<forall>v. r = Some v \<longrightarrow> H w k v) (map snd need) vs"
      using store_reads(3) [OF ok 3 [unfolded m]] s12
      by (auto elim!: list_all2_mono dest: shrinksD)
  qed (use l1 in auto)
  show ?thesis
    using run False 1 2 3 l1 s12 s3 fill
    by (auto simp: cm_mget_def split: if_splits bool.splits sum.splits)
qed

lemma cm_mget_length: "store_ok x H \<Longrightarrow> cm_mget x keys w = (rs, w') \<Longrightarrow> length rs = length keys"
  using cm_mget_sound [of x H keys w rs w'] by (auto dest: list_all2_lengthD)

lemma pool_then:
  assumes "store_ok x H" "shrinks H w w0" "\<And>w1. shrinks H w w1 \<Longrightarrow> shrinks H w (f w1)"
  shows "shrinks H w (case pool_get x w0 of (False, w1) \<Rightarrow> w1 | (True, w1) \<Rightarrow> f w1)"
proof -
  obtain b w1 where p: "pool_get x w0 = (b, w1)" by fastforce
  have "shrinks H w w1" using assms(2) store_shrinks(5) [OF assms(1) p] by (rule shrinks_trans)
  with p assms(3) show ?thesis by (cases b) auto
qed

lemma cm_del_shrinks: "store_ok x H \<Longrightarrow> shrinks H w (cm_del x k w)"
  unfolding cm_del_def by (rule pool_then) (auto intro: store_direct shrinks_trans [OF _ store_snd(6)])

lemma l1_drop_all_shrinks: "store_ok x H \<Longrightarrow> shrinks H w (l1_drop_all x ks w)"
proof (induction ks arbitrary: w)
  case (Cons k ks)
  have "shrinks H w (lz_invalidate_if x (\<lambda>y. str_starts_with y (k @ '':'')) (l1_remove x k w))"
    by (rule shrinks_trans [OF store_direct(1) [OF Cons.prems] store_direct(4) [OF Cons.prems]])
  from shrinks_trans [OF this Cons.IH [OF Cons.prems]] show ?case by simp
qed simp

lemma cm_del_many_shrinks: "store_ok x H \<Longrightarrow> shrinks H w (cm_del_many x ks w)"
  unfolding cm_del_many_def
  by (simp, intro impI, rule pool_then)
    (auto intro: l1_drop_all_shrinks shrinks_trans [OF _ store_snd(6)])

lemma cm_publish_shrinks: "store_ok x H \<Longrightarrow> shrinks H w (cm_publish x c msg w)"
  unfolding cm_publish_def by (rule pool_then) (auto intro: shrinks_trans [OF _ store_snd(7)])

lemma cm_replace_sorted_set_shrinks:
  "store_ok x H \<Longrightarrow> shrinks H w (cm_replace_sorted_set x k z w)"
  unfolding cm_replace_sorted_set_def
  by (rule pool_then) (auto intro: store_direct shrinks_trans [OF _ store_snd(8)])

lemma cm_invalidate_shrinks: "store_ok x H \<Longrightarrow> shrinks H w (cm_invalidate_l1_prefix x p w)"
  by (simp add: cm_invalidate_l1_prefix_def store_direct(2))

lemma cm_invoke_script_shrinks:
  assumes ok: "store_ok x H" and run: "cm_invoke_script x k f w = (r, w')"
  shows "shrinks H w w'"
proof -
  obtain b w1 where 1: "pool_get x w = (b, w1)" by fastforce
  obtain q w2 where 2: "redis_script x k f w1 = (q, w2)" by fastforce
  note s = store_shrinks(5) [OF ok 1] store_shrinks(10) [OF ok 2]
  show ?thesis using run 1 2 s shrinks_trans [OF s]
    by (auto simp: cm_invoke_script_def split: bool.splits sum.splits)
qed

lemma cm_zrevrange_shrinks:
  assumes ok: "store_ok x H" and run: "cm_zrevrange x k i j w = (r, w')"
  shows "shrinks H w w'"
proof -
  let ?k = "k @ '':'' @ show_int i @ '':'' @ show_int j"
  obtain c w1 where 1: "lz_get x ?k w = (c, w1)" by fastforce
  obtain b w2 where 2: "pool_get x w1 = (b, w2)" by fastforce
  obtain q w3 where 3: "redis_zrevrange x k i j w2 = (q, w3)" by fastforce
  note s = store_shrinks(4) [OF ok 1] store_shrinks(5) [OF ok 2] store_shrinks(9) [OF ok 3]
  show ?thesis
    using run 1 2 3 s shrinks_trans [OF s(1,2)] shrinks_trans [OF s(1) shrinks_trans [OF s(2,3)]]
      shrinks_trans [OF _ store_direct(3) [OF ok]]
    by (auto simp: cm_zrevrange_def Let_def split: option.splits bool.splits sum.splits if_splits)
qed

lemma cm_is_healthy_shrinks:
  assumes ok: "store_ok x H" and run: "cm_is_healthy x w = (b, w')"
  shows "shrinks H w w'"
proof -
  obtain c w1 where 1: "pool_get x w = (c, w1)" by fastforce
  obtain q w2 where 2: "redis_ping x w1 = (q, w2)" by fastforce
  note s = store_shrinks(5) [OF ok 1] store_shrinks(11) [OF ok 2]
  show ?thesis using run 1 2 s shrinks_trans [OF s]
    by (auto simp: cm_is_healthy_def split: bool.splits)
qed

section \<open>The interface of the services\<close>

text \<open>What a client of the cache may rely on, whatever the cache is made of: it reads only what may be
  read, answers \<open>MGET\<close> key by key, and adds what it is told to add.\<close>

locale cache_api =
  fixes get :: "'x \<Rightarrow> string \<Rightarrow> 'w \<Rightarrow> string option \<times> 'w"
    and mget :: "'x \<Rightarrow> string list \<Rightarrow> 'w \<Rightarrow> string option list \<times> 'w"
    and put :: "'x \<Rightarrow> string \<Rightarrow> string \<Rightarrow> nat \<Rightarrow> 'w \<Rightarrow> 'w"
    and put_many :: "'x \<Rightarrow> (string \<times> string \<times> nat) list \<Rightarrow> 'w \<Rightarrow> 'w"
    and del_many :: "'x \<Rightarrow> string list \<Rightarrow> 'w \<Rightarrow> 'w"
    and ok :: "'x \<Rightarrow> ('w \<Rightarrow> string \<Rightarrow> string \<Rightarrow> bool) \<Rightarrow> bool"
  assumes get_law: "ok x H \<Longrightarrow> get x k w = (r, w') \<Longrightarrow>
      shrinks H w w' \<and> (\<forall>v. r = Some v \<longrightarrow> H w k v)"
    and mget_law: "ok x H \<Longrightarrow> mget x ks w = (rs, w') \<Longrightarrow>
      shrinks H w w' \<and> list_all2 (\<lambda>k r. \<forall>v. r = Some v \<longrightarrow> H w k v) ks rs"
    and put_law: "ok x H \<Longrightarrow> adds_only H {(k, v)} w (put x k v t w)"
    and put_many_law: "ok x H \<Longrightarrow> adds_only H ((\<lambda>(k, v, t). (k, v)) ` set es) w (put_many x es w)"
    and del_many_law: "ok x H \<Longrightarrow> shrinks H w (del_many x ks w)"
begin

lemma get_entry:
  "ok x H \<Longrightarrow> entries H P w \<Longrightarrow> get x k w = (r, w') \<Longrightarrow>
   entries H P w' \<and> (\<forall>v. r = Some v \<longrightarrow> P k v)"
  using get_law [of x H k w r w'] by (auto simp: entries_def dest: shrinksD)

lemma mget_entries:
  assumes "ok x H" "entries H P w" "mget x ks w = (rs, w')"
  shows "entries H P w' \<and> list_all2 (\<lambda>k r. \<forall>v. r = Some v \<longrightarrow> P k v) ks rs"
proof -
  have "shrinks H w w'" "list_all2 (\<lambda>k r. \<forall>v. r = Some v \<longrightarrow> H w k v) ks rs"
    using mget_law [OF assms(1,3)] by auto
  then show ?thesis using assms(2)
    by (auto simp: entries_def dest: shrinksD elim!: list_all2_mono)
qed

lemma put_entry: "ok x H \<Longrightarrow> entries H P w \<Longrightarrow> P k v \<Longrightarrow> entries H P (put x k v t w)"
  by (rule entries_adds [OF put_law]) auto

lemma put_many_entries:
  "ok x H \<Longrightarrow> entries H P w \<Longrightarrow> \<forall>(k, v, t) \<in> set es. P k v \<Longrightarrow> entries H P (put_many x es w)"
  by (rule entries_adds [OF put_many_law]) fastforce+

lemma del_entries: "ok x H \<Longrightarrow> entries H P w \<Longrightarrow> entries H P (del_many x ks w)"
  by (rule entries_shrinks [OF del_many_law])

end

interpretation cm: cache_api cm_get cm_mget cm_set cm_set_many cm_del_many store_ok
  by unfold_locales
    (auto dest: cm_get_sound cm_mget_sound intro: cm_set_adds cm_set_many_adds cm_del_many_shrinks)

text \<open>The rest of the manager's operations keep the entries too.\<close>

lemma other_entries [inv_intros]:
  "store_ok x H \<Longrightarrow> entries H P w \<Longrightarrow> entries H P (cm_publish x c msg w)"
  "store_ok x H \<Longrightarrow> entries H P w \<Longrightarrow> entries H P (cm_del x k w)"
  "store_ok x H \<Longrightarrow> entries H P w \<Longrightarrow> entries H P (cm_replace_sorted_set x k z w)"
  "store_ok x H \<Longrightarrow> entries H P w \<Longrightarrow> entries H P (cm_invalidate_l1_prefix x p w)"
  by (auto intro: entries_shrinks cm_publish_shrinks cm_del_shrinks cm_replace_sorted_set_shrinks
      cm_invalidate_shrinks)

end
