(* ===== verification/Sample_World.thy ===== *)
theory Sample_World
  imports Cache
begin

text \<open>
  A concrete world the witnesses of the development run in: a Redis that is a key-value map with a
  switch that turns it off, no in-process cache, a clock that stands still, a database that never
  fails, and remote services given as functions. It satisfies the contract of \<open>Cache\<close>; no definition
  of the program depends on it.
\<close>

record sample =
  sm_up :: bool
  sm_kv :: "(string \<times> string) list"
  sm_zsets :: "(string \<times> zset) list"
  sm_scripts :: "(string \<times> (string \<times> int) list) list"
  sm_published :: "(string \<times> string) list"
  sm_clock :: int

definition sample_start :: sample where
  "sample_start = \<lparr>sm_up = True, sm_kv = [], sm_zsets = [], sm_scripts = [], sm_published = [], sm_clock = 0\<rparr>"

fun put_all :: "(string \<times> string \<times> nat) list \<Rightarrow> (string \<times> string) list \<Rightarrow> (string \<times> string) list" where
  "put_all [] kv = kv"
| "put_all ((k, v, t) # es) kv = put_all es (AList.update k v kv)"

definition lookup_list :: "(string \<times> 'a list) list \<Rightarrow> string \<Rightarrow> 'a list" where
  "lookup_list kv k = (case map_of kv k of None \<Rightarrow> [] | Some l \<Rightarrow> l)"

definition sample_ext ::
  "(http_request \<Rightarrow> string + http_response) \<Rightarrow> (string \<Rightarrow> string \<Rightarrow> bool grpc_outcome)
     \<Rightarrow> (string \<Rightarrow> (bool \<times> string \<times> string) grpc_outcome) \<Rightarrow> sample ext" where
  "sample_ext http content token =
     \<lparr>l1_get = \<lambda>k w. (None, w),
      l1_insert = \<lambda>k v w. w,
      l1_remove = \<lambda>k w. w,
      l1_invalidate_if = \<lambda>p w. w,
      lz_get = \<lambda>k w. (None, w),
      lz_insert = \<lambda>k z w. w,
      lz_invalidate_if = \<lambda>p w. w,
      pool_get = \<lambda>w. (sm_up w, w),
      redis_get = \<lambda>k w. (Inr (map_of (sm_kv w) k), w),
      redis_setex = \<lambda>es w. (Inr (), w\<lparr>sm_kv := put_all es (sm_kv w)\<rparr>),
      redis_mget = \<lambda>ks w. (Inr (map (map_of (sm_kv w)) ks), w),
      redis_del = \<lambda>ks w. (Inr (), w\<lparr>sm_kv := filter (\<lambda>(k, v). k \<notin> set ks) (sm_kv w)\<rparr>),
      redis_publish = \<lambda>c m w. (Inr (), w\<lparr>sm_published := (c, m) # sm_published w\<rparr>),
      redis_del_zadd = \<lambda>k z w. (Inr (), w\<lparr>sm_zsets := AList.update k z (sm_zsets w)\<rparr>),
      redis_zrevrange = \<lambda>k i j w.
        (Inr (take (nat (j - i + 1)) (drop (nat i) (sort_key (\<lambda>(m, s). - s) (lookup_list (sm_zsets w) k)))), w),
      redis_script = \<lambda>k f w. (case f (lookup_list (sm_scripts w) k) of
        (r, z, e) \<Rightarrow> (Inr r, w\<lparr>sm_scripts := AList.update k z (sm_scripts w)\<rparr>)),
      redis_ping = \<lambda>w. (sm_up w, w),
      utc_now = \<lambda>w. (sm_clock w, w),
      unix_millis = \<lambda>w. (nat (sm_clock w div 1000000), w),
      instant_now = \<lambda>w. (sm_clock w, w),
      http_send = \<lambda>r w. (http r, w),
      grpc_content_validate = \<lambda>ct cid t w. (content ct cid, w),
      grpc_token_validate = \<lambda>tok t w. (token tok, w),
      db_fault = \<lambda>w. (None, w),
      db_commit = \<lambda>w. (None, w),
      db_others = \<lambda>w. (id, w),
      db_now = \<lambda>w. (sm_clock w, w),
      db_plan = \<lambda>w. (\<lambda>n. [0..<n], w),
      hash_order = \<lambda>w. (\<lambda>n. [0..<n], w),
      peer_fetching = \<lambda>k w. (False, w),
      peer_count = \<lambda>k w. (None, w)\<rparr>"

definition sample_holds :: "sample \<Rightarrow> string \<Rightarrow> string \<Rightarrow> bool" where
  "sample_holds w k v \<longleftrightarrow> map_of (sm_kv w) k = Some v"

lemma map_of_put_all:
  "map_of (put_all es kv) k = Some v \<Longrightarrow> map_of kv k = Some v \<or> (k, v) \<in> (\<lambda>(k, v, t). (k, v)) ` set es"
  by (induction es kv rule: put_all.induct) (auto simp: update_conv split: if_splits)

lemma map_of_filter_keys:
  "map_of (filter (\<lambda>(k, v). k \<notin> K) kv) k = (if k \<in> K then None else map_of kv k)"
  by (induction kv) auto

lemma sample_store_ok: "store_ok (sample_ext http content token) sample_holds"
  unfolding store_ok_def
  by (simp add: sample_ext_def sample_holds_def shrinks_def adds_only_def list_all2_conv_all_nth
      map_of_filter_keys [unfolded case_prod_unfold] case_prod_unfold)
    (blast dest: map_of_put_all [unfolded case_prod_unfold])

text \<open>No remote service answers.\<close>

definition no_http :: "http_request \<Rightarrow> string + http_response" where
  "no_http r = Inl ''connection refused''"

definition no_content :: "string \<Rightarrow> string \<Rightarrow> bool grpc_outcome" where
  "no_content ct cid = GrpcTimeout"

definition no_token :: "string \<Rightarrow> (bool \<times> string \<times> string) grpc_outcome" where
  "no_token t = GrpcTimeout"

abbreviation sample_off :: "sample ext" where
  "sample_off \<equiv> sample_ext no_http no_content no_token"

section \<open>A codec\<close>

text \<open>Plain decimal forms of everything the witnesses print; pages, leaderboards and events are not
  encoded, so nothing of theirs is ever cached or published.\<close>

definition split_at :: "char \<Rightarrow> string \<Rightarrow> (string \<times> string) option" where
  "split_at c s = (case str_find c s of None \<Rightarrow> None | Some i \<Rightarrow> Some (take i s, drop (Suc i) s))"

lemma split_at_append [simp]: "c \<notin> set p \<Longrightarrow> split_at c (p @ c # s) = Some (p, s)"
  by (simp add: split_at_def str_find_append)

definition sample_codec :: codec where
  "sample_codec =
     \<lparr>uuid_show = \<lambda>u. show_nat (unat u),
      uuid_parse = \<lambda>s. map_option of_nat (parse_nat s),
      rfc3339_show = show_int,
      rfc3339_parse = parse_int,
      cursor_to_json = \<lambda>c. show_int (cur_timestamp c) @ CHR ''/'' # show_int (cur_id c),
      cursor_from_json = \<lambda>s. (case split_at (CHR ''/'') s of
          Some (a, b) \<Rightarrow> (case (parse_int a, parse_int b) of
            (Some t, Some i) \<Rightarrow> Some \<lparr>cur_timestamp = t, cur_id = i\<rparr> | _ \<Rightarrow> None)
        | None \<Rightarrow> None),
      b64_encode = \<lambda>s. s,
      b64_decode = Some,
      page_to_json = \<lambda>p. None,
      page_from_json = \<lambda>s. None,
      items_to_json = \<lambda>p. None,
      items_from_json = \<lambda>s. None,
      user_to_json = \<lambda>u. Some (show_nat (unat (au_user_id u)) @ CHR '':'' # au_display_name u),
      user_from_json = \<lambda>s. (case split_at (CHR '':'') s of
          Some (a, b) \<Rightarrow> map_option (\<lambda>n. \<lparr>au_user_id = of_nat n, au_display_name = b\<rparr>) (parse_nat a)
        | None \<Rightarrow> None),
      event_to_json = \<lambda>e. None,
      event_from_json = \<lambda>s. None\<rparr>"

lemma digit_val_some_char: "digit_val c = Some d \<Longrightarrow> c \<in> set ''0123456789''"
proof -
  assume "digit_val c = Some d"
  then have r: "48 \<le> (of_char c :: nat)" "(of_char c :: nat) \<le> 57"
    by (simp_all add: digit_val_def Let_def split: if_splits)
  have "(of_char c :: nat) \<in> of_char ` set ''0123456789''"
    using r by simp presburger
  then obtain d where "d \<in> set ''0123456789''" "(of_char c :: nat) = of_char d" by blast
  then show ?thesis by (metis of_char_eq_iff)
qed

lemma show_nat_chars: "c \<in> set (show_nat n) \<Longrightarrow> c \<in> set ''0123456789''"
  using show_nat_digits digit_val_some_char by fastforce

lemma show_int_chars: "c \<in> set (show_int n) \<Longrightarrow> c \<in> set ''-0123456789''"
  using show_nat_chars by (fastforce simp: show_int_def split: if_splits)

lemma sample_uuid_codec [simp]: "uuid_codec_ok sample_codec"
proof -
  have "uuid_char c" if "c \<in> set (show_nat n)" for c n
    using show_nat_chars [OF that] by (auto simp: uuid_char_def)
  then show ?thesis by (simp add: uuid_codec_ok_def sample_codec_def)
qed

lemma show_int_not_dash: "n \<ge> 0 \<Longrightarrow> show_int n \<noteq> ''-''"
  using show_nat_chars [of "CHR ''-''" "nat n"] by (force simp: show_int_def)

lemma sample_time_codec [simp]: "time_codec_ok sample_codec"
  by (simp add: time_codec_ok_def sample_codec_def dt_ok_def show_int_not_dash)

lemma sample_cursor_codec [simp]: "cursor_codec_ok sample_codec"
proof -
  have asc: "byte_in 0 0x7F c" if "c \<in> set (show_int n)" for c n
    using show_int_chars [OF that] by (auto simp: byte_in_def)
  moreover have "CHR ''/'' \<notin> set (show_int n)" for n using show_int_chars [of "CHR ''/''" n] by auto
  moreover have "byte_in 0 0x7F (CHR ''/'')" by (simp add: byte_in_def)
  ultimately show ?thesis by (auto simp: cursor_codec_ok_def sample_codec_def is_ascii_def)
qed

section \<open>A database\<close>

text \<open>Users 1 and 2 like the post 7, user 1 also the post 8.\<close>

definition db_small :: db where
  "db_small =
     \<lparr>likes = [\<lparr>lk_id = 1, lk_user = 1, lk_type = ''post'', lk_content = 7, lk_created = 10\<rparr>,
               \<lparr>lk_id = 2, lk_user = 2, lk_type = ''post'', lk_content = 7, lk_created = 20\<rparr>,
               \<lparr>lk_id = 3, lk_user = 1, lk_type = ''post'', lk_content = 8, lk_created = 30\<rparr>],
      like_counts = [((''post'', 7), 2), ((''post'', 8), 1)], next_like_id = 4\<rparr>"

lemma db_small_count:
  "sql_count (''post'', 7) db_small = 2" "sql_count (''post'', 8) db_small = 1"
  by (simp_all add: sql_count_def db_small_def)

lemma db_small_inv [simp]: "db_inv db_small"
  by (auto simp: db_inv_def db_small_def sql_count_def rows_of_def like_key_def like_content_def)

end
