(* ===== verification/Repositories.thy ===== *)
theory Repositories
  imports Sample_World
begin

text \<open>
  \<open>social-api/src/repositories.rs\<close>: the functions that run the statements of \<open>Tables\<close>. Every
  statement, and the commit, may fail; a failed transaction leaves no rows behind (the sequence
  it advanced stays advanced), a commit whose acknowledgement is lost may have been applied. The
  writes of a transaction take effect at one point; where the code reads again after that point,
  other connections may have committed in between (\<open>db_others\<close>).
\<close>

definition row_of :: "like \<Rightarrow> like_row" where
  "row_of r = \<lparr>row_id = lk_id r, row_type = lk_type r, row_content = lk_content r, row_created = lk_created r\<rparr>"

datatype insert_like_result =
    Inserted like_row int
  | AlreadyExisted like_row int
  | ConcurrentlyRemoved int

record delete_like_result =
  was_liked :: bool
  dl_count :: int

section \<open>Statements that may fail\<close>

text \<open>\<open>query.await?\<close>: the failure of a statement, or its result on the database.\<close>

definition sql_read :: "'w ext \<Rightarrow> (db \<Rightarrow> 'a) \<Rightarrow> db \<times> 'w \<Rightarrow> (string + 'a) \<times> db \<times> 'w" where
  "sql_read x q = (\<lambda>(d, w). case db_fault x w of
       (Some e, w) \<Rightarrow> (Inl e, d, w)
     | (None, w) \<Rightarrow> (Inr (q d), d, w))"

text \<open>What other connections commit before the next statement of ours.\<close>

definition sql_meanwhile :: "'w ext \<Rightarrow> db \<times> 'w \<Rightarrow> db \<times> 'w" where
  "sql_meanwhile x = (\<lambda>(d, w). case db_others x w of (f, w) \<Rightarrow> (f d, w))"

text \<open>\<open>tx.commit().await?\<close>, from the database before the transaction \<open>d0\<close> to the one after it.\<close>

definition sql_commit :: "'w ext \<Rightarrow> db \<Rightarrow> db \<Rightarrow> 'a \<Rightarrow> 'w \<Rightarrow> (string + 'a) \<times> db \<times> 'w" where
  "sql_commit x d0 d1 r w =
     (case db_commit x w of
        (None, w) \<Rightarrow> (Inr r, d1, w)
      | (Some (e, applied), w) \<Rightarrow> (Inl e, if applied then d1 else d0, w))"

definition burn_seq :: "db \<Rightarrow> db" where
  "burn_seq d = d\<lparr>next_like_id := next_like_id d + 1\<rparr>"

section \<open>Writes\<close>

text \<open>The branch of \<open>insert_like\<close> that follows a conflict: the \<open>SELECT\<close>, the commit, and, when the
  row is gone, the count read outside the transaction.\<close>

definition insert_existing ::
  "'w ext \<Rightarrow> uuid \<Rightarrow> content_key \<Rightarrow> db \<times> 'w \<Rightarrow> (string + insert_like_result) \<times> db \<times> 'w" where
  "insert_existing x user c s =
     (case sql_read x (\<lambda>d. (sql_find_like user c d, sql_count c d)) (sql_meanwhile x s) of
        (Inl e, s) \<Rightarrow> (Inl e, s)
      | (Inr (existing, n), d, w) \<Rightarrow>
          (case sql_commit x d d () w of
             (Inl e, s) \<Rightarrow> (Inl e, s)
           | (Inr _, s) \<Rightarrow>
               (case existing of
                  Some r \<Rightarrow> (Inr (AlreadyExisted (row_of r) n), s)
                | None \<Rightarrow>
                    (case sql_read x (sql_count c) (sql_meanwhile x s) of
                       (Inl e, s) \<Rightarrow> (Inl e, s)
                     | (Inr n, s) \<Rightarrow> (Inr (ConcurrentlyRemoved n), s)))))"

definition insert_like ::
  "'w ext \<Rightarrow> uuid \<Rightarrow> string \<Rightarrow> uuid \<Rightarrow> db \<times> 'w \<Rightarrow> (string + insert_like_result) \<times> db \<times> 'w" where
  "insert_like x user ct cid = (\<lambda>(d, w).
     (case db_fault x w of
        (Some e, w) \<Rightarrow> (Inl e, d, w)
      | (None, w) \<Rightarrow>
          (case db_now x w of (now, w) \<Rightarrow>
            (if \<not> varchar50_ok ct then
               (Inl ''value too long for type character varying(50)'', burn_seq d, w)
             else (case db_fault x w of
                 (Some e, w) \<Rightarrow> (Inl e, burn_seq d, w)
               | (None, w) \<Rightarrow>
                   (case sql_insert_like user (ct, cid) now d of
                      (Some r, d1) \<Rightarrow>
                        (case db_fault x w of
                           (Some e, w) \<Rightarrow> (Inl e, burn_seq d, w)
                         | (None, w) \<Rightarrow>
                             (case sql_upsert_count (ct, cid) d1 of (n, d2) \<Rightarrow>
                                sql_commit x (burn_seq d) d2 (Inserted (row_of r) n) w))
                    | (None, d1) \<Rightarrow> insert_existing x user (ct, cid) (d1, w)))))))"

text \<open>The branch of \<open>delete_like\<close> in which no row was affected: read the current count.\<close>

definition delete_absent ::
  "'w ext \<Rightarrow> content_key \<Rightarrow> db \<times> 'w \<Rightarrow> (string + delete_like_result) \<times> db \<times> 'w" where
  "delete_absent x c s =
     (case sql_read x (sql_count c) (sql_meanwhile x s) of
        (Inl e, s) \<Rightarrow> (Inl e, s)
      | (Inr n, d, w) \<Rightarrow> sql_commit x d d \<lparr>was_liked = False, dl_count = n\<rparr> w)"

definition delete_like ::
  "'w ext \<Rightarrow> uuid \<Rightarrow> string \<Rightarrow> uuid \<Rightarrow> db \<times> 'w \<Rightarrow> (string + delete_like_result) \<times> db \<times> 'w" where
  "delete_like x user ct cid = (\<lambda>(d, w).
     (case db_fault x w of
        (Some e, w) \<Rightarrow> (Inl e, d, w)
      | (None, w) \<Rightarrow>
          (case db_fault x w of
             (Some e, w) \<Rightarrow> (Inl e, d, w)
           | (None, w) \<Rightarrow>
               (case sql_delete_like user (ct, cid) d of (rows_affected, d1) \<Rightarrow>
                 (if rows_affected > 0 then
                    (case db_fault x w of
                       (Some e, w) \<Rightarrow> (Inl e, d, w)
                     | (None, w) \<Rightarrow>
                         (case sql_decrement_count (ct, cid) d1 of (m, d2) \<Rightarrow>
                            sql_commit x d d2
                              \<lparr>was_liked = True, dl_count = (case m of None \<Rightarrow> 0 | Some n \<Rightarrow> n)\<rparr> w))
                  else delete_absent x (ct, cid) (d1, w))))))"

section \<open>Reads\<close>

definition batch_get_counts ::
  "'w ext \<Rightarrow> content_key list \<Rightarrow> db \<times> 'w \<Rightarrow> (string + (content_key \<times> int) list) \<times> db \<times> 'w" where
  "batch_get_counts x items = (\<lambda>(d, w).
     (if items = [] then (Inr [], d, w)
      else (case db_plan x w of (p, w) \<Rightarrow>
        sql_read x (\<lambda>d. permute_by p (map (\<lambda>c. (c, sql_count c d)) items)) (d, w))))"

definition get_count :: "'w ext \<Rightarrow> string \<Rightarrow> uuid \<Rightarrow> db \<times> 'w \<Rightarrow> (string + int) \<times> db \<times> 'w" where
  "get_count x ct cid = sql_read x (sql_count (ct, cid))"

definition get_like_status ::
  "'w ext \<Rightarrow> uuid \<Rightarrow> string \<Rightarrow> uuid \<Rightarrow> db \<times> 'w \<Rightarrow> (string + datetime option) \<times> db \<times> 'w" where
  "get_like_status x user ct cid =
     sql_read x (\<lambda>d. map_option lk_created (sql_find_like user (ct, cid) d))"

text \<open>A negative \<open>LIMIT\<close> is an error of the server.\<close>

definition get_user_likes ::
  "'w ext \<Rightarrow> uuid \<Rightarrow> string option \<Rightarrow> datetime option \<Rightarrow> int option \<Rightarrow> int \<Rightarrow> db \<times> 'w
     \<Rightarrow> (string + like_row list) \<times> db \<times> 'w" where
  "get_user_likes x user filt cursor_ts cursor_id limit s =
     (let fetch_limit = limit + 1;
          cursor = (case (cursor_ts, cursor_id) of (Some ts, Some i) \<Rightarrow> Some (ts, i) | _ \<Rightarrow> None) in
      if fetch_limit < 0 then (Inl ''LIMIT must not be negative'', s)
      else sql_read x (\<lambda>d. map row_of (sql_user_likes user filt cursor (nat fetch_limit) d)) s)"

definition batch_get_statuses ::
  "'w ext \<Rightarrow> uuid \<Rightarrow> content_key list \<Rightarrow> db \<times> 'w
     \<Rightarrow> (string + (content_key \<times> datetime option) list) \<times> db \<times> 'w" where
  "batch_get_statuses x user items = (\<lambda>(d, w).
     (if items = [] then (Inr [], d, w)
      else (case db_plan x w of (p, w) \<Rightarrow>
        sql_read x (\<lambda>d. permute_by p
          (map (\<lambda>c. (c, map_option lk_created (sql_find_like user c d))) items)) (d, w))))"

definition get_leaderboard ::
  "'w ext \<Rightarrow> string option \<Rightarrow> datetime option \<Rightarrow> int \<Rightarrow> db \<times> 'w
     \<Rightarrow> (string + (string \<times> uuid \<times> int) list) \<times> db \<times> 'w" where
  "get_leaderboard x filt since limit = (\<lambda>(d, w).
     (if limit < 0 then (Inl ''LIMIT must not be negative'', d, w)
      else (case db_plan x w of (p, w) \<Rightarrow>
        sql_read x (sql_leaderboard p filt since (nat limit)) (d, w))))"

section \<open>What the writes promise\<close>

text \<open>Other connections run the same transactions: what they commit keeps the invariant.\<close>

definition others_ok :: "'w ext \<Rightarrow> bool" where
  "others_ok x \<longleftrightarrow> (\<forall>w d. db_inv d \<longrightarrow> db_inv (fst (db_others x w) d))"

lemma db_inv_burn [simp]: "db_inv d \<Longrightarrow> db_inv (burn_seq d)"
proof -
  have "rows_of k (burn_seq d) = rows_of k d" "sql_count k (burn_seq d) = sql_count k d" for k
    by (simp_all add: rows_of_def burn_seq_def)
  then show "db_inv d \<Longrightarrow> db_inv (burn_seq d)"
    unfolding db_inv_def by (auto simp: burn_seq_def)
qed

lemma meanwhile_inv: "others_ok x \<Longrightarrow> db_inv d \<Longrightarrow> sql_meanwhile x (d, w) = (d', w') \<Longrightarrow> db_inv d'"
  by (auto simp: sql_meanwhile_def others_ok_def split: prod.splits) (metis fst_conv)

lemma sql_read_db: "sql_read x q (d, w) = (r, d', w') \<Longrightarrow> d' = d \<and> (\<forall>v. r = Inr v \<longrightarrow> v = q d)"
  by (auto simp: sql_read_def split: prod.splits option.splits)

lemma sql_commit_db:
  "sql_commit x d0 d1 v w = (r, d', w') \<Longrightarrow> (d' = d0 \<or> d' = d1) \<and> (\<forall>u. r = Inr u \<longrightarrow> u = v \<and> d' = d1)"
  by (auto simp: sql_commit_def split: prod.splits option.splits if_splits)

lemma tx_insert_new:
  "sql_insert_like user c now d = (Some r, d1) \<Longrightarrow> sql_upsert_count c d1 = (n, d2) \<Longrightarrow>
   \<not> liked user c d \<and> tx_insert user c now d = (Some (r, n), d2)"
  by (auto simp: tx_insert_def sql_insert_like_def liked_def Let_def split: option.splits prod.splits)

lemma insert_conflict:
  "sql_insert_like user c now d = (None, d1) \<Longrightarrow> d1 = burn_seq d \<and> liked user c d"
  by (auto simp: sql_insert_like_def liked_def burn_seq_def Let_def split: option.splits)

text \<open>The outcome of \<open>insert_like\<close> in one relation, the form the properties and the services use.\<close>

definition insert_outcome :: "uuid \<Rightarrow> content_key \<Rightarrow> db \<Rightarrow> string + insert_like_result \<Rightarrow> db \<Rightarrow> bool" where
  "insert_outcome user c d r d' \<longleftrightarrow> db_inv d' \<and>
     (case r of
        Inr (Inserted row n) \<Rightarrow>
          \<not> liked user c d \<and> liked user c d' \<and> n = int (rows_of c d') \<and> n = int (rows_of c d) + 1
          \<and> (row_type row, row_content row) = c
          \<and> (\<forall>u k. (u, k) \<noteq> (user, c) \<longrightarrow> (liked u k d' \<longleftrightarrow> liked u k d))
      | Inr (AlreadyExisted row n) \<Rightarrow>
          liked user c d \<and> liked user c d' \<and> n = int (rows_of c d')
          \<and> (\<exists>r. sql_find_like user c d' = Some r \<and> row = row_of r)
      | Inr (ConcurrentlyRemoved n) \<Rightarrow> liked user c d \<and> n = int (rows_of c d')
      | Inl _ \<Rightarrow> True)"

lemma insert_existing_outcome:
  assumes ok: "others_ok x" and inv: "db_inv d" and l: "liked user c d0"
    and run: "insert_existing x user c (d, w) = (r, d', w')"
  shows "insert_outcome user c d0 r d'"
proof -
  obtain d1 w1 where 1: "sql_meanwhile x (d, w) = (d1, w1)" by fastforce
  obtain q d2 w2 where 2: "sql_read x (\<lambda>d. (sql_find_like user c d, sql_count c d)) (d1, w1) = (q, d2, w2)"
    by (metis prod_cases3)
  have i1: "db_inv d1" by (rule meanwhile_inv [OF ok inv 1])
  note q = sql_read_db [OF 2]
  obtain cm d3 w3 where 3: "sql_commit x d1 d1 () w2 = (cm, d3, w3)" by (metis prod_cases3)
  note cm = sql_commit_db [OF 3]
  obtain d4 w4 where 4: "sql_meanwhile x (d1, w3) = (d4, w4)" by fastforce
  have i4: "db_inv d4" by (rule meanwhile_inv [OF ok i1 4])
  obtain q' d5 w5 where 5: "sql_read x (sql_count c) (d4, w4) = (q', d5, w5)" by (metis prod_cases3)
  note q' = sql_read_db [OF 5]
  have f2: "sql_read x (\<lambda>d. (sql_find_like user c d, sql_count c d)) (d1, w1) = (q, d1, w2)"
    and f3: "sql_commit x d1 d1 () w2 = (cm, d1, w3)"
    and f5: "sql_read x (sql_count c) (d4, w4) = (q', d4, w5)"
    using 2 3 5 q cm q' by simp_all
  show ?thesis
    using run i1 i4 q q' l db_inv_count [OF i1, of c] db_inv_count [OF i4, of c]
    by (auto simp: insert_existing_def insert_outcome_def 1 f2 f3 4 f5 liked_def
        split: sum.splits option.splits prod.splits)
qed

lemma insert_like_outcome:
  assumes ok: "others_ok x" and inv: "db_inv d" and run: "insert_like x user ct cid (d, w) = (r, d', w')"
  shows "insert_outcome user (ct, cid) d r d'"
proof -
  have err: "insert_outcome user (ct, cid) d (Inl e) d" "insert_outcome user (ct, cid) d (Inl e) (burn_seq d)" for e
    using inv by (simp_all add: insert_outcome_def)
  have new: "insert_outcome user (ct, cid) d r' d''"
    if "sql_insert_like user (ct, cid) now d = (Some y, d1)" "sql_upsert_count (ct, cid) d1 = (n, d2)"
      "sql_commit x (burn_seq d) d2 (Inserted (row_of y) n) w0 = (r', d'', w'')"
    for now y d1 n d2 w0 r' d'' w''
  proof -
    note t = tx_insert_new [OF that(1,2)]
    have y: "like_content y = (ct, cid)"
      using t by (auto simp: tx_insert_cases Let_def like_content_def split: if_splits)
    have i2: "db_inv d2" using tx_insert_inv [OF inv, of user "(ct, cid)" now] t by simp
    moreover have "n = sql_count (ct, cid) d + 1"
      using t by (auto simp: tx_insert_cases Let_def split: if_splits)
    moreover have "sql_count (ct, cid) d2 = n"
      using t by (auto simp: tx_insert_cases Let_def sql_count_def update_conv split: if_splits)
    moreover have "liked u k d2 \<longleftrightarrow> (u, k) = (user, (ct, cid)) \<or> liked u k d" for u k
      using liked_tx_insert [of u k user "(ct, cid)" now d] t by simp
    ultimately show ?thesis
      using sql_commit_db [OF that(3)] t y inv db_inv_count [OF i2, of "(ct, cid)"]
        db_inv_count [OF inv, of "(ct, cid)"]
      by (auto simp: insert_outcome_def row_of_def like_content_def split: sum.splits)
  qed
  have old: "insert_outcome user (ct, cid) d r' d''"
    if "sql_insert_like user (ct, cid) now d = (None, d1)"
      "insert_existing x user (ct, cid) (d1, w0) = (r', d'', w'')" for now d1 w0 r' d'' w''
    using insert_existing_outcome [OF ok _ _ that(2)] insert_conflict [OF that(1)] inv by simp
  show ?thesis
    using run err new old
    by (auto simp: insert_like_def split: prod.splits option.splits if_splits)
qed

lemma delete_outcome_liked:
  assumes inv: "db_inv d" and l: "liked user c d"
    and "sql_delete_like user c d = (n, d1)" "sql_decrement_count c d1 = (m, d2)"
  shows "db_inv d2 \<and> \<not> liked user c d2 \<and> m = Some (int (rows_of c d2))
       \<and> int (rows_of c d2) = int (rows_of c d) - 1
       \<and> (\<forall>u k. (u, k) \<noteq> (user, c) \<longrightarrow> (liked u k d2 \<longleftrightarrow> liked u k d))"
proof -
  have "0 < n" using assms(3) tx_delete_liked [OF inv l]
    by (auto simp: tx_delete_def split: prod.splits if_splits)
  then have t: "tx_delete user c d = ((n, m), d2)"
    using assms(3,4) by (simp add: tx_delete_def)
  then have i2: "db_inv d2" using tx_delete_inv [OF inv, of user c] by simp
  moreover have "m = Some (sql_count c d - 1)" "sql_count c d2 = sql_count c d - 1"
    using t tx_delete_liked [OF inv l] by (auto simp: sql_count_def update_conv)
  moreover have "liked u k d2 \<longleftrightarrow> (u, k) \<noteq> (user, c) \<and> liked u k d" for u k
    using liked_tx_delete [OF inv, of u k user c] t by simp
  ultimately show ?thesis
    using db_inv_count [OF i2, of c] db_inv_count [OF inv, of c] by auto
qed

definition delete_outcome :: "uuid \<Rightarrow> content_key \<Rightarrow> db \<Rightarrow> string + delete_like_result \<Rightarrow> db \<Rightarrow> bool" where
  "delete_outcome user c d r d' \<longleftrightarrow> db_inv d' \<and>
     (case r of
        Inr res \<Rightarrow>
          was_liked res = liked user c d \<and> dl_count res = int (rows_of c d')
          \<and> (was_liked res \<longrightarrow> \<not> liked user c d' \<and> int (rows_of c d') = int (rows_of c d) - 1
               \<and> (\<forall>u k. (u, k) \<noteq> (user, c) \<longrightarrow> (liked u k d' \<longleftrightarrow> liked u k d)))
      | Inl _ \<Rightarrow> True)"

lemma delete_commit:
  assumes "sql_commit x d0 d1 v w = (r, d', w')" "db_inv d0" "delete_outcome user c d (Inr v) d1"
  shows "delete_outcome user c d r d'"
  using sql_commit_db [OF assms(1)] assms(2,3)
  by (cases r) (auto simp: delete_outcome_def)

lemma delete_like_outcome:
  assumes ok: "others_ok x" and inv: "db_inv d" and run: "delete_like x user ct cid (d, w) = (r, d', w')"
  shows "delete_outcome user (ct, cid) d r d'"
proof -
  obtain n d1 where del: "sql_delete_like user (ct, cid) d = (n, d1)" by fastforce
  obtain m d2 where dec: "sql_decrement_count (ct, cid) d1 = (m, d2)" by fastforce
  have n: "0 < n \<longleftrightarrow> liked user (ct, cid) d"
    using del by (auto simp: sql_delete_like_def liked_ex filter_empty_conv)
  have err: "delete_outcome user (ct, cid) d (Inl e) d" for e using inv by (simp add: delete_outcome_def)
  have gone: "delete_outcome user (ct, cid) d r' d''"
    if "0 < n" "sql_commit x d d2 \<lparr>was_liked = True, dl_count = (case m of None \<Rightarrow> 0 | Some k \<Rightarrow> k)\<rparr> w0
                  = (r', d'', w'')" for w0 r' d'' w''
  proof (rule delete_commit [OF that(2) inv])
    show "delete_outcome user (ct, cid) d
        (Inr \<lparr>was_liked = True, dl_count = (case m of None \<Rightarrow> 0 | Some k \<Rightarrow> k)\<rparr>) d2"
      using delete_outcome_liked [OF inv _ del dec] that(1) n by (simp add: delete_outcome_def)
  qed
  have stay: "delete_outcome user (ct, cid) d r' d''"
    if z: "\<not> 0 < n" and r: "delete_absent x (ct, cid) (d1, w0) = (r', d'', w'')" for w0 r' d'' w''
  proof -
    obtain e we where s: "sql_meanwhile x (d1, w0) = (e, we)" by fastforce
    have "d1 = d" using tx_delete_not_liked [of user "(ct, cid)" d] n del z by (auto simp: tx_delete_def)
    with s have ie: "db_inv e" using meanwhile_inv [OF ok inv] by simp
    obtain q f wf where q: "sql_read x (sql_count (ct, cid)) (e, we) = (q, f, wf)" by (metis prod_cases3)
    note qf = sql_read_db [OF q]
    have out: "delete_outcome user (ct, cid) d (Inr \<lparr>was_liked = False, dl_count = sql_count (ct, cid) e\<rparr>) e"
      using ie z n db_inv_count [OF ie, of "(ct, cid)"] by (simp add: delete_outcome_def)
    show ?thesis
    proof (cases q)
      case (Inl e')
      then show ?thesis using r s q qf ie by (auto simp: delete_outcome_def delete_absent_def)
    next
      case (Inr k)
      then have "sql_commit x e e \<lparr>was_liked = False, dl_count = sql_count (ct, cid) e\<rparr> wf = (r', d'', w'')"
        using r s q qf by (auto simp: delete_absent_def)
      then show ?thesis by (rule delete_commit [OF _ ie out])
    qed
  qed
  show ?thesis
    using run err gone stay
    by (auto simp: delete_like_def del dec split: prod.splits option.splits if_splits)
qed

section \<open>What the writes leave alone\<close>

text \<open>A database that became another by commits of other connections alone.\<close>

inductive others_only :: "'w ext \<Rightarrow> db \<Rightarrow> db \<Rightarrow> bool" for x where
  others_none: "others_only x d d"
| others_commit: "others_only x d d' \<Longrightarrow> others_only x d (fst (db_others x w) d')"

lemma others_only_trans: "others_only x d e \<Longrightarrow> others_only x e f \<Longrightarrow> others_only x d f"
  by (rotate_tac, induction rule: others_only.induct) (auto intro: others_only.intros)

lemma meanwhile_others: "sql_meanwhile x (d, w) = (d', w') \<Longrightarrow> others_only x d d'"
  using others_commit [OF others_none, of x d w] by (auto simp: sql_meanwhile_def split: prod.splits)

lemma quiet_others_only:
  assumes "\<And>w. fst (db_others x w) = id" "others_only x d d'"
  shows "d' = d"
  using assms(2,1) by induction auto

text \<open>What \<open>insert_like\<close> did to the tables, besides what other connections committed: one row and one
  count when it inserted, and nothing but the sequence otherwise; a failed call may have applied its
  transaction only when the acknowledgement of the commit was lost.\<close>

definition one_row_more :: "uuid \<Rightarrow> content_key \<Rightarrow> db \<Rightarrow> like \<Rightarrow> db \<Rightarrow> bool" where
  "one_row_more user c d r d' \<longleftrightarrow> like_key r = (user, c) \<and> likes d' = likes d @ [r]
     \<and> (\<forall>k. sql_count k d' = sql_count k d + (if k = c then 1 else 0))"

definition insert_frame :: "'w ext \<Rightarrow> uuid \<Rightarrow> content_key \<Rightarrow> db \<Rightarrow> string + insert_like_result \<Rightarrow> db \<Rightarrow> bool" where
  "insert_frame x user c d r d' \<longleftrightarrow>
     (case r of
        Inr (Inserted row n) \<Rightarrow> (\<exists>l. row = row_of l \<and> one_row_more user c d l d')
      | Inr _ \<Rightarrow> others_only x (burn_seq d) d'
      | Inl _ \<Rightarrow> others_only x d d' \<or> others_only x (burn_seq d) d'
          \<or> (\<not> liked user c d \<and> (\<exists>l. one_row_more user c d l d')))"

definition one_row_less :: "uuid \<Rightarrow> content_key \<Rightarrow> db \<Rightarrow> db \<Rightarrow> bool" where
  "one_row_less user c d d' \<longleftrightarrow> likes d' = filter (\<lambda>r. like_key r \<noteq> (user, c)) (likes d)
     \<and> (\<forall>k. sql_count k d' = sql_count k d - (if k = c then 1 else 0))"

definition delete_frame :: "'w ext \<Rightarrow> uuid \<Rightarrow> content_key \<Rightarrow> db \<Rightarrow> string + delete_like_result \<Rightarrow> db \<Rightarrow> bool" where
  "delete_frame x user c d r d' \<longleftrightarrow>
     (case r of
        Inr res \<Rightarrow> (if was_liked res then one_row_less user c d d' else others_only x d d')
      | Inl _ \<Rightarrow> others_only x d d' \<or> (liked user c d \<and> one_row_less user c d d'))"

lemma insert_existing_frame:
  assumes run: "insert_existing x user c (d, w) = (r, d', w')"
  shows "others_only x d d' \<and> (case r of Inr (Inserted _ _) \<Rightarrow> False | _ \<Rightarrow> True)"
proof -
  obtain d1 w1 where 1: "sql_meanwhile x (d, w) = (d1, w1)" by fastforce
  obtain q d2 w2 where 2: "sql_read x (\<lambda>d. (sql_find_like user c d, sql_count c d)) (d1, w1) = (q, d2, w2)"
    by (metis prod_cases3)
  obtain cm d3 w3 where 3: "sql_commit x d2 d2 () w2 = (cm, d3, w3)" by (metis prod_cases3)
  obtain d4 w4 where 4: "sql_meanwhile x (d3, w3) = (d4, w4)" by fastforce
  obtain q' d5 w5 where 5: "sql_read x (sql_count c) (d4, w4) = (q', d5, w5)" by (metis prod_cases3)
  have same: "d2 = d1" "d3 = d1" "d5 = d4"
    using sql_read_db [OF 2] sql_commit_db [OF 3] sql_read_db [OF 5] by auto
  have o: "others_only x d d1" "others_only x d d4"
    using meanwhile_others [OF 1] others_only_trans [OF meanwhile_others [OF 1]] meanwhile_others [OF 4] same by auto
  show ?thesis
    using run 1 2 3 4 5 same o by (auto simp: insert_existing_def split: sum.splits option.splits prod.splits)
qed

lemma tx_insert_one_row:
  assumes "sql_insert_like user c now d = (Some l, d1)" "sql_upsert_count c d1 = (n, d2)"
  shows "one_row_more user c d l d2"
  using tx_insert_new [OF assms]
  by (auto simp: tx_insert_cases Let_def one_row_more_def sql_count_def update_conv split: if_splits)

lemma insert_like_frame:
  assumes run: "insert_like x user ct cid (d, w) = (r, d', w')"
  shows "insert_frame x user (ct, cid) d r d'"
proof -
  let ?c = "(ct, cid)"
  have err: "insert_frame x user ?c d (Inl e) d" "insert_frame x user ?c d (Inl e) (burn_seq d)" for e
    by (simp_all add: insert_frame_def others_none)
  have new: "insert_frame x user ?c d r' d''"
    if "sql_insert_like user ?c now d = (Some l, d1)" "sql_upsert_count ?c d1 = (n, d2)"
      "sql_commit x (burn_seq d) d2 (Inserted (row_of l) n) w0 = (r', d'', w'')" for now l d1 n d2 w0 r' d'' w''
    using tx_insert_one_row [OF that(1,2)] tx_insert_new [OF that(1,2)] sql_commit_db [OF that(3)]
    by (auto simp: insert_frame_def others_none split: sum.splits)
  have old: "insert_frame x user ?c d r' d''"
    if "sql_insert_like user ?c now d = (None, d1)" "insert_existing x user ?c (d1, w0) = (r', d'', w'')"
    for now d1 w0 r' d'' w''
    using insert_existing_frame [OF that(2)] insert_conflict [OF that(1)]
    by (auto simp: insert_frame_def split: sum.splits insert_like_result.splits)
  show ?thesis
    using run err new old by (auto simp: insert_like_def split: prod.splits option.splits if_splits)
qed

lemma find_snoc: "find P xs = None \<Longrightarrow> P x \<Longrightarrow> find P (xs @ [x]) = Some x"
  by (induction xs) (auto split: if_splits)

text \<open>The row a new like returns is the one in the table.\<close>

lemma insert_like_row:
  assumes "insert_like x user ct cid (d, w) = (Inr (Inserted row n), d', w')" "\<not> liked user (ct, cid) d"
  shows "\<exists>l. sql_find_like user (ct, cid) d' = Some l \<and> row = row_of l"
proof -
  obtain l where l: "row = row_of l" "like_key l = (user, ct, cid)" "likes d' = likes d @ [l]"
    using insert_like_frame [OF assms(1)] by (auto simp: insert_frame_def one_row_more_def)
  have "find (\<lambda>r. like_key r = (user, ct, cid)) (likes d @ [l]) = Some l"
    using assms(2) l(2) by (intro find_snoc) (simp_all add: liked_def sql_find_like_def)
  then show ?thesis using l by (auto simp: sql_find_like_def)
qed

lemma delete_absent_frame:
  assumes run: "delete_absent x c (d, w) = (r, d', w')"
  shows "others_only x d d' \<and> (\<forall>res. r = Inr res \<longrightarrow> \<not> was_liked res)"
proof -
  obtain e w1 where 1: "sql_meanwhile x (d, w) = (e, w1)" by fastforce
  obtain q f w2 where 2: "sql_read x (sql_count c) (e, w1) = (q, f, w2)" by (metis prod_cases3)
  show ?thesis
    using run 1 2 sql_read_db [OF 2] meanwhile_others [OF 1]
    by (auto simp: delete_absent_def split: sum.splits dest!: sql_commit_db)
qed

lemma tx_delete_one_row:
  assumes inv: "db_inv d" and l: "liked user c d"
    and "sql_delete_like user c d = (n, d1)" "sql_decrement_count c d1 = (m, d2)"
  shows "one_row_less user c d d2"
proof -
  have "0 < n" using assms(3) tx_delete_liked [OF inv l] by (auto simp: tx_delete_def split: prod.splits if_splits)
  then have "tx_delete user c d = ((n, m), d2)" using assms(3,4) by (simp add: tx_delete_def)
  then show ?thesis using tx_delete_liked [OF inv l] by (auto simp: one_row_less_def sql_count_def update_conv)
qed

lemma delete_like_frame:
  assumes inv: "db_inv d" and run: "delete_like x user ct cid (d, w) = (r, d', w')"
  shows "delete_frame x user (ct, cid) d r d'"
proof -
  let ?c = "(ct, cid)"
  obtain n d1 where del: "sql_delete_like user ?c d = (n, d1)" by fastforce
  obtain m d2 where dec: "sql_decrement_count ?c d1 = (m, d2)" by fastforce
  have n: "0 < n \<longleftrightarrow> liked user ?c d"
    using del by (auto simp: sql_delete_like_def liked_ex filter_empty_conv)
  have err: "delete_frame x user ?c d (Inl e) d" for e by (simp add: delete_frame_def others_none)
  have gone: "delete_frame x user ?c d r' d''"
    if "0 < n" "sql_commit x d d2 \<lparr>was_liked = True, dl_count = k\<rparr> w0 = (r', d'', w'')" for w0 r' d'' w'' k
  proof -
    have l: "liked user ?c d" using n that(1) by simp
    note row = tx_delete_one_row [OF inv l del dec] and cm = sql_commit_db [OF that(2)]
    show ?thesis
      by (cases r') (use row l cm in \<open>auto simp: delete_frame_def others_none\<close>)
  qed
  have stay: "delete_frame x user ?c d r' d''"
    if "\<not> 0 < n" "delete_absent x ?c (d1, w0) = (r', d'', w'')" for w0 r' d'' w''
  proof -
    have "d1 = d" using tx_delete_not_liked [of user ?c d] n del that(1) by (auto simp: tx_delete_def)
    then show ?thesis using delete_absent_frame [OF that(2)] by (auto simp: delete_frame_def split: sum.splits)
  qed
  show ?thesis
    using run err gone stay by (auto simp: delete_like_def del dec split: prod.splits option.splits if_splits)
qed

section \<open>Histories\<close>

datatype db_op = WLike uuid string uuid | WUnlike uuid string uuid

fun db_op_step :: "'w ext \<Rightarrow> db_op \<Rightarrow> db \<times> 'w \<Rightarrow> db \<times> 'w" where
  "db_op_step x (WLike u ct cid) s = snd (insert_like x u ct cid s)"
| "db_op_step x (WUnlike u ct cid) s = snd (delete_like x u ct cid s)"

fun db_ops :: "'w ext \<Rightarrow> db_op list \<Rightarrow> db \<times> 'w \<Rightarrow> db \<times> 'w" where
  "db_ops x [] s = s"
| "db_ops x (p # ps) s = db_ops x ps (db_op_step x p s)"

lemma db_op_step_inv: "others_ok x \<Longrightarrow> db_inv (fst s) \<Longrightarrow> db_inv (fst (db_op_step x p s))"
proof -
  assume a: "others_ok x" "db_inv (fst s)"
  obtain d w where s: "s = (d, w)" by fastforce
  show ?thesis
  proof (cases p)
    case (WLike u ct cid)
    obtain r d' w' where r: "insert_like x u ct cid (d, w) = (r, d', w')" by (metis prod_cases3)
    show ?thesis using insert_like_outcome [OF a(1) _ r] a(2) r s WLike by (simp add: insert_outcome_def)
  next
    case (WUnlike u ct cid)
    obtain r d' w' where r: "delete_like x u ct cid (d, w) = (r, d', w')" by (metis prod_cases3)
    show ?thesis using delete_like_outcome [OF a(1) _ r] a(2) r s WUnlike by (simp add: delete_outcome_def)
  qed
qed

lemma db_ops_inv: "others_ok x \<Longrightarrow> db_inv (fst s) \<Longrightarrow> db_inv (fst (db_ops x ps s))"
  by (induction ps arbitrary: s) (auto simp: db_op_step_inv)

lemma sample_others_ok: "others_ok (sample_ext http content token)"
  by (simp add: others_ok_def sample_ext_def)

lemmas sample_db = insert_like_def delete_like_def insert_existing_def delete_absent_def sql_read_def sql_commit_def
  sql_meanwhile_def sample_ext_def

text \<open>C1. The counters count. Whatever sequence of likes and unlikes the writers run, with statements
  failing, commits lost and other connections committing in between, each user likes an item at most
  once and the materialised count of every item is its number of like rows.\<close>

theorem counts_are_exact:
  assumes "others_ok x" "db_inv (fst s)"
  shows "sql_count c (fst (db_ops x ps s)) = int (length (filter (\<lambda>r. like_content r = c) (likes (fst (db_ops x ps s)))))
       \<and> distinct (map like_key (likes (fst (db_ops x ps s))))"
  using db_ops_inv [OF assms, of ps] db_inv_count [of "fst (db_ops x ps s)" c]
  by (simp add: rows_of_def db_inv_def)

theorem counts_are_exact_witness:
  "sql_count (''post'', 7)
     (fst (db_ops sample_off [WLike 1 ''post'' 7, WLike 2 ''post'' 7, WLike 1 ''post'' 7, WUnlike 2 ''post'' 7]
        (db_empty, sample_start))) = 1"
proof -
  have "db_inv (fst (db_empty, sample_start))" by simp
  from counts_are_exact [OF sample_others_ok [of no_http no_content no_token] this, of "(''post'', 7)"
      "[WLike 1 ''post'' 7, WLike 2 ''post'' 7, WLike 1 ''post'' 7, WUnlike 2 ''post'' 7]"]
  show ?thesis
    by (simp add: sample_db db_empty_def sample_start_def sql_insert_like_def sql_find_like_def like_key_def
        like_content_def sql_upsert_count_def sql_delete_like_def sql_decrement_count_def varchar50_ok_def
        byte_in_def Let_def)
qed



text \<open>C23. \<open>delete_like\<close> on every branch: it reports whether the like was there, removes that row and no
  other, and returns the true count, which \<open>GREATEST\<close> never has to clamp. Beside the commits of other
  connections it removes exactly that row and one from its count, or nothing; a failure has removed
  it only when the acknowledgement of the commit was lost.\<close>

theorem delete_like_correct:
  assumes "others_ok x" "db_inv d" "delete_like x user ct cid (d, w) = (r, d', w')"
  shows "delete_outcome user (ct, cid) d r d' \<and> delete_frame x user (ct, cid) d r d'"
  using delete_like_outcome [OF assms] delete_like_frame [OF assms(2,3)] by blast

theorem delete_like_correct_witness:
  "let r = delete_like sample_off 1 ''post'' 7 (db_small, sample_start) in
     delete_outcome 1 (''post'', 7) db_small (fst r) (fst (snd r)) \<and> delete_frame sample_off 1 (''post'', 7) db_small (fst r) (fst (snd r))"
  unfolding Let_def
  by (rule delete_like_correct [where x = sample_off and w = sample_start and
        w' = "snd (snd (delete_like sample_off 1 ''post'' 7 (db_small, sample_start)))"])
    (simp_all add: sample_others_ok)

text \<open>A connection nothing interferes with.\<close>

definition quiet :: "'w ext \<Rightarrow> bool" where
  "quiet x \<longleftrightarrow> (\<forall>w. fst (db_fault x w) = None \<and> fst (db_commit x w) = None \<and> fst (db_others x w) = id)"

lemma quiet_others_ok: "quiet x \<Longrightarrow> others_ok x"
  by (simp add: quiet_def others_ok_def)

lemma sample_quiet: "quiet (sample_ext http content token)"
  by (simp add: quiet_def sample_ext_def)

lemma quiet_steps:
  assumes "quiet x"
  shows "\<exists>w'. db_fault x w = (None, w')" "\<exists>w'. db_commit x w = (None, w')" "\<exists>w'. db_others x w = (id, w')"
  using assms unfolding quiet_def by (metis prod.collapse)+

lemma quiet_read: "quiet x \<Longrightarrow> \<exists>w'. sql_read x q (d, w) = (Inr (q d), d, w')"
  using quiet_steps(1) [of x w] by (auto simp: sql_read_def)

lemma quiet_commit: "quiet x \<Longrightarrow> \<exists>w'. sql_commit x d0 d1 r w = (Inr r, d1, w')"
  using quiet_steps(2) [of x w] by (auto simp: sql_commit_def)

lemma quiet_meanwhile: "quiet x \<Longrightarrow> \<exists>w'. sql_meanwhile x (d, w) = (d, w')"
  using quiet_steps(3) [of x w] by (auto simp: sql_meanwhile_def)

text \<open>On a quiet connection the two writes are the two transactions.\<close>

lemma quiet_insert:
  assumes q: "quiet x" and v: "varchar50_ok ct"
  shows "\<exists>w' now. insert_like x user ct cid (d, w) =
     (Inr (case sql_find_like user (ct, cid) d of
             Some r \<Rightarrow> AlreadyExisted (row_of r) (sql_count (ct, cid) d)
           | None \<Rightarrow> Inserted \<lparr>row_id = next_like_id d, row_type = ct, row_content = cid, row_created = now\<rparr>
                       (sql_count (ct, cid) d + 1)),
      snd (tx_insert user (ct, cid) now d), w')"
proof -
  obtain w1 where 1: "db_fault x w = (None, w1)" using quiet_steps(1) [OF q] by blast
  obtain now w2 where 2: "db_now x w1 = (now, w2)" by fastforce
  obtain w3 where 3: "db_fault x w2 = (None, w3)" using quiet_steps(1) [OF q] by blast
  show ?thesis
  proof (cases "sql_find_like user (ct, cid) d")
    case None
    obtain w4 where 4: "db_fault x w3 = (None, w4)" using quiet_steps(1) [OF q] by blast
    obtain w5 where 5: "db_commit x w4 = (None, w5)" using quiet_steps(2) [OF q] by blast
    show ?thesis
      using None v 1 2 3 4 5
      by (auto simp: insert_like_def sql_insert_like_def sql_upsert_count_def sql_commit_def tx_insert_def
          row_of_def sql_count_def Let_def split: option.splits)
  next
    case (Some r)
    let ?d = "burn_seq d"
    have same: "sql_find_like user (ct, cid) ?d = Some r" "sql_count (ct, cid) ?d = sql_count (ct, cid) d"
      using Some by (simp_all add: sql_find_like_def burn_seq_def)
    obtain w4 where 4: "sql_meanwhile x (?d, w3) = (?d, w4)" using quiet_meanwhile [OF q] by blast
    obtain w5 where 5: "sql_read x (\<lambda>d. (sql_find_like user (ct, cid) d, sql_count (ct, cid) d)) (?d, w4) =
        (Inr (sql_find_like user (ct, cid) ?d, sql_count (ct, cid) ?d), ?d, w5)"
      using quiet_read [OF q] by blast
    obtain w6 where 6: "sql_commit x ?d ?d () w5 = (Inr (), ?d, w6)"
      using quiet_commit [OF q, of ?d ?d "()" w5] by auto
    have ins: "sql_insert_like user (ct, cid) t d = (None, ?d)" for t
      using Some by (simp add: sql_insert_like_def burn_seq_def Let_def)
    show ?thesis
      using Some v 1 2 3 4 5 6 same ins
      by (auto simp: insert_like_def insert_existing_def tx_insert_def)
  qed
qed

lemma quiet_delete:
  assumes q: "quiet x" and inv: "db_inv d"
  shows "\<exists>w'. delete_like x user ct cid (d, w) =
     (Inr \<lparr>was_liked = liked user (ct, cid) d,
           dl_count = sql_count (ct, cid) d - (if liked user (ct, cid) d then 1 else 0)\<rparr>,
      snd (tx_delete user (ct, cid) d), w')"
proof -
  obtain w1 where 1: "db_fault x w = (None, w1)" using quiet_steps(1) [OF q] by blast
  obtain w2 where 2: "db_fault x w1 = (None, w2)" using quiet_steps(1) [OF q] by blast
  obtain n d1 where del: "sql_delete_like user (ct, cid) d = (n, d1)" by fastforce
  show ?thesis
  proof (cases "liked user (ct, cid) d")
    case True
    note t = tx_delete_liked [OF inv True]
    have n: "0 < n" using del t by (auto simp: tx_delete_def split: prod.splits if_splits)
    obtain m d2 where dec: "sql_decrement_count (ct, cid) d1 = (m, d2)" by fastforce
    have m: "m = Some (sql_count (ct, cid) d - 1)" "d2 = snd (tx_delete user (ct, cid) d)"
      using t n del dec by (auto simp: tx_delete_def)
    obtain w3 where 3: "db_fault x w2 = (None, w3)" using quiet_steps(1) [OF q] by blast
    obtain w4 where 4: "db_commit x w3 = (None, w4)" using quiet_steps(2) [OF q] by blast
    show ?thesis using True n m 1 2 3 4 del dec by (auto simp: delete_like_def sql_commit_def)
  next
    case False
    note t = tx_delete_not_liked [OF False]
    have n: "n = 0" "d1 = d" using del t by (auto simp: tx_delete_def split: prod.splits if_splits)
    obtain w3 where 3: "sql_meanwhile x (d, w2) = (d, w3)" using quiet_meanwhile [OF q] by blast
    obtain w4 where 4: "sql_read x (sql_count (ct, cid)) (d, w3) = (Inr (sql_count (ct, cid) d), d, w4)"
      using quiet_read [OF q] by blast
    obtain w5 where 5: "db_commit x w4 = (None, w5)" using quiet_steps(2) [OF q] by blast
    show ?thesis using False n t 1 2 3 4 5 del by (auto simp: delete_like_def delete_absent_def sql_commit_def)
  qed
qed

text \<open>C24. Liking is idempotent and unliking undoes it: on a quiet connection a second like changes no
  row and no count, and an unlike after a first like gives back the rows and every count of before.\<close>

theorem like_unlike_roundtrip:
  assumes "quiet x" "db_inv d" "varchar50_ok ct" "\<not> liked user (ct, cid) d"
  shows "let d1 = fst (snd (insert_like x user ct cid (d, w)));
             d2 = fst (snd (insert_like x user ct cid (d1, w1)));
             d3 = fst (snd (delete_like x user ct cid (d2, w2))) in
    likes d2 = likes d1 \<and> like_counts d2 = like_counts d1 \<and> liked user (ct, cid) d1
    \<and> likes d3 = likes d \<and> sql_count c d3 = sql_count c d"
proof -
  let ?k = "(ct, cid)"
  define d1 where "d1 = fst (snd (insert_like x user ct cid (d, w)))"
  define d2 where "d2 = fst (snd (insert_like x user ct cid (d1, w1)))"
  define d3 where "d3 = fst (snd (delete_like x user ct cid (d2, w2)))"
  obtain t1 where e1: "d1 = snd (tx_insert user ?k t1 d)"
    using quiet_insert [OF assms(1,3), of user cid d w] by (auto simp: d1_def)
  obtain t2 where e2: "d2 = snd (tx_insert user ?k t2 d1)"
    using quiet_insert [OF assms(1,3), of user cid d1 w1] by (auto simp: d2_def)
  have i1: "db_inv d1" and l1: "liked user ?k d1"
    using tx_insert_inv [OF assms(2)] by (simp_all add: e1 liked_tx_insert)
  have i2: "db_inv d2" and l2: "liked user ?k d2"
    using tx_insert_inv [OF i1] by (simp_all add: e2 liked_tx_insert)
  have s2: "likes d2 = likes d1" "like_counts d2 = like_counts d1"
    using l1 by (simp_all add: e2 tx_insert_cases Let_def)
  have e3: "d3 = snd (tx_delete user ?k d2)"
    using quiet_delete [OF assms(1) i2, of user ct cid w2] by (auto simp: d3_def)
  have "\<forall>r \<in> set (likes d). like_key r \<noteq> (user, ?k)" using assms(4) by (auto simp: liked_ex)
  then have "filter (\<lambda>r. like_key r \<noteq> (user, ?k)) (likes d1) = likes d"
    using assms(4) by (simp add: e1 tx_insert_cases Let_def filter_id_conv like_key_def like_content_def)
  then have rows: "likes d3 = likes d"
    by (simp add: e3 tx_delete_liked [OF i2 l2] s2)
  have "db_inv d3" using tx_delete_inv [OF i2] by (simp add: e3)
  with rows have "sql_count c d3 = sql_count c d"
    using db_inv_count [of d3 c] db_inv_count [OF assms(2), of c] by (simp add: rows_of_def)
  with rows s2 l1 show ?thesis
    unfolding Let_def d1_def [symmetric] d2_def [symmetric] d3_def [symmetric] by simp
qed

theorem like_unlike_roundtrip_witness:
  "likes (fst (snd (delete_like sample_off 1 ''post'' 7
     (fst (snd (insert_like sample_off 1 ''post'' 7
        (fst (snd (insert_like sample_off 1 ''post'' 7 (db_empty, sample_start))), sample_start))),
      sample_start)))) = likes db_empty"
  using like_unlike_roundtrip [OF sample_quiet [of no_http no_content no_token] db_inv_empty,
      of "''post''" 1 7 sample_start sample_start sample_start]
  by (simp add: Let_def varchar50_ok_def byte_in_def liked_ex db_empty_def)

end
