(* ===== verification/Like_Count_Cache.thy ===== *)
theory Like_Count_Cache
  imports Config Repositories
begin

text \<open>
  \<open>social-api/src/services/like_count_cache.rs\<close>: \<open>LikeCountCache\<close>, the like counts in the cache and
  the reads that fill it. One call is a function here; where it meets another request that fetches
  the same count (\<open>pending_fetches\<close>), the field \<open>peer_fetching\<close> of the world says so and \<open>peer_count\<close>
  is what \<open>await_shared_count\<close> returns. The theory \<open>Coalescing\<close> is the protocol between the requests.
  The component is offered to the query service as the locale \<open>count_source\<close>.
\<close>

section \<open>The operations\<close>

definition map_db_error :: "string \<Rightarrow> app_error" where
  "map_db_error e = Database e"

definition count_cache_key :: "codec \<Rightarrow> string \<Rightarrow> uuid \<Rightarrow> string" where
  "count_cache_key cx ct cid = ''lc:'' @ ct @ '':'' @ uuid_show cx cid"

definition write_count :: "'w ext \<Rightarrow> codec \<Rightarrow> config \<Rightarrow> string \<Rightarrow> uuid \<Rightarrow> int \<Rightarrow> 'w \<Rightarrow> 'w" where
  "write_count x cx cfg ct cid n w =
     cm_set x (count_cache_key cx ct cid) (show_int n) (cache_ttl_like_counts_secs cfg) w"

text \<open>The cache lookup: an entry that is not an \<open>i64\<close> is a miss.\<close>

definition cached_count :: "'w ext \<Rightarrow> codec \<Rightarrow> string \<Rightarrow> uuid \<Rightarrow> 'w \<Rightarrow> int option \<times> 'w" where
  "cached_count x cx ct cid w =
     (case cm_get x (count_cache_key cx ct cid) w of
        (Some cached, w) \<Rightarrow> (parse_i64 cached, w)
      | (None, w) \<Rightarrow> (None, w))"

text \<open>The leader reads the database and writes the cache; a follower takes the leader's count, and reads
  the database itself when none arrives.\<close>

definition lead_count ::
  "'w ext \<Rightarrow> codec \<Rightarrow> config \<Rightarrow> string \<Rightarrow> uuid \<Rightarrow> db \<times> 'w \<Rightarrow> (app_error + int) \<times> db \<times> 'w" where
  "lead_count x cx cfg ct cid s =
     (case get_count x ct cid s of
        (Inr n, d, w) \<Rightarrow> (Inr n, d, write_count x cx cfg ct cid n w)
      | (Inl e, s) \<Rightarrow> (Inl (map_db_error e), s))"

definition follow_count ::
  "'w ext \<Rightarrow> codec \<Rightarrow> string \<Rightarrow> uuid \<Rightarrow> db \<times> 'w \<Rightarrow> (app_error + int) \<times> db \<times> 'w" where
  "follow_count x cx ct cid = (\<lambda>(d, w).
     (case peer_count x (count_cache_key cx ct cid) w of
        (Some n, w) \<Rightarrow> (Inr n, d, w)
      | (None, w) \<Rightarrow>
          (case get_count x ct cid (sql_meanwhile x (d, w)) of (r, s) \<Rightarrow> (map_err map_db_error r, s))))"

definition get_count_value ::
  "'w ext \<Rightarrow> codec \<Rightarrow> config \<Rightarrow> string \<Rightarrow> uuid \<Rightarrow> db \<times> 'w \<Rightarrow> (app_error + int) \<times> db \<times> 'w" where
  "get_count_value x cx cfg ct cid = (\<lambda>(d, w).
     (case cached_count x cx ct cid w of
        (Some n, w) \<Rightarrow> (Inr n, d, w)
      | (None, w) \<Rightarrow>
          (case peer_fetching x (count_cache_key cx ct cid) w of
             (True, w) \<Rightarrow> follow_count x cx ct cid (d, w)
           | (False, w) \<Rightarrow> lead_count x cx cfg ct cid (d, w))))"

section \<open>Batches\<close>

text \<open>\<open>missing_map\<close>: the missing keys, each with the positions it has to fill.\<close>

type_synonym missing = "(string \<times> nat list) list"

fun add_missing :: "string \<Rightarrow> nat \<Rightarrow> missing \<Rightarrow> missing" where
  "add_missing k i [] = [(k, [i])]"
| "add_missing k i ((k', ps) # m) = (if k = k' then (k', ps @ [i]) # m else (k', ps) # add_missing k i m)"

definition cached_at :: "string option list \<Rightarrow> nat \<Rightarrow> string option" where
  "cached_at vs i = (if i < length vs then vs ! i else None)"

definition count_at :: "string option list \<Rightarrow> nat \<Rightarrow> int option" where
  "count_at vs i = (case cached_at vs i of None \<Rightarrow> None | Some s \<Rightarrow> parse_i64 s)"

definition count_row :: "content_key \<Rightarrow> int \<Rightarrow> batch_count_result" where
  "count_row c n = \<lparr>bcr_type = fst c, bcr_content = snd c, bcr_count = n\<rparr>"

fun scan_counts ::
  "codec \<Rightarrow> string option list \<Rightarrow> nat \<Rightarrow> content_key list \<Rightarrow> missing \<Rightarrow> batch_count_result list \<times> missing" where
  "scan_counts cx vs i [] mm = ([], mm)"
| "scan_counts cx vs i (c # items) mm =
     (case count_at vs i of
        Some n \<Rightarrow>
          (case scan_counts cx vs (Suc i) items mm of (rs, mm) \<Rightarrow> (count_row c n # rs, mm))
      | None \<Rightarrow>
          (case scan_counts cx vs (Suc i) items (add_missing (count_cache_key cx (fst c) (snd c)) i mm) of
             (rs, mm) \<Rightarrow> (count_row c 0 # rs, mm)))"

text \<open>The roles: for each missing key, in the order of the map, follow the request that fetches it
  already or lead.\<close>

fun assign_roles :: "'w ext \<Rightarrow> missing \<Rightarrow> 'w \<Rightarrow> (missing \<times> missing) \<times> 'w" where
  "assign_roles x [] w = (([], []), w)"
| "assign_roles x ((k, ps) # mm) w =
     (case peer_fetching x k w of (busy, w) \<Rightarrow>
        (case assign_roles x mm w of ((leads, follows), w) \<Rightarrow>
           (if busy then ((leads, (k, ps) # follows), w) else (((k, ps) # leads, follows), w))))"

definition first_item :: "content_key list \<Rightarrow> nat list \<Rightarrow> content_key" where
  "first_item items ps = items ! hd ps"

fun fill_counts :: "nat list \<Rightarrow> int \<Rightarrow> batch_count_result list \<Rightarrow> batch_count_result list" where
  "fill_counts [] n rs = rs"
| "fill_counts (p # ps) n rs = fill_counts ps n (rs[p := (rs ! p)\<lparr>bcr_count := n\<rparr>])"

text \<open>\<open>count_map.get(item).copied().unwrap_or(0)\<close>; collecting into a map keeps the last row of a key.\<close>

definition row_count :: "(content_key \<times> int) list \<Rightarrow> content_key \<Rightarrow> int" where
  "row_count rows c = (case map_of (rev rows) c of None \<Rightarrow> 0 | Some n \<Rightarrow> n)"

fun fill_leads ::
  "content_key list \<Rightarrow> (content_key \<times> int) list \<Rightarrow> missing \<Rightarrow> batch_count_result list \<Rightarrow> batch_count_result list" where
  "fill_leads items rows [] rs = rs"
| "fill_leads items rows ((k, ps) # leads) rs =
     fill_leads items rows leads (fill_counts ps (row_count rows (first_item items ps)) rs)"

definition lead_entries ::
  "config \<Rightarrow> content_key list \<Rightarrow> (content_key \<times> int) list \<Rightarrow> missing \<Rightarrow> (string \<times> string \<times> nat) list" where
  "lead_entries cfg items rows leads =
     map (\<lambda>(k, ps). (k, show_int (row_count rows (first_item items ps)), cache_ttl_like_counts_secs cfg)) leads"

definition lead_batch ::
  "'w ext \<Rightarrow> config \<Rightarrow> content_key list \<Rightarrow> missing \<Rightarrow> batch_count_result list \<Rightarrow> db \<times> 'w
     \<Rightarrow> (app_error + batch_count_result list) \<times> db \<times> 'w" where
  "lead_batch x cfg items leads rs s =
     (if leads = [] then (Inr rs, s)
      else (case batch_get_counts x (map (\<lambda>(k, ps). first_item items ps) leads) s of
          (Inl e, s) \<Rightarrow> (Inl (map_db_error e), s)
        | (Inr rows, d, w) \<Rightarrow>
            (Inr (fill_leads items rows leads rs), d, cm_set_many x (lead_entries cfg items rows leads) w)))"

fun await_followers ::
  "'w ext \<Rightarrow> codec \<Rightarrow> config \<Rightarrow> content_key list \<Rightarrow> missing \<Rightarrow> batch_count_result list \<Rightarrow> db \<times> 'w
     \<Rightarrow> (app_error + batch_count_result list) \<times> db \<times> 'w" where
  "await_followers x cx cfg items [] rs s = (Inr rs, s)"
| "await_followers x cx cfg items ((k, ps) # follows) rs (d, w) =
     (case peer_count x k w of
        (Some n, w) \<Rightarrow> await_followers x cx cfg items follows (fill_counts ps n rs) (d, w)
      | (None, w) \<Rightarrow>
          (case first_item items ps of (ct, cid) \<Rightarrow>
             (case get_count x ct cid (sql_meanwhile x (d, w)) of
                (Inl e, s) \<Rightarrow> (Inl (map_db_error e), s)
              | (Inr n, d, w) \<Rightarrow>
                  await_followers x cx cfg items follows (fill_counts ps n rs)
                    (d, write_count x cx cfg ct cid n w))))"

definition batch_counts ::
  "'w ext \<Rightarrow> codec \<Rightarrow> config \<Rightarrow> content_key list \<Rightarrow> db \<times> 'w
     \<Rightarrow> (app_error + batch_count_result list) \<times> db \<times> 'w" where
  "batch_counts x cx cfg items = (\<lambda>(d, w).
     (if length items > 100 then (Inl (BatchTooLarge (length items) 100), d, w)
      else (case cm_mget x (map (\<lambda>c. count_cache_key cx (fst c) (snd c)) items) w of (vs, w) \<Rightarrow>
        (case scan_counts cx vs 0 items [] of (rs, mm) \<Rightarrow>
          (if mm = [] then (Inr rs, d, w)
           else (case hash_order x w of (p, w) \<Rightarrow>
             (case assign_roles x (permute_by p mm) w of ((leads, follows), w) \<Rightarrow>
               (case lead_batch x cfg items leads rs (d, w) of
                  (Inl e, s) \<Rightarrow> (Inl e, s)
                | (Inr rs, s) \<Rightarrow> await_followers x cx cfg items follows rs s))))))))"

section \<open>What the counts are\<close>

text \<open>An arbitrary meaning \<open>P c n\<close> of "n is a count of c": what the databases answer, what the cache
  holds and what other requests deliver has it, so what is returned has it.\<close>

definition counts_ok :: "(content_key \<Rightarrow> int \<Rightarrow> bool) \<Rightarrow> db \<Rightarrow> bool" where
  "counts_ok P d \<longleftrightarrow> (\<forall>c. P c (sql_count c d))"

lemma counts_okD: "counts_ok P d \<Longrightarrow> P c (sql_count c d)"
  by (simp add: counts_ok_def del: split_paired_All)

definition lc_entry :: "codec \<Rightarrow> (content_key \<Rightarrow> int \<Rightarrow> bool) \<Rightarrow> string \<Rightarrow> string \<Rightarrow> bool" where
  "lc_entry cx P k v \<longleftrightarrow>
     (\<forall>ct cid n. k = count_cache_key cx ct cid \<longrightarrow> parse_i64 v = Some n \<longrightarrow> P (ct, cid) n)"

definition count_env ::
  "'w ext \<Rightarrow> codec \<Rightarrow> ('w \<Rightarrow> string \<Rightarrow> string \<Rightarrow> bool) \<Rightarrow> (content_key \<Rightarrow> int \<Rightarrow> bool) \<Rightarrow> bool" where
  "count_env x cx H P \<longleftrightarrow> store_ok x H \<and> uuid_codec_ok cx
     \<and> (\<forall>w. is_ordering (fst (hash_order x w))) \<and> (\<forall>w. is_ordering (fst (db_plan x w)))
     \<and> (\<forall>w d. counts_ok P d \<longrightarrow> counts_ok P (fst (db_others x w) d))
     \<and> (\<forall>ct cid w n. fst (peer_count x (count_cache_key cx ct cid) w) = Some n \<longrightarrow> P (ct, cid) n)"

lemma count_cache_key_inject:
  "uuid_codec_ok cx \<Longrightarrow> count_cache_key cx a u = count_cache_key cx b v \<longleftrightarrow> a = b \<and> u = v"
  by (simp add: count_cache_key_def colon_key_inject)

lemma lc_entry_own:
  "uuid_codec_ok cx \<Longrightarrow>
   lc_entry cx P (count_cache_key cx ct cid) v \<longleftrightarrow> (\<forall>n. parse_i64 v = Some n \<longrightarrow> P (ct, cid) n)"
  by (auto simp: lc_entry_def count_cache_key_inject)

lemma lc_entry_other: "take 3 k \<noteq> ''lc:'' \<Longrightarrow> lc_entry cx P k v"
  by (auto simp: lc_entry_def count_cache_key_def)

lemma lc_entry_show:
  "uuid_codec_ok cx \<Longrightarrow> P (ct, cid) n \<Longrightarrow> lc_entry cx P (count_cache_key cx ct cid) (show_int n)"
  by (auto simp: lc_entry_own parse_i64_def split: option.splits if_splits)

text \<open>The state of a call: the reader database and the cache.\<close>

definition count_state ::
  "codec \<Rightarrow> ('w \<Rightarrow> string \<Rightarrow> string \<Rightarrow> bool) \<Rightarrow> (content_key \<Rightarrow> int \<Rightarrow> bool) \<Rightarrow> db \<times> 'w \<Rightarrow> bool" where
  "count_state cx H P s \<longleftrightarrow> counts_ok P (fst s) \<and> entries H (lc_entry cx P) (snd s)"

lemma count_state_world:
  "count_state cx H P (d, w) \<Longrightarrow> shrinks H w w' \<Longrightarrow> count_state cx H P (d, w')"
  by (auto simp: count_state_def intro: entries_shrinks)

lemma meanwhile_state:
  assumes "count_env x cx H P" "count_state cx H P s" "sql_meanwhile x s = s'"
  shows "count_state cx H P s'"
proof -
  obtain d w where s: "s = (d, w)" by fastforce
  obtain f w' where o: "db_others x w = (f, w')" by fastforce
  have ok: "store_ok x H" and f: "counts_ok P (f d)"
    using assms(1,2) o s unfolding count_env_def count_state_def by (metis fst_conv)+
  have "entries H (lc_entry cx P) w'"
    using store_shrinks(20) [OF ok o] assms(2) s by (auto simp: count_state_def intro: entries_shrinks)
  with f show ?thesis using assms(3) s o by (auto simp: sql_meanwhile_def count_state_def)
qed

lemma read_state:
  assumes "count_env x cx H P" "count_state cx H P s" "sql_read x q s = (r, s')"
  shows "count_state cx H P s' \<and> (\<forall>v. r = Inr v \<longrightarrow> v = q (fst s) \<and> fst s' = fst s)"
proof -
  obtain d w where s: "s = (d, w)" by fastforce
  obtain f w' where o: "db_fault x w = (f, w')" by fastforce
  have "store_ok x H" using assms(1) by (simp add: count_env_def)
  from store_shrinks(18) [OF this o] count_state_world [of cx H P d w w'] show ?thesis
    using assms(2,3) s o by (auto simp: sql_read_def split: option.splits)
qed

lemma count_read:
  assumes "count_env x cx H P" "count_state cx H P s" "get_count x ct cid s = (r, s')"
  shows "count_state cx H P s' \<and> (\<forall>n. r = Inr n \<longrightarrow> P (ct, cid) n)"
  using read_state [OF assms(1,2) assms(3) [unfolded get_count_def]] assms(2)
  by (auto simp: count_state_def counts_ok_def)

lemma write_count_state:
  assumes "count_env x cx H P" "count_state cx H P (d, w)" "P (ct, cid) n"
  shows "count_state cx H P (d, write_count x cx cfg ct cid n w)"
  using assms cm.put_entry [of x H "lc_entry cx P" w] lc_entry_show [of cx P ct cid n]
  by (auto simp: count_state_def count_env_def write_count_def)

lemma follow_count_sound:
  assumes env: "count_env x cx H P" and st: "count_state cx H P s"
    and run: "follow_count x cx ct cid s = (r, s')"
  shows "count_state cx H P s' \<and> (\<forall>n. r = Inr n \<longrightarrow> P (ct, cid) n)"
proof -
  obtain d w where s: "s = (d, w)" by fastforce
  obtain m w1 where p: "peer_count x (count_cache_key cx ct cid) w = (m, w1)" by fastforce
  have ok: "store_ok x H" using env by (simp add: count_env_def)
  have st1: "count_state cx H P (d, w1)"
    using count_state_world [OF st [unfolded s] store_shrinks(25) [OF ok p]] .
  have m: "P (ct, cid) n" if "m = Some n" for n
  proof -
    have "fst (peer_count x (count_cache_key cx ct cid) w) = Some n" using p that by simp
    then show ?thesis using env unfolding count_env_def by blast
  qed
  obtain q s2 where g: "get_count x ct cid (sql_meanwhile x (d, w1)) = (q, s2)" by (metis surj_pair)
  note q = count_read [OF env meanwhile_state [OF env st1 refl] g]
  show ?thesis using run s p st1 m g q by (cases m) (auto simp: follow_count_def)
qed

lemma lead_count_sound:
  assumes env: "count_env x cx H P" and st: "count_state cx H P s"
    and run: "lead_count x cx cfg ct cid s = (r, s')"
  shows "count_state cx H P s' \<and> (\<forall>n. r = Inr n \<longrightarrow> P (ct, cid) n)"
proof -
  obtain q d w where g: "get_count x ct cid s = (q, d, w)" by (metis prod_cases3)
  note q = count_read [OF env st g]
  show ?thesis
    using run g q write_count_state [OF env, of d w ct cid] by (cases q) (auto simp: lead_count_def)
qed

lemma cached_count_sound:
  assumes env: "count_env x cx H P" and st: "count_state cx H P (d, w)"
    and run: "cached_count x cx ct cid w = (r, w')"
  shows "count_state cx H P (d, w') \<and> (\<forall>n. r = Some n \<longrightarrow> P (ct, cid) n)"
proof -
  obtain c w1 where g: "cm_get x (count_cache_key cx ct cid) w = (c, w1)" by fastforce
  have ok: "store_ok x H" and u: "uuid_codec_ok cx" using env by (simp_all add: count_env_def)
  have "entries H (lc_entry cx P) w" using st by (simp add: count_state_def)
  note h = cm.get_entry [OF ok this g]
  have st1: "count_state cx H P (d, w1)" using h st by (simp add: count_state_def)
  show ?thesis
    using run g st1 h lc_entry_own [OF u, of P ct cid] by (cases c) (auto simp: cached_count_def)
qed

lemma get_count_value_sound:
  assumes env: "count_env x cx H P" and st: "count_state cx H P s"
    and run: "get_count_value x cx cfg ct cid s = (r, s')"
  shows "count_state cx H P s' \<and> (\<forall>n. r = Inr n \<longrightarrow> P (ct, cid) n)"
proof -
  obtain d w where s: "s = (d, w)" by fastforce
  obtain c w1 where c: "cached_count x cx ct cid w = (c, w1)" by fastforce
  obtain b w2 where b: "peer_fetching x (count_cache_key cx ct cid) w1 = (b, w2)" by fastforce
  have ok: "store_ok x H" using env by (simp add: count_env_def)
  note h = cached_count_sound [OF env st [unfolded s] c]
  have st2: "count_state cx H P (d, w2)" using count_state_world [OF _ store_shrinks(24) [OF ok b]] h by blast
  show ?thesis
    using run s c h b follow_count_sound [OF env st2] lead_count_sound [OF env st2]
    by (cases c; cases b) (auto simp: get_count_value_def)
qed

section \<open>Batches are complete and in order\<close>

definition positions :: "missing \<Rightarrow> nat set" where
  "positions mm = \<Union> (set ` snd ` set mm)"

definition mm_ok :: "codec \<Rightarrow> content_key list \<Rightarrow> missing \<Rightarrow> bool" where
  "mm_ok cx items mm \<longleftrightarrow>
     (\<forall>(k, ps) \<in> set mm. ps \<noteq> [] \<and> (\<forall>i \<in> set ps. i < length items
        \<and> k = count_cache_key cx (fst (items ! i)) (snd (items ! i))))"

text \<open>The results so far: one row per item, in order, and a good count in each, the positions \<open>M\<close> apart.\<close>

definition filled ::
  "(content_key \<Rightarrow> int \<Rightarrow> bool) \<Rightarrow> content_key list \<Rightarrow> nat set \<Rightarrow> batch_count_result list \<Rightarrow> bool" where
  "filled P items M rs \<longleftrightarrow> length rs = length items \<and>
     (\<forall>i < length items. rs ! i = count_row (items ! i) (bcr_count (rs ! i))
        \<and> (i \<notin> M \<longrightarrow> P (items ! i) (bcr_count (rs ! i))))"

lemma positions_simps [simp]:
  "positions [] = {}" "positions ((k, ps) # mm) = set ps \<union> positions mm"
  by (auto simp: positions_def)

lemma mm_ok_simps [simp]:
  "mm_ok cx items []"
  "mm_ok cx items ((k, ps) # mm) \<longleftrightarrow> ps \<noteq> [] \<and> (\<forall>i \<in> set ps. i < length items
      \<and> k = count_cache_key cx (fst (items ! i)) (snd (items ! i))) \<and> mm_ok cx items mm"
  by (auto simp: mm_ok_def)

lemma positions_add [simp]: "positions (add_missing k i mm) = insert i (positions mm)"
  by (induction mm) (auto split: if_splits)

lemma mm_ok_add:
  "mm_ok cx items mm \<Longrightarrow> i < length items \<Longrightarrow> k = count_cache_key cx (fst (items ! i)) (snd (items ! i)) \<Longrightarrow>
   mm_ok cx items (add_missing k i mm)"
  by (induction mm) auto

lemma first_item_position:
  "uuid_codec_ok cx \<Longrightarrow> mm_ok cx items ((k, ps) # mm) \<Longrightarrow> i \<in> set ps \<Longrightarrow>
   items ! i = first_item items ps \<and> i < length items"
proof -
  assume u: "uuid_codec_ok cx" and m: "mm_ok cx items ((k, ps) # mm)" and i: "i \<in> set ps"
  then have h: "hd ps \<in> set ps" by simp
  have eq: "k = count_cache_key cx (fst (items ! j)) (snd (items ! j)) \<and> j < length items" if "j \<in> set ps" for j
    using m that by simp
  show ?thesis
    using eq [OF i] eq [OF h] count_cache_key_inject [OF u] by (simp add: first_item_def prod_eq_iff)
qed

lemma key_of_first:
  "mm_ok cx items ((k, ps) # mm) \<Longrightarrow>
   k = count_cache_key cx (fst (first_item items ps)) (snd (first_item items ps))"
  by (simp add: first_item_def)

lemma count_row_update: "r = count_row c (bcr_count r) \<Longrightarrow> r\<lparr>bcr_count := n\<rparr> = count_row c n"
  by (cases r) (simp add: count_row_def)

lemma count_row_count [simp]: "bcr_count (count_row c n) = n"
  by (simp add: count_row_def)

lemma filled_fill_counts:
  assumes "filled P items M rs" "\<forall>i \<in> set ps. i < length items \<and> P (items ! i) n"
  shows "filled P items (M - set ps) (fill_counts ps n rs)"
  using assms
proof (induction ps arbitrary: M rs)
  case (Cons p ps)
  have "filled P items (M - {p}) (rs[p := (rs ! p)\<lparr>bcr_count := n\<rparr>])"
    using Cons.prems by (auto simp: filled_def nth_list_update count_row_update)
  from Cons.IH [OF this] Cons.prems(2) show ?case by (simp add: Diff_insert2 [symmetric] insert_Diff_if)
qed (simp add: filled_def)

lemma filled_entry:
  assumes "filled P items M rs" "uuid_codec_ok cx" "mm_ok cx items ((k, ps) # mm)" "P (first_item items ps) n"
  shows "filled P items (M - set ps) (fill_counts ps n rs)"
proof (rule filled_fill_counts [OF assms(1)], rule ballI)
  fix i assume "i \<in> set ps"
  from first_item_position [OF assms(2,3) this] assms(4)
  show "i < length items \<and> P (items ! i) n" by metis
qed

lemma scan_counts_filled:
  assumes "scan_counts cx vs i suf mm = (rs, mm')" "suf = drop i items" "i \<le> length items"
    "mm_ok cx items mm"
  shows "mm_ok cx items mm' \<and> positions mm \<subseteq> positions mm' \<and> length rs = length suf
     \<and> (\<forall>j < length suf. rs ! j = count_row (suf ! j) (bcr_count (rs ! j))
          \<and> (i + j \<notin> positions mm' \<longrightarrow> count_at vs (i + j) = Some (bcr_count (rs ! j))))"
  using assms
proof (induction suf arbitrary: i mm rs mm')
  case Nil
  then show ?case by simp
next
  case (Cons c suf)
  have i: "i < length items" using Cons.prems(2) by (cases "i < length items") auto
  have c: "c = items ! i" and suf: "suf = drop (Suc i) items"
    using Cons.prems(2) i by (simp_all add: Cons_nth_drop_Suc [symmetric])
  have head: ?case
    if run: "scan_counts cx vs (Suc i) suf mm1 = (rs1, mm')" and ok: "mm_ok cx items mm1"
      and sub: "positions mm \<subseteq> positions mm1" and rs: "rs = count_row c n # rs1"
      and n: "i \<notin> positions mm1 \<Longrightarrow> count_at vs i = Some n" for mm1 rs1 n
  proof -
    note ih = Cons.IH [OF run suf _ ok]
    have all: "(count_row c n # rs1) ! j = count_row ((c # suf) ! j) (bcr_count ((count_row c n # rs1) ! j))
        \<and> (i + j \<notin> positions mm' \<longrightarrow> count_at vs (i + j) = Some (bcr_count ((count_row c n # rs1) ! j)))"
      if "j < Suc (length suf)" for j
      using ih n i that sub by (cases j) auto
    show ?thesis using ih i sub rs all by auto
  qed
  show ?case
  proof (cases "count_at vs i")
    case (Some n)
    obtain rs1 where "scan_counts cx vs (Suc i) suf mm = (rs1, mm')" "rs = count_row c n # rs1"
      using Cons.prems(1) Some by (auto split: prod.splits)
    from head [OF this(1) Cons.prems(4) _ this(2)] Some show ?thesis by blast
  next
    case None
    let ?m = "add_missing (count_cache_key cx (fst c) (snd c)) i mm"
    obtain rs1 where r: "scan_counts cx vs (Suc i) suf ?m = (rs1, mm')" "rs = count_row c 0 # rs1"
      using Cons.prems(1) None by (auto split: prod.splits)
    have "mm_ok cx items ?m" using mm_ok_add [OF Cons.prems(4) i] c by simp
    from head [OF r(1) this _ r(2)] show ?thesis by auto
  qed
qed

lemma mm_ok_subset: "mm_ok cx items mm \<Longrightarrow> set mm' \<subseteq> set mm \<Longrightarrow> mm_ok cx items mm'"
  by (auto simp: mm_ok_def)

lemma positions_set: "set mm = set mm1 \<union> set mm2 \<Longrightarrow> positions mm = positions mm1 \<union> positions mm2"
  by (auto simp: positions_def)

lemma assign_roles_split:
  "assign_roles x mm w = ((leads, follows), w') \<Longrightarrow> store_ok x H \<Longrightarrow>
   set mm = set leads \<union> set follows \<and> shrinks H w w'"
proof (induction mm arbitrary: w w' leads follows)
  case (Cons e mm)
  obtain k ps where e: "e = (k, ps)" by fastforce
  obtain b w1 where p: "peer_fetching x k w = (b, w1)" by fastforce
  obtain l f w2 where r: "assign_roles x mm w1 = ((l, f), w2)" by (metis prod_cases3 surj_pair)
  note s = store_shrinks(24) [OF Cons.prems(2) p]
  show ?case using Cons.prems(1) e p r Cons.IH [OF r Cons.prems(2)] shrinks_trans [OF s]
    by (auto split: if_splits)
qed simp

lemma row_count_read:
  assumes "is_ordering p" "c \<in> set cs"
  shows "row_count (permute_by p (map (\<lambda>c. (c, sql_count c d)) cs)) c = sql_count c d"
proof -
  let ?rows = "permute_by p (map (\<lambda>c. (c, sql_count c d)) cs)"
  have rows: "set (rev ?rows) = (\<lambda>c. (c, sql_count c d)) ` set cs"
    by (simp add: set_permute_by [OF assms(1)])
  have "(c, sql_count c d) \<in> set (rev ?rows)" unfolding rows using assms(2) by (rule imageI)
  from weak_map_of_SomeI [OF this] obtain n where n: "map_of (rev ?rows) c = Some n" ..
  then have "(c, n) \<in> set (rev ?rows)" by (rule map_of_SomeD)
  with rows have "n = sql_count c d" by auto
  with n show ?thesis by (simp add: row_count_def)
qed

lemma batch_get_counts_read:
  assumes env: "count_env x cx H P" and st: "count_state cx H P s"
    and run: "batch_get_counts x items s = (r, s')"
  shows "count_state cx H P s' \<and> (\<forall>rows. r = Inr rows \<longrightarrow> (\<forall>c \<in> set items. P c (row_count rows c)))"
proof (cases "items = []")
  case True
  then show ?thesis using run st by (auto simp: batch_get_counts_def split: prod.splits)
next
  case False
  obtain d w where s: "s = (d, w)" by fastforce
  obtain p w1 where p: "db_plan x w = (p, w1)" by fastforce
  have ok: "store_ok x H" and ord: "is_ordering p"
    using env p unfolding count_env_def by (simp, metis fst_conv)
  have st1: "count_state cx H P (d, w1)"
    using count_state_world [OF st [unfolded s] store_shrinks(22) [OF ok p]] .
  have run1: "sql_read x (\<lambda>d. permute_by p (map (\<lambda>c. (c, sql_count c d)) items)) (d, w1) = (r, s')"
    using run False s p by (simp add: batch_get_counts_def)
  note q = read_state [OF env st1 run1]
  have "P c (row_count rows c)" if "r = Inr rows" "c \<in> set items" for rows c
    using q that counts_okD [of P d c] st1 row_count_read [OF ord that(2), of d]
    by (auto simp: count_state_def)
  with q show ?thesis by blast
qed

lemma fill_leads_filled:
  assumes "filled P items M rs" "mm_ok cx items leads" "uuid_codec_ok cx"
    "\<forall>(k, ps) \<in> set leads. P (first_item items ps) (row_count rows (first_item items ps))"
  shows "filled P items (M - positions leads) (fill_leads items rows leads rs)"
  using assms
proof (induction leads arbitrary: M rs)
  case (Cons e leads)
  obtain k ps where e: "e = (k, ps)" by fastforce
  let ?n = "row_count rows (first_item items ps)"
  have mm: "mm_ok cx items leads" using Cons.prems(2) e by (simp only: mm_ok_simps)
  have "P (first_item items ps) ?n" using Cons.prems(4) e by simp
  from filled_entry [OF Cons.prems(1,3) Cons.prems(2) [unfolded e] this]
  have "filled P items (M - set ps - positions leads) (fill_leads items rows leads (fill_counts ps ?n rs))"
    by (rule Cons.IH [OF _ mm Cons.prems(3)]) (use Cons.prems(4) in simp)
  then show ?case using e by (simp add: Diff_eq Int_assoc)
qed simp

lemma lead_batch_sound:
  assumes env: "count_env x cx H P" and st: "count_state cx H P s"
    and mm: "mm_ok cx items leads" and f: "filled P items M rs"
    and run: "lead_batch x cfg items leads rs s = (r, s')"
  shows "count_state cx H P s' \<and> (\<forall>rs'. r = Inr rs' \<longrightarrow> filled P items (M - positions leads) rs')"
proof (cases "leads = []")
  case True
  then show ?thesis using run st f by (auto simp: lead_batch_def)
next
  case False
  let ?fs = "map (\<lambda>(k, ps). first_item items ps) leads"
  obtain q d w where g: "batch_get_counts x ?fs s = (q, d, w)" by (metis prod_cases3)
  have ok: "store_ok x H" and u: "uuid_codec_ok cx" using env by (simp_all add: count_env_def)
  note b = batch_get_counts_read [OF env st g]
  have good: "\<forall>(k, ps) \<in> set leads. P (first_item items ps) (row_count rows (first_item items ps))"
    if "q = Inr rows" for rows
    using b that by fastforce
  have put: "count_state cx H P (d, cm_set_many x (lead_entries cfg items rows leads) w)" if "q = Inr rows" for rows
  proof -
    have "lc_entry cx P k (show_int (row_count rows (first_item items ps)))" if "(k, ps) \<in> set leads" for k ps
    proof -
      have "mm_ok cx items ((k, ps) # [])" using mm that by (auto simp: mm_ok_def)
      from key_of_first [OF this] show ?thesis
        using lc_entry_show [OF u, of P "fst (first_item items ps)" "snd (first_item items ps)"]
          good [OF \<open>q = Inr rows\<close>] that by auto
    qed
    then have "\<forall>(k, v, t) \<in> set (lead_entries cfg items rows leads). lc_entry cx P k v"
      by (auto simp: lead_entries_def)
    then show ?thesis using b cm.put_many_entries [OF ok, of "lc_entry cx P" w] by (simp add: count_state_def)
  qed
  show ?thesis
    using run False g b put fill_leads_filled [OF f mm u good] by (cases q) (auto simp: lead_batch_def)
qed

lemma await_followers_sound:
  assumes env: "count_env x cx H P"
  shows "await_followers x cx cfg items follows rs s = (r, s') \<Longrightarrow> count_state cx H P s \<Longrightarrow>
     mm_ok cx items follows \<Longrightarrow> filled P items M rs \<Longrightarrow>
     count_state cx H P s' \<and> (\<forall>rs'. r = Inr rs' \<longrightarrow> filled P items (M - positions follows) rs')"
proof (induction follows arbitrary: rs s M)
  case Nil
  then show ?case by (cases s) auto
next
  case (Cons e follows)
  obtain k ps where e: "e = (k, ps)" by fastforce
  obtain d w where s: "s = (d, w)" by fastforce
  obtain ct cid where c: "first_item items ps = (ct, cid)" by fastforce
  obtain m w1 where p: "peer_count x k w = (m, w1)" by fastforce
  obtain q d2 w2 where g: "get_count x ct cid (sql_meanwhile x (d, w1)) = (q, d2, w2)" by (metis prod_cases3)
  have ok: "store_ok x H" and u: "uuid_codec_ok cx" using env by (simp_all add: count_env_def)
  have k: "k = count_cache_key cx ct cid" using key_of_first [OF Cons.prems(3) [unfolded e]] c by simp
  have st1: "count_state cx H P (d, w1)"
    using count_state_world [OF Cons.prems(2) [unfolded s] store_shrinks(25) [OF ok p]] .
  note q = count_read [OF env meanwhile_state [OF env st1 refl] g]
  have m: "P (ct, cid) n" if "m = Some n" for n
  proof -
    have "fst (peer_count x (count_cache_key cx ct cid) w) = Some n" using p that k by simp
    then show ?thesis using env unfolding count_env_def by blast
  qed
  have fill: "filled P items (M - set ps) (fill_counts ps n rs)" if "P (ct, cid) n" for n
    using filled_entry [OF Cons.prems(4) u Cons.prems(3) [unfolded e]] c that by simp
  have mm: "mm_ok cx items follows" using Cons.prems(3) e by (simp only: mm_ok_simps)
  have diff: "M - positions (e # follows) = M - set ps - positions follows" using e by auto
  show ?case
  proof (cases m)
    case (Some n)
    then show ?thesis
      using Cons.prems(1) e s p Cons.IH [OF _ st1 mm fill [OF m [OF Some]]] diff by simp
  next
    case None
    show ?thesis
    proof (cases q)
      case (Inl a)
      then show ?thesis using Cons.prems(1) e s p None c g q by auto
    next
      case (Inr n)
      then have n: "P (ct, cid) n" using q by simp
      have "count_state cx H P (d2, write_count x cx cfg ct cid n w2)"
        using write_count_state [OF env _ n] q by blast
      from Cons.IH [OF _ this mm fill [OF n]] show ?thesis
        using Cons.prems(1) e s p None c g Inr diff by simp
    qed
  qed
qed

text \<open>A whole batch.\<close>

lemma batch_counts_sound:
  assumes env: "count_env x cx H P" and st: "count_state cx H P s"
    and run: "batch_counts x cx cfg items s = (r, s')"
  shows "count_state cx H P s' \<and> (\<forall>rs. r = Inr rs \<longrightarrow> filled P items {} rs \<and> length items \<le> 100)"
proof (cases "length items > 100")
  case True
  then show ?thesis using run st by (cases s) (auto simp: batch_counts_def)
next
  case False
  obtain d w where s: "s = (d, w)" by fastforce
  let ?keys = "map (\<lambda>c. count_cache_key cx (fst c) (snd c)) items"
  obtain vs w1 where g: "cm_mget x ?keys w = (vs, w1)" by fastforce
  obtain rs mm where sc: "scan_counts cx vs 0 items [] = (rs, mm)" by fastforce
  obtain p w2 where h: "hash_order x w1 = (p, w2)" by fastforce
  obtain l f w3 where a: "assign_roles x (permute_by p mm) w2 = ((l, f), w3)" by (metis prod_cases3 surj_pair)
  have ok: "store_ok x H" and u: "uuid_codec_ok cx" and ord: "is_ordering p"
    using env h unfolding count_env_def by (simp, simp, metis fst_conv)
  have "entries H (lc_entry cx P) w" using st s by (simp add: count_state_def)
  note mg = cm.mget_entries [OF ok this g]
  have st1: "count_state cx H P (d, w1)" using mg st s by (simp add: count_state_def)
  have scan: "mm_ok cx items mm" "length rs = length items"
    "\<forall>j < length items. rs ! j = count_row (items ! j) (bcr_count (rs ! j))
        \<and> (j \<notin> positions mm \<longrightarrow> count_at vs j = Some (bcr_count (rs ! j)))"
    using scan_counts_filled [OF sc, of items] by auto
  have len: "length vs = length items" using cm_mget_length [OF ok g] by simp
  have hit: "P (items ! j) n" if "count_at vs j = Some n" "j < length items" for j n
    using that mg len lc_entry_own [OF u, of P "fst (items ! j)" "snd (items ! j)"]
    by (auto simp: count_at_def cached_at_def list_all2_conv_all_nth split: option.splits if_splits)
  have f0: "filled P items (positions mm) rs" unfolding filled_def
  proof (intro conjI allI impI)
    fix i assume i: "i < length items"
    show "rs ! i = count_row (items ! i) (bcr_count (rs ! i))" using scan(3) i by blast
    assume "i \<notin> positions mm"
    with scan(3) i have "count_at vs i = Some (bcr_count (rs ! i))" by blast
    then show "P (items ! i) (bcr_count (rs ! i))" using i by (rule hit)
  qed (rule scan(2))
  note roles = assign_roles_split [OF a ok]
  have split: "set mm = set l \<union> set f" using roles set_permute_by [OF ord, of mm] by simp
  have mm: "mm_ok cx items l" "mm_ok cx items f"
    using mm_ok_subset [OF scan(1)] split by auto
  have st3: "count_state cx H P (d, w3)"
    using count_state_world [OF count_state_world [OF st1 store_shrinks(23) [OF ok h]]] roles by blast
  obtain q s4 where b: "lead_batch x cfg items l rs (d, w3) = (q, s4)" by (metis surj_pair)
  note lb = lead_batch_sound [OF env st3 mm(1) f0 b]
  have diff: "positions mm - positions l - positions f = {}" using positions_set [OF split] by blast
  show ?thesis
  proof (cases "mm = []")
    case True
    then show ?thesis using run False s g sc st1 f0 by (auto simp: batch_counts_def)
  next
    case ne: False
    show ?thesis
    proof (cases q)
      case (Inl e)
      then show ?thesis using run False s g sc ne h a b lb by (auto simp: batch_counts_def)
    next
      case (Inr rs1)
      have "await_followers x cx cfg items f rs1 s4 = (r, s')"
        using run False s g sc ne h a b Inr by (simp add: batch_counts_def)
      note fo = await_followers_sound [OF env this _ mm(2), of "positions mm - positions l", unfolded diff]
      show ?thesis using fo lb Inr False by (simp add: linorder_not_less)
    qed
  qed
qed

section \<open>The interface\<close>

text \<open>What the query service relies on. Two meanings of "count" at once give what a single read and a
  batch say of one item: they agree wherever the meaning leaves no choice.\<close>

locale count_source =
  fixes single :: "'w ext \<Rightarrow> codec \<Rightarrow> config \<Rightarrow> string \<Rightarrow> uuid \<Rightarrow> db \<times> 'w \<Rightarrow> (app_error + int) \<times> db \<times> 'w"
    and batch :: "'w ext \<Rightarrow> codec \<Rightarrow> config \<Rightarrow> content_key list \<Rightarrow> db \<times> 'w
        \<Rightarrow> (app_error + batch_count_result list) \<times> db \<times> 'w"
    and env :: "'w ext \<Rightarrow> codec \<Rightarrow> ('w \<Rightarrow> string \<Rightarrow> string \<Rightarrow> bool) \<Rightarrow> (content_key \<Rightarrow> int \<Rightarrow> bool) \<Rightarrow> bool"
  assumes single_law: "env x cx H P \<Longrightarrow> count_state cx H P s \<Longrightarrow> single x cx cfg ct cid s = (r, s') \<Longrightarrow>
      count_state cx H P s' \<and> (\<forall>n. r = Inr n \<longrightarrow> P (ct, cid) n)"
    and batch_law: "env x cx H P \<Longrightarrow> count_state cx H P s \<Longrightarrow> batch x cx cfg items s = (q, s') \<Longrightarrow>
      count_state cx H P s' \<and> (\<forall>rs. q = Inr rs \<longrightarrow> filled P items {} rs \<and> length items \<le> 100)"
begin

lemma batch_rows:
  assumes "env x cx H P" "count_state cx H P s" "batch x cx cfg items s = (Inr rs, s')"
  shows "map (\<lambda>r. (bcr_type r, bcr_content r)) rs = items \<and> list_all2 (\<lambda>c r. P c (bcr_count r)) items rs"
proof -
  have f: "filled P items {} rs" using batch_law [OF assms] by blast
  have t: "(bcr_type (rs ! i), bcr_content (rs ! i)) = items ! i" if "i < length items" for i
  proof -
    have "rs ! i = count_row (items ! i) (bcr_count (rs ! i))" using f that by (simp add: filled_def)
    then have "bcr_type (rs ! i) = fst (items ! i)" "bcr_content (rs ! i) = snd (items ! i)"
      unfolding count_row_def by (metis batch_count_result.select_convs(1), metis batch_count_result.select_convs(2))
    then show ?thesis by simp
  qed
  show ?thesis
    using f t by (auto simp: filled_def list_all2_conv_all_nth intro!: nth_equalityI)
qed

text \<open>A single read after a batch says the same of every item in it, where the count is determined.\<close>

lemma single_after_batch:
  assumes "env x cx H (\<lambda>c n. n = f c)" "count_state cx H (\<lambda>c n. n = f c) s"
    "batch x cx cfg items s = (Inr rs, s1)" "single x cx cfg ct cid s1 = (Inr n, s2)" "r \<in> set rs"
    "(bcr_type r, bcr_content r) = (ct, cid)"
  shows "bcr_count r = n"
proof -
  have b: "count_state cx H (\<lambda>c n. n = f c) s1" using batch_law [OF assms(1-3)] by blast
  have "n = f (ct, cid)" using single_law [OF assms(1) b assms(4)] by blast
  moreover obtain i where "i < length rs" "rs ! i = r" using assms(5) by (auto simp: in_set_conv_nth)
  moreover have "map (\<lambda>r. (bcr_type r, bcr_content r)) rs = items"
    "list_all2 (\<lambda>c r. bcr_count r = f c) items rs"
    using batch_rows [OF assms(1-3)] by auto
  ultimately show ?thesis using assms(6) by (auto simp: list_all2_conv_all_nth)
qed

end

interpretation lcc: count_source get_count_value batch_counts count_env
proof
  fix x :: "'a ext" and cx cfg H P s ct cid r s'
  assume "count_env x cx H P" "count_state cx H P s" "get_count_value x cx cfg ct cid s = (r, s')"
  then show "count_state cx H P s' \<and> (\<forall>n. r = Inr n \<longrightarrow> P (ct, cid) n)" by (rule get_count_value_sound)
next
  fix x :: "'a ext" and cx cfg H P s items q s'
  assume "count_env x cx H P" "count_state cx H P s" "batch_counts x cx cfg items s = (q, s')"
  then show "count_state cx H P s' \<and> (\<forall>rs. q = Inr rs \<longrightarrow> filled P items {} rs \<and> length items \<le> 100)"
    by (rule batch_counts_sound)
qed

section \<open>Properties\<close>

lemma batch_counts_error:
  assumes "batch_counts x cx cfg items s = (Inl e, s')"
  shows "if length items > 100 then e = BatchTooLarge (length items) 100 else \<exists>m. e = Database m"
proof -
  have lead: "\<exists>m. e = Database m" if "lead_batch x cfg its leads rs t = (Inl e, t')" for its leads rs t t'
    using that by (auto simp: lead_batch_def map_db_error_def split: if_splits sum.splits prod.splits)
  have follow: "await_followers x cx cfg its fs rs t = (Inl e, t') \<Longrightarrow> \<exists>m. e = Database m" for its fs rs t t'
  proof (induction x cx cfg its fs rs t rule: await_followers.induct)
    case (2 x cx cfg its k ps fs rs d w)
    obtain m w1 where p: "peer_count x k w = (m, w1)" by fastforce
    obtain ct cid where c: "first_item its ps = (ct, cid)" by fastforce
    obtain q d2 w2 where g: "get_count x ct cid (sql_meanwhile x (d, w1)) = (q, d2, w2)" by (metis prod_cases3)
    show ?case using 2 p c g by (cases m; cases q) (auto simp: map_db_error_def)
  qed simp
  show ?thesis
    using assms lead follow
    by (auto simp: batch_counts_def split: if_splits sum.splits prod.splits)
qed

text \<open>C13. Reading counts is sound, for any meaning of "count" that the database replica, the cache entries
  and the requests in flight agree on: a single read returns such a count; a batch returns exactly one
  row per requested item, in the order asked, duplicates included, each with such a count; and both
  leave the cache in agreement. A batch fails only for its size or for the database.\<close>

theorem count_reads_sound:
  assumes "count_env x cx H P" "count_state cx H P s"
  shows "(get_count_value x cx cfg ct cid s = (Inr n, s1) \<longrightarrow> P (ct, cid) n \<and> count_state cx H P s1)
       \<and> (batch_counts x cx cfg items s = (Inr rs, s2) \<longrightarrow>
            map (\<lambda>r. (bcr_type r, bcr_content r)) rs = items \<and> count_state cx H P s2
            \<and> list_all2 (\<lambda>c r. P c (bcr_count r)) items rs)
       \<and> (batch_counts x cx cfg items s = (Inl e, s2) \<longrightarrow>
            (if length items > 100 then e = BatchTooLarge (length items) 100 else (\<exists>m. e = Database m)))"
proof (intro conjI impI)
  assume "get_count_value x cx cfg ct cid s = (Inr n, s1)"
  from lcc.single_law [OF assms this] show "P (ct, cid) n" "count_state cx H P s1" by simp_all
next
  assume b: "batch_counts x cx cfg items s = (Inr rs, s2)"
  from lcc.batch_rows [OF assms b] lcc.batch_law [OF assms b]
  show "map (\<lambda>r. (bcr_type r, bcr_content r)) rs = items" "count_state cx H P s2"
    "list_all2 (\<lambda>c r. P c (bcr_count r)) items rs" by simp_all
qed (rule batch_counts_error)

lemma sample_is_ordering: "is_ordering (\<lambda>n. [0..<n])"
  by (simp add: is_ordering_def)

lemma sample_count_env:
  "(\<forall>c. Q c (sql_count c d)) \<Longrightarrow> count_env (sample_ext http content token) sample_codec sample_holds Q"
  using sample_store_ok sample_is_ordering by (simp add: count_env_def) (simp add: sample_ext_def)

lemma sample_batch_ok:
  assumes "length items \<le> 100"
  shows "\<exists>rs s'. batch_counts (sample_ext http content token) cx cfg items (d, w) = (Inr rs, s')"
proof -
  let ?x = "sample_ext http content token"
  have lead: "\<exists>rs' s'. lead_batch ?x cfg items mm rs (d, w) = (Inr rs', s')" for mm rs w
    by (simp add: lead_batch_def batch_get_counts_def sql_read_def sample_ext_def)
  have roles: "assign_roles ?x mm w = ((mm, []), w)" for mm w
    by (induction mm) (auto simp: sample_ext_def)
  obtain vs w1 where g: "cm_mget ?x (map (\<lambda>c. count_cache_key cx (fst c) (snd c)) items) w = (vs, w1)" by fastforce
  obtain rs mm where sc: "scan_counts cx vs 0 items [] = (rs, mm)" by fastforce
  have h: "hash_order ?x w1 = (\<lambda>n. [0..<n], w1)" by (simp add: sample_ext_def)
  obtain rs' s' where "lead_batch ?x cfg items (permute_by (\<lambda>n. [0..<n]) mm) rs (d, w1) = (Inr rs', s')" using lead by blast
  then show ?thesis using assms g sc h roles by (auto simp: batch_counts_def)
qed

theorem count_reads_sound_witness:
  "map bcr_count (projr (fst (batch_counts sample_off sample_codec cfg_small
     [(''post'', 7), (''post'', 8), (''post'', 7), (''post'', 9)] (db_small, sample_start)))) = [2, 1, 2, 0]"
proof -
  let ?P = "\<lambda>c n. n = sql_count c db_small"
  let ?items = "[(''post'', 7), (''post'', 8), (''post'', 7), (''post'', 9)] :: content_key list"
  have env: "count_env sample_off sample_codec sample_holds ?P"
    by (rule sample_count_env [of _ db_small]) simp
  have st: "count_state sample_codec sample_holds ?P (db_small, sample_start)"
    by (simp add: count_state_def counts_ok_def entries_def sample_holds_def sample_start_def)
  obtain q s2 where b: "batch_counts sample_off sample_codec cfg_small ?items (db_small, sample_start) = (q, s2)"
    by (metis surj_pair)
  obtain rs where q: "q = Inr rs"
    using sample_batch_ok [of ?items no_http no_content no_token sample_codec cfg_small db_small sample_start] b by auto
  have "list_all2 (\<lambda>c r. ?P c (bcr_count r)) ?items rs"
    using count_reads_sound [OF env st] b q by blast
  moreover have "sql_count (''post'', 9) db_small = 0" by (simp add: sql_count_def db_small_def)
  ultimately show ?thesis using b q db_small_count by (auto simp: list_all2_Cons1)
qed

end
