(* ===== verification/Coalescing.thy ===== *)
theory Coalescing
  imports Like_Count_Cache
begin

text \<open>
  The protocol inside \<open>LikeCountCache\<close>: the requests that miss the cache for a count, the map
  \<open>pending_fetches\<close> they meet in and the \<open>watch\<close> channels they pass the count through, as a labelled
  step relation on any number of concurrent requests. A request is at one of the points where the
  runtime may switch to another; it can be dropped, as an HTTP server does when the client goes
  away, wherever the code awaits. Properties: one request per count reads the database on behalf of
  the others, what is delivered was read for that count, and a dropped leader leaves its entry
  behind for good.
\<close>

section \<open>Requests\<close>

text \<open>\<open>Leading\<close> to \<open>Writing\<close> is the leader of \<open>get_count_value\<close>: awaiting the database, holding its
  answer, sent, entry removed; it keeps its sender to the end. The \<open>B\<close> states are a leader of
  \<open>batch_counts\<close>, whose sender is the one in the map. A waiting follower records whether the value
  was there when it subscribed (\<open>changed\<close> then never reports it).\<close>

datatype task =
    Idle
  | Leading string nat
  | Holding string nat int
  | Sent string nat int
  | Failed string nat
  | Writing string nat int
  | BLeading string nat
  | BHolding string nat int
  | BRemoved string nat int
  | Waiting string nat bool
  | Falling string
  | Returned string int
  | Raised string
  | Dropped

text \<open>The last two fields are history: the key a channel was opened for, and the answers of the database.\<close>

record flight =
  fl_pending :: "string \<Rightarrow> nat option"
  fl_value :: "nat \<Rightarrow> int option"
  fl_next :: nat
  fl_tasks :: "task list"
  fl_key :: "nat \<Rightarrow> string"
  fl_answers :: "(string \<times> int) list"

definition fl_start :: "nat \<Rightarrow> flight" where
  "fl_start n = \<lparr>fl_pending = (\<lambda>_. None), fl_value = (\<lambda>_. None), fl_next = 0, fl_tasks = replicate n Idle,
     fl_key = (\<lambda>_. []), fl_answers = []\<rparr>"

definition task_at :: "flight \<Rightarrow> nat \<Rightarrow> task" where
  "task_at s t = (if t < length (fl_tasks s) then fl_tasks s ! t else Dropped)"

definition move :: "nat \<Rightarrow> task \<Rightarrow> flight \<Rightarrow> flight" where
  "move t p s = s\<lparr>fl_tasks := (fl_tasks s)[t := p]\<rparr>"

definition answered :: "string \<Rightarrow> int \<Rightarrow> flight \<Rightarrow> flight" where
  "answered k n s = s\<lparr>fl_answers := (k, n) # fl_answers s\<rparr>"

definition send :: "nat \<Rightarrow> int \<Rightarrow> flight \<Rightarrow> flight" where
  "send c n s = s\<lparr>fl_value := (fl_value s)(c := Some n)\<rparr>"

definition release :: "string \<Rightarrow> flight \<Rightarrow> flight" where
  "release k s = s\<lparr>fl_pending := (fl_pending s)(k := None)\<rparr>"

text \<open>The \<open>Vacant\<close> arm: a new channel under the key.\<close>

definition open_entry :: "string \<Rightarrow> flight \<Rightarrow> flight" where
  "open_entry k s = s\<lparr>fl_pending := (fl_pending s)(k := Some (fl_next s)),
     fl_value := (fl_value s)(fl_next s := None), fl_next := Suc (fl_next s),
     fl_key := (fl_key s)(fl_next s := k)\<rparr>"

text \<open>A channel is closed when its senders are gone: the one in the map and those of the tasks.\<close>

fun owns_sender :: "nat \<Rightarrow> task \<Rightarrow> bool" where
  "owns_sender c (Leading _ c') = (c = c')"
| "owns_sender c (Holding _ c' _) = (c = c')"
| "owns_sender c (Sent _ c' _) = (c = c')"
| "owns_sender c (Failed _ c') = (c = c')"
| "owns_sender c (Writing _ c' _) = (c = c')"
| "owns_sender c (BRemoved _ c' _) = (c = c')"
| "owns_sender c _ = False"

definition sender_alive :: "flight \<Rightarrow> nat \<Rightarrow> bool" where
  "sender_alive s c \<longleftrightarrow> fl_pending s (fl_key s c) = Some c \<or> (\<exists>p \<in> set (fl_tasks s). owns_sender c p)"

definition unseen :: "flight \<Rightarrow> nat \<Rightarrow> bool \<Rightarrow> bool" where
  "unseen s c seen \<longleftrightarrow> \<not> seen \<and> fl_value s c \<noteq> None"

section \<open>Steps\<close>

datatype act =
    Enter nat string
  | EnterBatch nat string
  | Answer nat int
  | Fault nat
  | Advance nat
  | Receive nat
  | SendersGone nat
  | TimeOut nat
  | Cancel nat

fun co_act :: "act \<Rightarrow> flight \<Rightarrow> flight option" where
  "co_act (Enter t k) s =
     (case task_at s t of
        Idle \<Rightarrow> Some (case fl_pending s k of
            Some c \<Rightarrow> move t (Waiting k c (fl_value s c \<noteq> None)) s
          | None \<Rightarrow> move t (Leading k (fl_next s)) (open_entry k s))
      | _ \<Rightarrow> None)"
| "co_act (EnterBatch t k) s =
     (case task_at s t of
        Idle \<Rightarrow> Some (case fl_pending s k of
            Some c \<Rightarrow> move t (Waiting k c (fl_value s c \<noteq> None)) s
          | None \<Rightarrow> move t (BLeading k (fl_next s)) (open_entry k s))
      | _ \<Rightarrow> None)"
| "co_act (Answer t n) s =
     (case task_at s t of
        Leading k c \<Rightarrow> Some (move t (Holding k c n) (answered k n s))
      | BLeading k c \<Rightarrow> Some (move t (BHolding k c n) (answered k n s))
      | Falling k \<Rightarrow> Some (move t (Returned k n) (answered k n s))
      | _ \<Rightarrow> None)"
| "co_act (Fault t) s =
     (case task_at s t of
        Leading k c \<Rightarrow> Some (move t (Failed k c) s)
      | BLeading k c \<Rightarrow> Some (move t (Failed k c) s)
      | Falling k \<Rightarrow> Some (move t (Raised k) s)
      | _ \<Rightarrow> None)"
| "co_act (Advance t) s =
     (case task_at s t of
        Holding k c n \<Rightarrow> Some (move t (Sent k c n) (send c n s))
      | Sent k c n \<Rightarrow> Some (move t (Writing k c n) (release k s))
      | Writing k c n \<Rightarrow> Some (move t (Returned k n) s)
      | Failed k c \<Rightarrow> Some (move t (Raised k) (release k s))
      | BHolding k c n \<Rightarrow> Some (move t (BRemoved k c n) (release k s))
      | BRemoved k c n \<Rightarrow> Some (move t (Returned k n) (send c n s))
      | _ \<Rightarrow> None)"
| "co_act (Receive t) s =
     (case task_at s t of
        Waiting k c seen \<Rightarrow>
          (case fl_value s c of
             Some n \<Rightarrow> (if seen then None else Some (move t (Returned k n) s))
           | None \<Rightarrow> None)
      | _ \<Rightarrow> None)"
| "co_act (SendersGone t) s =
     (case task_at s t of
        Waiting k c seen \<Rightarrow>
          (if unseen s c seen \<or> sender_alive s c then None else Some (move t (Falling k) s))
      | _ \<Rightarrow> None)"
| "co_act (TimeOut t) s =
     (case task_at s t of
        Waiting k c seen \<Rightarrow> (if unseen s c seen then None else Some (move t (Falling k) s))
      | _ \<Rightarrow> None)"
| "co_act (Cancel t) s =
     (case task_at s t of
        Leading _ _ \<Rightarrow> Some (move t Dropped s)
      | BLeading _ _ \<Rightarrow> Some (move t Dropped s)
      | Writing _ _ _ \<Rightarrow> Some (move t Dropped s)
      | Waiting _ _ _ \<Rightarrow> Some (move t Dropped s)
      | Falling _ \<Rightarrow> Some (move t Dropped s)
      | _ \<Rightarrow> None)"

inductive co_reach :: "nat \<Rightarrow> flight \<Rightarrow> bool" for n where
  start: "co_reach n (fl_start n)"
| act: "co_reach n s \<Longrightarrow> co_act a s = Some s' \<Longrightarrow> co_reach n s'"

fun co_run :: "act list \<Rightarrow> flight \<Rightarrow> flight option" where
  "co_run [] s = Some s"
| "co_run (a # as) s = (case co_act a s of None \<Rightarrow> None | Some s' \<Rightarrow> co_run as s')"

lemma co_reach_run: "co_run as s = Some s' \<Longrightarrow> co_reach n s \<Longrightarrow> co_reach n s'"
  by (induction as arbitrary: s) (auto split: option.splits intro: co_reach.act)

section \<open>Invariant\<close>

text \<open>What a request has of the protocol: the entry it leads, the channel it uses, the count it carries.\<close>

fun t_leads :: "task \<Rightarrow> (string \<times> nat) option" where
  "t_leads (Leading k c) = Some (k, c)"
| "t_leads (Holding k c _) = Some (k, c)"
| "t_leads (Sent k c _) = Some (k, c)"
| "t_leads (Failed k c) = Some (k, c)"
| "t_leads (BLeading k c) = Some (k, c)"
| "t_leads (BHolding k c _) = Some (k, c)"
| "t_leads _ = None"

fun t_chan :: "task \<Rightarrow> (string \<times> nat) option" where
  "t_chan (Writing k c _) = Some (k, c)"
| "t_chan (BRemoved k c _) = Some (k, c)"
| "t_chan (Waiting k c _) = Some (k, c)"
| "t_chan p = t_leads p"

fun t_count :: "task \<Rightarrow> (string \<times> int) option" where
  "t_count (Holding k _ n) = Some (k, n)"
| "t_count (Sent k _ n) = Some (k, n)"
| "t_count (Writing k _ n) = Some (k, n)"
| "t_count (BHolding k _ n) = Some (k, n)"
| "t_count (BRemoved k _ n) = Some (k, n)"
| "t_count (Returned k n) = Some (k, n)"
| "t_count _ = None"

definition co_inv :: "flight \<Rightarrow> bool" where
  "co_inv s \<longleftrightarrow>
     (\<forall>t k c. t_leads (task_at s t) = Some (k, c) \<longrightarrow> fl_pending s k = Some c)
   \<and> (\<forall>t t' k c c'. t_leads (task_at s t) = Some (k, c) \<longrightarrow> t_leads (task_at s t') = Some (k, c') \<longrightarrow> t = t')
   \<and> (\<forall>k c. fl_pending s k = Some c \<longrightarrow> c < fl_next s \<and> fl_key s c = k)
   \<and> (\<forall>t k c. t_chan (task_at s t) = Some (k, c) \<longrightarrow> c < fl_next s \<and> fl_key s c = k)
   \<and> (\<forall>c n. fl_value s c = Some n \<longrightarrow> (fl_key s c, n) \<in> set (fl_answers s))
   \<and> (\<forall>t k n. t_count (task_at s t) = Some (k, n) \<longrightarrow> (k, n) \<in> set (fl_answers s))"

lemma task_at_move: "task_at (move t p s) u = (if u = t \<and> t < length (fl_tasks s) then p else task_at s u)"
  by (auto simp: task_at_def move_def)

lemma task_at_other [simp]:
  "task_at (answered k n s) = task_at s" "task_at (send c n s) = task_at s"
  "task_at (release k s) = task_at s" "task_at (open_entry k s) = task_at s"
  by (auto simp: task_at_def answered_def send_def release_def open_entry_def)

lemma flight_fields [simp]:
  "fl_pending (move t p s) = fl_pending s" "fl_next (move t p s) = fl_next s" "fl_key (move t p s) = fl_key s"
  "fl_value (move t p s) = fl_value s" "fl_answers (move t p s) = fl_answers s"
  "length (fl_tasks (move t p s)) = length (fl_tasks s)"
  "fl_pending (answered k n s) = fl_pending s" "fl_next (answered k n s) = fl_next s"
  "fl_key (answered k n s) = fl_key s" "fl_value (answered k n s) = fl_value s"
  "fl_answers (answered k n s) = (k, n) # fl_answers s" "fl_tasks (answered k n s) = fl_tasks s"
  "fl_pending (send c n s) = fl_pending s" "fl_next (send c n s) = fl_next s" "fl_key (send c n s) = fl_key s"
  "fl_value (send c n s) = (fl_value s)(c := Some n)" "fl_answers (send c n s) = fl_answers s"
  "fl_tasks (send c n s) = fl_tasks s"
  "fl_pending (release k s) = (fl_pending s)(k := None)" "fl_next (release k s) = fl_next s"
  "fl_key (release k s) = fl_key s" "fl_value (release k s) = fl_value s" "fl_answers (release k s) = fl_answers s"
  "fl_tasks (release k s) = fl_tasks s"
  "fl_pending (open_entry k s) = (fl_pending s)(k := Some (fl_next s))" "fl_next (open_entry k s) = Suc (fl_next s)"
  "fl_key (open_entry k s) = (fl_key s)(fl_next s := k)" "fl_value (open_entry k s) = (fl_value s)(fl_next s := None)"
  "fl_answers (open_entry k s) = fl_answers s" "fl_tasks (open_entry k s) = fl_tasks s"
  by (simp_all add: move_def answered_def send_def release_def open_entry_def)

lemma leads_chan: "t_leads p = Some e \<Longrightarrow> t_chan p = Some e"
  by (cases p) auto

lemma start_inv: "co_inv (fl_start n)"
  by (simp add: co_inv_def fl_start_def task_at_def)

lemma co_invD:
  assumes "co_inv s"
  shows "t_leads (task_at s t) = Some (k, c) \<Longrightarrow> fl_pending s k = Some c"
    and "t_leads (task_at s t) = Some (k, c) \<Longrightarrow> t_leads (task_at s t') = Some (k, c') \<Longrightarrow> t = t'"
    and "fl_pending s k = Some c \<Longrightarrow> c < fl_next s \<and> fl_key s c = k"
    and "t_chan (task_at s t) = Some (k, c) \<Longrightarrow> c < fl_next s \<and> fl_key s c = k"
    and "fl_value s c = Some m \<Longrightarrow> (fl_key s c, m) \<in> set (fl_answers s)"
    and "t_count (task_at s t) = Some (k, m) \<Longrightarrow> (k, m) \<in> set (fl_answers s)"
  using assms unfolding co_inv_def by blast+

lemma co_invI:
  assumes "\<And>t k c. t_leads (task_at s t) = Some (k, c) \<Longrightarrow> fl_pending s k = Some c"
    and "\<And>t t' k c c'. t_leads (task_at s t) = Some (k, c) \<Longrightarrow> t_leads (task_at s t') = Some (k, c') \<Longrightarrow> t = t'"
    and "\<And>k c. fl_pending s k = Some c \<Longrightarrow> c < fl_next s \<and> fl_key s c = k"
    and "\<And>t k c. t_chan (task_at s t) = Some (k, c) \<Longrightarrow> c < fl_next s \<and> fl_key s c = k"
    and "\<And>c n. fl_value s c = Some n \<Longrightarrow> (fl_key s c, n) \<in> set (fl_answers s)"
    and "\<And>t k n. t_count (task_at s t) = Some (k, n) \<Longrightarrow> (k, n) \<in> set (fl_answers s)"
  shows "co_inv s"
  unfolding co_inv_def using assms by blast

text \<open>A request moves within what it has.\<close>

lemma inv_move:
  assumes inv: "co_inv s" and l: "t_leads p = None \<or> t_leads p = t_leads (task_at s t)"
    and c: "t_chan p = None \<or> t_chan p = t_chan (task_at s t)"
    and n: "\<And>k n. t_count p = Some (k, n) \<Longrightarrow> (k, n) \<in> set (fl_answers s)"
  shows "co_inv (move t p s)"
proof (rule co_invI)
  have lead: "t_leads (task_at s u) = Some (k, c)" if "t_leads (task_at (move t p s) u) = Some (k, c)" for u k c
    using that l by (auto simp: task_at_move split: if_splits)
  fix u u' k c c' m
  show "t_leads (task_at (move t p s) u) = Some (k, c) \<Longrightarrow> fl_pending (move t p s) k = Some c"
    using lead co_invD(1) [OF inv] by fastforce
  show "t_leads (task_at (move t p s) u) = Some (k, c) \<Longrightarrow> t_leads (task_at (move t p s) u') = Some (k, c') \<Longrightarrow> u = u'"
    using lead co_invD(2) [OF inv] by blast
  show "fl_pending (move t p s) k = Some c \<Longrightarrow> c < fl_next (move t p s) \<and> fl_key (move t p s) c = k"
    using co_invD(3) [OF inv] by simp
  show "t_chan (task_at (move t p s) u) = Some (k, c) \<Longrightarrow> c < fl_next (move t p s) \<and> fl_key (move t p s) c = k"
    using c co_invD(4) [OF inv, of u k c] co_invD(4) [OF inv, of t k c]
    by (auto simp: task_at_move split: if_splits)
  show "fl_value (move t p s) c = Some m \<Longrightarrow> (fl_key (move t p s) c, m) \<in> set (fl_answers (move t p s))"
    using co_invD(5) [OF inv] by simp
  show "t_count (task_at (move t p s) u) = Some (k, m) \<Longrightarrow> (k, m) \<in> set (fl_answers (move t p s))"
    using n co_invD(6) [OF inv] by (auto simp: task_at_move split: if_splits)
qed

lemma inv_follow:
  assumes inv: "co_inv s" and k: "fl_pending s k = Some c"
  shows "co_inv (move t (Waiting k c b) s)"
proof (rule co_invI)
  have lead: "t_leads (task_at s u) = Some (k, c)" if "t_leads (task_at (move t (Waiting k' c' b) s) u) = Some (k, c)"
    for u k c k' c'
    using that by (auto simp: task_at_move split: if_splits)
  fix u u' k' c' c'' m
  let ?s = "move t (Waiting k c b) s"
  show "t_leads (task_at ?s u) = Some (k', c') \<Longrightarrow> fl_pending ?s k' = Some c'"
    using lead co_invD(1) [OF inv] by fastforce
  show "t_leads (task_at ?s u) = Some (k', c') \<Longrightarrow> t_leads (task_at ?s u') = Some (k', c'') \<Longrightarrow> u = u'"
    using lead co_invD(2) [OF inv] by blast
  show "fl_pending ?s k' = Some c' \<Longrightarrow> c' < fl_next ?s \<and> fl_key ?s c' = k'"
    using co_invD(3) [OF inv] by simp
  show "t_chan (task_at ?s u) = Some (k', c') \<Longrightarrow> c' < fl_next ?s \<and> fl_key ?s c' = k'"
    using co_invD(3) [OF inv k] co_invD(4) [OF inv, of u k' c'] by (auto simp: task_at_move split: if_splits)
  show "fl_value ?s c' = Some m \<Longrightarrow> (fl_key ?s c', m) \<in> set (fl_answers ?s)"
    using co_invD(5) [OF inv] by simp
  show "t_count (task_at ?s u) = Some (k', m) \<Longrightarrow> (k', m) \<in> set (fl_answers ?s)"
    using co_invD(6) [OF inv, of u k' m] by (auto simp: task_at_move split: if_splits)
qed

lemma inv_answered: "co_inv s \<Longrightarrow> co_inv (answered k n s)"
  unfolding co_inv_def by simp

lemma inv_send: "co_inv s \<Longrightarrow> (fl_key s c, n) \<in> set (fl_answers s) \<Longrightarrow> co_inv (send c n s)"
  unfolding co_inv_def by simp

text \<open>The leader gives its entry up as it moves on.\<close>

lemma inv_release:
  assumes inv: "co_inv s" and t: "t_leads (task_at s t) = Some (k, c)" and l: "t_leads p = None"
    and c: "t_chan p = None \<or> t_chan p = t_chan (task_at s t)"
    and n: "\<And>k n. t_count p = Some (k, n) \<Longrightarrow> (k, n) \<in> set (fl_answers s)"
  shows "co_inv (move t p (release k s))"
proof -
  have len: "t < length (fl_tasks s)" using t by (auto simp: task_at_def split: if_splits)
  have mv: "co_inv (move t p s)" by (rule inv_move [OF inv _ c n]) (simp_all add: l)
  have at: "task_at (move t p (release k s)) = task_at (move t p s)" by (auto simp: task_at_move)
  have ne: "k' \<noteq> k" if "t_leads (task_at (move t p s) u) = Some (k', c')" for u k' c'
  proof -
    have u: "u \<noteq> t" "t_leads (task_at s u) = Some (k', c')"
      using that l len by (auto simp: task_at_move split: if_splits)
    then show ?thesis using co_invD(2) [OF inv u(2), of t c] t by blast
  qed
  show ?thesis
  proof (rule co_invI, unfold at)
    fix u k' c'
    show "t_leads (task_at (move t p s) u) = Some (k', c') \<Longrightarrow> fl_pending (move t p (release k s)) k' = Some c'"
      using ne co_invD(1) [OF mv] by fastforce
  qed (use co_invD [OF mv] in \<open>auto split: if_splits\<close>)
qed

text \<open>A new entry, for the request that becomes its leader.\<close>

lemma inv_open:
  assumes inv: "co_inv s" and k: "fl_pending s k = None" and l: "t_leads p = Some (k, fl_next s)"
    and n: "t_count p = None"
  shows "co_inv (move t p (open_entry k s))"
proof -
  let ?s = "move t p (open_entry k s)"
  have new: "t_leads (task_at s u) \<noteq> Some (k, c)" for u c using co_invD(1) [OF inv] k by fastforce
  have lead: "(u = t \<and> (k', c) = (k, fl_next s)) \<or> (t_leads (task_at s u) = Some (k', c) \<and> k' \<noteq> k)"
    if "t_leads (task_at ?s u) = Some (k', c)" for u k' c
    using that l new [of u c] by (auto simp: task_at_move split: if_splits)
  show ?thesis
  proof (rule co_invI)
    fix u u' k' c c' m
    show "t_leads (task_at ?s u) = Some (k', c) \<Longrightarrow> fl_pending ?s k' = Some c"
      using lead co_invD(1) [OF inv] by fastforce
    show "t_leads (task_at ?s u) = Some (k', c) \<Longrightarrow> t_leads (task_at ?s u') = Some (k', c') \<Longrightarrow> u = u'"
      using lead [of u k' c] lead [of u' k' c'] co_invD(2) [OF inv] by blast
    show "fl_pending ?s k' = Some c \<Longrightarrow> c < fl_next ?s \<and> fl_key ?s c = k'"
      using co_invD(3) [OF inv, of k' c] by (auto split: if_splits)
    show "t_chan (task_at ?s u) = Some (k', c) \<Longrightarrow> c < fl_next ?s \<and> fl_key ?s c = k'"
      using co_invD(4) [OF inv, of u k' c] leads_chan [OF l] by (auto simp: task_at_move split: if_splits)
    show "fl_value ?s c = Some m \<Longrightarrow> (fl_key ?s c, m) \<in> set (fl_answers ?s)"
      using co_invD(5) [OF inv, of c m] by (auto split: if_splits)
    show "t_count (task_at ?s u) = Some (k', m) \<Longrightarrow> (k', m) \<in> set (fl_answers ?s)"
      using co_invD(6) [OF inv, of u k' m] n by (auto simp: task_at_move split: if_splits)
  qed
qed

lemma inv_answer:
  assumes inv: "co_inv s" and l: "t_leads p = t_leads (task_at s t)" and c: "t_chan p = t_chan (task_at s t)"
    and n: "t_count p = Some (k, n)"
  shows "co_inv (move t p (answered k n s))"
  by (rule inv_move [OF inv_answered [OF inv]]) (use l c n in auto)

lemma inv_deliver:
  assumes inv: "co_inv s" and l: "t_leads p = None \<or> t_leads p = t_leads (task_at s t)"
    and ch: "t_chan (task_at s t) = Some (k, c)" and c: "t_chan p = None \<or> t_chan p = Some (k, c)"
    and n: "t_count (task_at s t) = Some (k, n)" "t_count p = Some (k, n)"
  shows "co_inv (move t p (send c n s))"
proof -
  have a: "(k, n) \<in> set (fl_answers s)" using co_invD(6) [OF inv n(1)] .
  have "fl_key s c = k" using co_invD(4) [OF inv ch] by simp
  then have s: "co_inv (send c n s)" using inv_send [OF inv] a by simp
  show ?thesis by (rule inv_move [OF s]) (use l c ch n a in auto)
qed

lemma co_act_inv:
  assumes inv: "co_inv s" and run: "co_act a s = Some s'"
  shows "co_inv s'"
proof (cases a)
  case (Enter t k)
  then show ?thesis using run inv_open [OF inv, of k] inv_follow [OF inv, of k]
    by (auto split: task.splits option.splits)
next
  case (EnterBatch t k)
  then show ?thesis using run inv_open [OF inv, of k] inv_follow [OF inv, of k]
    by (auto split: task.splits option.splits)
next
  case (Answer t n)
  then show ?thesis using run
    by (auto split: task.splits intro!: inv_answer [OF inv])
next
  case (Fault t)
  then show ?thesis using run by (auto split: task.splits intro!: inv_move [OF inv])
next
  case (Advance t)
  then show ?thesis using run co_invD(6) [OF inv, of t]
    by (auto split: task.splits intro!: inv_move [OF inv] inv_deliver [OF inv] inv_release [OF inv])
next
  case (Receive t)
  then show ?thesis using run co_invD(4) [OF inv, of t] co_invD(5) [OF inv]
    by (auto split: task.splits option.splits if_splits intro!: inv_move [OF inv])
next
  case (SendersGone t)
  then show ?thesis using run by (auto split: task.splits if_splits intro!: inv_move [OF inv])
next
  case (TimeOut t)
  then show ?thesis using run by (auto split: task.splits if_splits intro!: inv_move [OF inv])
next
  case (Cancel t)
  then show ?thesis using run by (auto split: task.splits intro!: inv_move [OF inv])
qed

lemma co_reach_inv: "co_reach n s \<Longrightarrow> co_inv s"
  by (induction rule: co_reach.induct) (auto intro: start_inv co_act_inv)

section \<open>Properties\<close>

definition leads_key :: "flight \<Rightarrow> string \<Rightarrow> nat \<Rightarrow> bool" where
  "leads_key s k t \<longleftrightarrow> (\<exists>c. t_leads (task_at s t) = Some (k, c))"

text \<open>C14. Coalescing works, whatever the interleaving, the failures and the dropped requests: of the
  requests for one count at most one at a time holds the fetch on behalf of the others, and every
  count a request returns was answered by the database for that very key.\<close>

theorem coalescing_sound:
  assumes "co_reach n s"
  shows "(leads_key s k t \<longrightarrow> leads_key s k u \<longrightarrow> t = u)
       \<and> (task_at s t = Returned k m \<longrightarrow> (k, m) \<in> set (fl_answers s))"
proof (intro conjI impI)
  note inv = co_reach_inv [OF assms]
  assume "leads_key s k t" "leads_key s k u"
  then obtain c c' where "t_leads (task_at s t) = Some (k, c)" "t_leads (task_at s u) = Some (k, c')"
    by (auto simp: leads_key_def)
  then show "t = u" by (rule co_invD(2) [OF inv])
next
  assume "task_at s t = Returned k m"
  then have "t_count (task_at s t) = Some (k, m)" by simp
  then show "(k, m) \<in> set (fl_answers s)" by (rule co_invD(6) [OF co_reach_inv [OF assms]])
qed

theorem coalescing_sound_witness:
  "(\<exists>s. co_run [Enter 0 ''lc:post:7'', Enter 1 ''lc:post:7'', Answer 0 5, Advance 0, Receive 1] (fl_start 2) = Some s
      \<and> task_at s 1 = Returned ''lc:post:7'' 5 \<and> (''lc:post:7'', 5) \<in> set (fl_answers s))"
proof -
  let ?as = "[Enter 0 ''lc:post:7'', Enter 1 ''lc:post:7'', Answer 0 5, Advance 0, Receive 1]"
  obtain s where s: "co_run ?as (fl_start 2) = Some s" "task_at s 1 = Returned ''lc:post:7'' 5"
    by (simp add: fl_start_def task_at_def move_def open_entry_def answered_def send_def numeral_2_eq_2)
  have "co_reach 2 s" using co_reach_run [OF s(1)] co_reach.start by blast
  from coalescing_sound [OF this, of "''lc:post:7''" 1 1 5] s show ?thesis by blast
qed

lemma co_act_leak:
  assumes p: "fl_pending s k = Some c" and n: "\<And>t. \<not> leads_key s k t" and inv: "co_inv s"
    and run: "co_act a s = Some s'"
  shows "fl_pending s' k = Some c \<and> \<not> leads_key s' k t"
proof -
  have ne: "t_leads (task_at s t) = Some (k', c') \<Longrightarrow> k' \<noteq> k" for t k' c'
    using n [of t] by (auto simp: leads_key_def)
  have mv: "\<not> leads_key (move u q r) k t" if "task_at r = task_at s" "\<And>c'. t_leads q \<noteq> Some (k, c')" for u q r
    using that ne [of t k] by (auto simp: leads_key_def task_at_move)
  show ?thesis
  proof (cases a)
    case (Enter u k')
    then show ?thesis using run p by (cases "k' = k") (auto simp: mv split: task.splits option.splits)
  next
    case (EnterBatch u k')
    then show ?thesis using run p by (cases "k' = k") (auto simp: mv split: task.splits option.splits)
  next
    case (Answer u m)
    then show ?thesis using run p ne [of u] by (auto simp: mv split: task.splits)
  next
    case (Fault u)
    then show ?thesis using run p ne [of u] by (auto simp: mv split: task.splits)
  next
    case (Advance u)
    then show ?thesis using run p ne [of u] by (auto simp: mv split: task.splits)
  next
    case (Receive u)
    then show ?thesis using run p by (auto simp: mv split: task.splits option.splits if_splits)
  next
    case (SendersGone u)
    then show ?thesis using run p by (auto simp: mv split: task.splits if_splits)
  next
    case (TimeOut u)
    then show ?thesis using run p by (auto simp: mv split: task.splits if_splits)
  next
    case (Cancel u)
    then show ?thesis using run p by (auto simp: mv split: task.splits)
  qed
qed

section \<open>Waiting takes time\<close>

text \<open>\<open>await_shared_count\<close> gives up after \<open>db_acquire_timeout_secs\<close>, at least one second. The protocol with
  a clock, in milliseconds: \<open>Tick\<close> lets time pass, and the timeout of a request is enabled only when that
  long has passed since it found the entry (a follower of a batch starts its timer later still).\<close>

definition await_ms :: "config \<Rightarrow> nat" where
  "await_ms cfg = max (db_acquire_timeout_secs cfg) 1 * 1000"

record timed =
  tm_flight :: flight
  tm_now :: nat
  tm_entered :: "nat \<Rightarrow> nat"

datatype timed_act = Do act | Tick nat

fun entering :: "act \<Rightarrow> nat option" where
  "entering (Enter t k) = Some t"
| "entering (EnterBatch t k) = Some t"
| "entering _ = None"

fun too_early :: "config \<Rightarrow> act \<Rightarrow> timed \<Rightarrow> bool" where
  "too_early cfg (TimeOut t) z \<longleftrightarrow> tm_now z < tm_entered z t + await_ms cfg"
| "too_early cfg _ z \<longleftrightarrow> False"

fun timed_step :: "config \<Rightarrow> timed_act \<Rightarrow> timed \<Rightarrow> timed option" where
  "timed_step cfg (Tick ms) z = Some (z\<lparr>tm_now := tm_now z + ms\<rparr>)"
| "timed_step cfg (Do a) z =
     (if too_early cfg a z then None
      else (case co_act a (tm_flight z) of
          None \<Rightarrow> None
        | Some s \<Rightarrow> Some (z\<lparr>tm_flight := s,
            tm_entered := (case entering a of None \<Rightarrow> tm_entered z | Some t \<Rightarrow> (tm_entered z)(t := tm_now z))\<rparr>)))"

fun timed_run :: "config \<Rightarrow> timed_act list \<Rightarrow> timed \<Rightarrow> timed option" where
  "timed_run cfg [] z = Some z"
| "timed_run cfg (a # as) z = (case timed_step cfg a z of None \<Rightarrow> None | Some z' \<Rightarrow> timed_run cfg as z')"

section \<open>The entry that is left behind\<close>

text \<open>A value is in the channel of an entry only between the leader's send and the removal; the senders of
  batch leaders send on a channel whose entry is gone.\<close>

definition value_inv :: "flight \<Rightarrow> bool" where
  "value_inv s \<longleftrightarrow>
     (\<forall>k c m. fl_pending s k = Some c \<longrightarrow> fl_value s c = Some m \<longrightarrow> (\<exists>t n. task_at s t = Sent k c n))
   \<and> (\<forall>t k c m. task_at s t = BRemoved k c m \<longrightarrow> fl_pending s k \<noteq> Some c)"

lemma value_start: "value_inv (fl_start n)"
  by (simp add: value_inv_def fl_start_def task_at_def)

lemma value_invD:
  assumes "value_inv s"
  shows "fl_pending s k = Some c \<Longrightarrow> fl_value s c = Some m \<Longrightarrow> \<exists>t n. task_at s t = Sent k c n"
    and "task_at s t = BRemoved k c n \<Longrightarrow> fl_pending s k \<noteq> Some c"
  using assms unfolding value_inv_def by blast+

text \<open>A step of a request that has not sent, and that changes neither map nor channels.\<close>

lemma value_move:
  assumes v: "value_inv s" and old: "\<And>k c n. task_at s t \<noteq> Sent k c n" and new: "\<And>k c n. p \<noteq> BRemoved k c n"
    and r: "task_at r = task_at s" "fl_pending r = fl_pending s" "fl_value r = fl_value s" "length (fl_tasks r) = length (fl_tasks s)"
  shows "value_inv (move t p r)"
  unfolding value_inv_def
proof (intro conjI allI impI)
  fix k c m assume "fl_pending (move t p r) k = Some c" "fl_value (move t p r) c = Some m"
  then obtain u n where u: "task_at s u = Sent k c n" using value_invD(1) [OF v, of k c m] r by auto
  then have "u \<noteq> t" using old by blast
  then show "\<exists>u n. task_at (move t p r) u = Sent k c n" using u r by (auto simp: task_at_move)
next
  fix u k c m assume "task_at (move t p r) u = BRemoved k c m"
  then have "task_at s u = BRemoved k c m" using new [of k c m] r(1) by (simp add: task_at_move split: if_splits)
  then show "fl_pending (move t p r) k \<noteq> Some c" using value_invD(2) [OF v] r(2) by simp
qed

lemma value_open:
  assumes v: "value_inv s" and i: "co_inv s" and old: "task_at s t = Idle" and new: "\<And>k c n. p \<noteq> BRemoved k c n"
    and free: "fl_pending s k0 = None"
  shows "value_inv (move t p (open_entry k0 s))"
  unfolding value_inv_def
proof (intro conjI allI impI)
  fix k c m assume a: "fl_pending (move t p (open_entry k0 s)) k = Some c" "fl_value (move t p (open_entry k0 s)) c = Some m"
  then have "fl_pending s k = Some c" "fl_value s c = Some m" by (auto split: if_splits)
  then obtain u n where u: "task_at s u = Sent k c n" using value_invD(1) [OF v] by blast
  then have "u \<noteq> t" using old by auto
  then show "\<exists>u n. task_at (move t p (open_entry k0 s)) u = Sent k c n" using u by (auto simp: task_at_move)
next
  fix u k c m assume "task_at (move t p (open_entry k0 s)) u = BRemoved k c m"
  then have b: "task_at s u = BRemoved k c m" using new by (auto simp: task_at_move split: if_splits)
  then have "c < fl_next s" using co_invD(4) [OF i, of u k c] by simp
  with value_invD(2) [OF v b] show "fl_pending (move t p (open_entry k0 s)) k \<noteq> Some c" by auto
qed

lemma value_send:
  assumes v: "value_inv s" and i: "co_inv s" and t: "task_at s t = Holding k c n"
  shows "value_inv (move t (Sent k c n) (send c n s))"
  unfolding value_inv_def
proof (intro conjI allI impI)
  have len: "t < length (fl_tasks s)" using t by (auto simp: task_at_def split: if_splits)
  fix k' c' m assume a: "fl_pending (move t (Sent k c n) (send c n s)) k' = Some c'"
    "fl_value (move t (Sent k c n) (send c n s)) c' = Some m"
  show "\<exists>u n'. task_at (move t (Sent k c n) (send c n s)) u = Sent k' c' n'"
  proof (cases "c' = c")
    case True
    then have "k' = k" using co_invD(3) [OF i, of k' c'] co_invD(4) [OF i, of t k c] a t by simp
    then show ?thesis using True len by (auto simp: task_at_move)
  next
    case False
    then obtain u n' where u: "task_at s u = Sent k' c' n'" using value_invD(1) [OF v, of k' c' m] a by auto
    then have "u \<noteq> t" using t by auto
    then show ?thesis using u by (auto simp: task_at_move)
  qed
next
  fix u k' c' m assume "task_at (move t (Sent k c n) (send c n s)) u = BRemoved k' c' m"
  then show "fl_pending (move t (Sent k c n) (send c n s)) k' \<noteq> Some c'"
    using value_invD(2) [OF v] by (auto simp: task_at_move split: if_splits)
qed

lemma value_release:
  assumes v: "value_inv s" and i: "co_inv s" and t: "t_leads (task_at s t) = Some (k, c)"
    and p: "\<And>k' c' m. p = BRemoved k' c' m \<Longrightarrow> k' = k"
  shows "value_inv (move t p (release k s))"
  unfolding value_inv_def
proof (intro conjI allI impI)
  fix k' c' m assume a: "fl_pending (move t p (release k s)) k' = Some c'" "fl_value (move t p (release k s)) c' = Some m"
  then have k': "k' \<noteq> k" by (auto split: if_splits)
  then obtain u n where u: "task_at s u = Sent k' c' n" using value_invD(1) [OF v, of k' c' m] a by auto
  then have "u \<noteq> t" using t k' by auto
  then show "\<exists>u n. task_at (move t p (release k s)) u = Sent k' c' n" using u by (auto simp: task_at_move)
next
  fix u k' c' m assume "task_at (move t p (release k s)) u = BRemoved k' c' m"
  then show "fl_pending (move t p (release k s)) k' \<noteq> Some c'"
    using value_invD(2) [OF v, of u k' c' m] p by (auto simp: task_at_move split: if_splits)
qed

lemma value_late_send:
  assumes v: "value_inv s" and i: "co_inv s" and t: "task_at s t = BRemoved k c n"
  shows "value_inv (move t (Returned k n) (send c n s))"
  unfolding value_inv_def
proof (intro conjI allI impI)
  fix k' c' m assume a: "fl_pending (move t (Returned k n) (send c n s)) k' = Some c'"
    "fl_value (move t (Returned k n) (send c n s)) c' = Some m"
  have "c' \<noteq> c"
  proof
    assume "c' = c"
    then have "k' = k" using co_invD(3) [OF i, of k' c'] co_invD(4) [OF i, of t k c] a t by simp
    then show False using value_invD(2) [OF v t] a \<open>c' = c\<close> by simp
  qed
  then obtain u n' where u: "task_at s u = Sent k' c' n'" using value_invD(1) [OF v, of k' c' m] a by auto
  then have "u \<noteq> t" using t by auto
  then show "\<exists>u n'. task_at (move t (Returned k n) (send c n s)) u = Sent k' c' n'" using u by (auto simp: task_at_move)
next
  fix u k' c' m assume "task_at (move t (Returned k n) (send c n s)) u = BRemoved k' c' m"
  then show "fl_pending (move t (Returned k n) (send c n s)) k' \<noteq> Some c'"
    using value_invD(2) [OF v] by (auto simp: task_at_move split: if_splits)
qed

lemma co_act_value:
  assumes v: "value_inv s" and i: "co_inv s" and run: "co_act a s = Some s'"
  shows "value_inv s'"
proof (cases a)
  case (Enter t k)
  then show ?thesis using run
    by (auto split: task.splits option.splits intro!: value_move [OF v] value_open [OF v i])
next
  case (EnterBatch t k)
  then show ?thesis using run
    by (auto split: task.splits option.splits intro!: value_move [OF v] value_open [OF v i])
next
  case (Answer t n)
  then show ?thesis using run by (auto split: task.splits intro!: value_move [OF v])
next
  case (Fault t)
  then show ?thesis using run by (auto split: task.splits intro!: value_move [OF v])
next
  case (Advance t)
  then show ?thesis using run value_send [OF v i, of t] value_late_send [OF v i, of t]
    by (auto split: task.splits intro!: value_move [OF v] value_release [OF v i, where t = t])
next
  case (Receive t)
  then show ?thesis using run by (auto split: task.splits option.splits if_splits intro!: value_move [OF v])
next
  case (SendersGone t)
  then show ?thesis using run by (auto split: task.splits if_splits intro!: value_move [OF v])
next
  case (TimeOut t)
  then show ?thesis using run by (auto split: task.splits if_splits intro!: value_move [OF v])
next
  case (Cancel t)
  then show ?thesis using run by (auto split: task.splits intro!: value_move [OF v])
qed

lemma co_reach_value: "co_reach n s \<Longrightarrow> value_inv s"
  by (induction rule: co_reach.induct) (auto intro: value_start co_act_value co_reach_inv)

definition awaits_db :: "flight \<Rightarrow> nat \<Rightarrow> string \<Rightarrow> nat \<Rightarrow> bool" where
  "awaits_db s t k c \<longleftrightarrow> task_at s t = Leading k c \<or> task_at s t = BLeading k c"

definition leaked :: "nat \<Rightarrow> flight \<Rightarrow> string \<Rightarrow> nat \<Rightarrow> bool" where
  "leaked n s k c \<longleftrightarrow> co_reach n s \<and> fl_pending s k = Some c \<and> (\<forall>t. \<not> leads_key s k t)"

lemma leakedD:
  assumes "leaked n s k c"
  shows "co_reach n s" "fl_pending s k = Some c" "\<not> leads_key s k t" "fl_value s c = None" "fl_key s c = k"
proof -
  show r: "co_reach n s" and p: "fl_pending s k = Some c" and l: "\<And>t. \<not> leads_key s k t"
    using assms by (auto simp: leaked_def)
  show "fl_key s c = k" using co_invD(3) [OF co_reach_inv [OF r] p] by simp
  show "fl_value s c = None"
  proof (cases "fl_value s c")
    case (Some m)
    then obtain t q where "task_at s t = Sent k c q" using value_invD(1) [OF co_reach_value [OF r] p] by blast
    then show ?thesis using l [of t] by (simp add: leads_key_def)
  qed
qed

lemma leaked_step: "leaked n s k c \<Longrightarrow> co_act a s = Some s' \<Longrightarrow> leaked n s' k c"
  using co_act_leak [of s k c a s'] unfolding leaked_def by (blast intro: co_reach.act co_reach_inv)

text \<open>A leader that is dropped while it awaits the database leaves its entry behind.\<close>

lemma cancelled_leader_leaks:
  assumes r: "co_reach n s" and l: "awaits_db s l k c" and run: "co_act (Cancel l) s = Some s'"
  shows "leaked n s' k c"
proof -
  have tl: "t_leads (task_at s l) = Some (k, c)" using l by (auto simp: awaits_db_def)
  note inv = co_reach_inv [OF r]
  have s': "s' = move l Dropped s" using run l by (auto simp: awaits_db_def)
  have len: "l < length (fl_tasks s)" using l by (auto simp: awaits_db_def task_at_def split: if_splits)
  have "\<not> leads_key s' k t" for t
    using co_invD(2) [OF inv tl, of t] len by (auto simp: s' leads_key_def task_at_move)
  then show ?thesis
    using co_reach.act [OF r run] co_invD(1) [OF inv tl] by (simp add: leaked_def s')
qed

text \<open>A request that then asks for the count waits, and only its timeout or its cancellation releases it.\<close>

lemma leaked_enter:
  assumes "leaked n s k c" "co_act e s = Some s'" "e = Enter t k \<or> e = EnterBatch t k"
  shows "task_at s' t = Waiting k c False"
proof -
  have idle: "task_at s t = Idle" using assms(2,3) by (auto split: task.splits)
  then have "t < length (fl_tasks s)" by (auto simp: task_at_def split: if_splits)
  then show ?thesis using assms(2,3) idle leakedD(2,4) [OF assms(1)] by (auto simp: task_at_move)
qed

lemma leaked_waits:
  assumes lk: "leaked n s k c" and w: "task_at s t = Waiting k c b" and run: "co_act a s = Some s'"
    and a: "a \<noteq> TimeOut t" "a \<noteq> Cancel t"
  shows "task_at s' t = Waiting k c b"
proof -
  have alive: "sender_alive s c" using leakedD(2,5) [OF lk] by (simp add: sender_alive_def)
  have mv: "task_at (move u q r) t = Waiting k c b" if "u \<noteq> t" "task_at r = task_at s" for u q r
    using that w by (simp add: task_at_move)
  show ?thesis
  proof (cases a)
    case (Enter u k')
    then show ?thesis using run w by (cases "u = t") (auto simp: mv split: task.splits option.splits)
  next
    case (EnterBatch u k')
    then show ?thesis using run w by (cases "u = t") (auto simp: mv split: task.splits option.splits)
  next
    case (Answer u m)
    then show ?thesis using run w by (cases "u = t") (auto simp: mv split: task.splits)
  next
    case (Fault u)
    then show ?thesis using run w by (cases "u = t") (auto simp: mv split: task.splits)
  next
    case (Advance u)
    then show ?thesis using run w by (cases "u = t") (auto simp: mv split: task.splits)
  next
    case (Receive u)
    then show ?thesis using run w leakedD(4) [OF lk]
      by (cases "u = t") (auto simp: mv split: task.splits option.splits if_splits)
  next
    case (SendersGone u)
    then show ?thesis using run w alive by (cases "u = t") (auto simp: mv split: task.splits if_splits)
  next
    case (TimeOut u)
    then show ?thesis using run w a by (cases "u = t") (auto simp: mv split: task.splits if_splits)
  next
    case (Cancel u)
    then show ?thesis using run w a by (cases "u = t") (auto simp: mv split: task.splits)
  qed
qed

lemma timed_step_flight:
  assumes "timed_step cfg a z = Some z'"
  shows "(\<exists>ms. a = Tick ms \<and> tm_flight z' = tm_flight z)
       \<or> (\<exists>x. a = Do x \<and> \<not> too_early cfg x z \<and> co_act x (tm_flight z) = Some (tm_flight z'))"
    and "tm_now z \<le> tm_now z'"
  using assms by (cases a; auto split: if_splits option.splits)+

lemma timed_step_leaked:
  assumes "leaked n (tm_flight z) k c" "timed_step cfg a z = Some z'"
  shows "leaked n (tm_flight z') k c"
  using timed_step_flight(1) [OF assms(2)] assms(1) leaked_step by auto

lemma timed_run_leaked:
  "leaked n (tm_flight z) k c \<Longrightarrow> timed_run cfg as z = Some z' \<Longrightarrow> leaked n (tm_flight z') k c"
  by (induction as arbitrary: z) (auto split: option.splits dest: timed_step_leaked)

lemma timed_run_now: "timed_run cfg as z = Some z' \<Longrightarrow> tm_now z \<le> tm_now z'"
proof (induction as arbitrary: z)
  case (Cons a as)
  then obtain z1 where "timed_step cfg a z = Some z1" "timed_run cfg as z1 = Some z'" by (auto split: option.splits)
  then show ?case using timed_step_flight(2) Cons.IH order_trans by blast
qed simp

lemma dropped_stays: "co_act a s = Some s' \<Longrightarrow> task_at s t = Dropped \<Longrightarrow> task_at s' t = Dropped"
  by (cases a) (auto simp: task_at_move split: task.splits option.splits if_splits)

lemma timed_dropped: "timed_run cfg as z = Some z' \<Longrightarrow> task_at (tm_flight z) t = Dropped \<Longrightarrow> task_at (tm_flight z') t = Dropped"
proof (induction as arbitrary: z)
  case (Cons a as)
  then obtain z1 where z1: "timed_step cfg a z = Some z1" "timed_run cfg as z1 = Some z'" by (auto split: option.splits)
  have "task_at (tm_flight z1) t = Dropped"
    using timed_step_flight(1) [OF z1(1)] Cons.prems(2) dropped_stays [of _ "tm_flight z" "tm_flight z1" t] by auto
  then show ?case using Cons.IH [OF z1(2)] by blast
qed simp

text \<open>While it waits, its entry time stays.\<close>

lemma timed_step_waits:
  assumes lk: "leaked n (tm_flight z) k c" and w: "task_at (tm_flight z) t = Waiting k c b"
    and run: "timed_step cfg a z = Some z'"
  shows "(task_at (tm_flight z') t = Waiting k c b \<and> tm_entered z' t = tm_entered z t)
       \<or> task_at (tm_flight z') t = Dropped \<or> tm_entered z t + await_ms cfg \<le> tm_now z'"
proof (cases a)
  case (Tick ms)
  then show ?thesis using run w by auto
next
  case (Do x)
  have act: "co_act x (tm_flight z) = Some (tm_flight z')" "\<not> too_early cfg x z"
    using timed_step_flight(1) [OF run] Do by auto
  have len: "t < length (fl_tasks (tm_flight z))" using w by (auto simp: task_at_def split: if_splits)
  show ?thesis
  proof (cases "x = TimeOut t \<or> x = Cancel t")
    case True
    then show ?thesis
    proof
      assume "x = TimeOut t"
      then show ?thesis using act(2) timed_step_flight(2) [OF run] by simp
    next
      assume "x = Cancel t"
      then have "tm_flight z' = move t Dropped (tm_flight z)" using act(1) w by simp
      then show ?thesis using len by (simp add: task_at_move)
    qed
  next
    case False
    then have stay: "task_at (tm_flight z') t = Waiting k c b" using leaked_waits [OF lk w act(1)] by blast
    have "entering x \<noteq> Some t" using act(1) w by (cases x) (auto split: task.splits)
    then have "tm_entered z' t = tm_entered z t" using run Do by (auto split: if_splits option.splits)
    with stay show ?thesis by blast
  qed
qed

lemma timed_run_waits:
  "leaked n (tm_flight z) k c \<Longrightarrow> task_at (tm_flight z) t = Waiting k c b \<Longrightarrow> timed_run cfg as z = Some z' \<Longrightarrow>
   task_at (tm_flight z') t = Waiting k c b \<or> task_at (tm_flight z') t = Dropped
     \<or> tm_entered z t + await_ms cfg \<le> tm_now z'"
proof (induction as arbitrary: z)
  case (Cons a as)
  then obtain z1 where z1: "timed_step cfg a z = Some z1" "timed_run cfg as z1 = Some z'" by (auto split: option.splits)
  note lk = timed_step_leaked [OF Cons.prems(1) z1(1)]
  from timed_step_waits [OF Cons.prems(1,2) z1(1)] show ?case
  proof (elim disjE)
    assume "task_at (tm_flight z1) t = Waiting k c b \<and> tm_entered z1 t = tm_entered z t"
    then show ?thesis using Cons.IH [OF lk _ z1(2)] by auto
  next
    assume "task_at (tm_flight z1) t = Dropped"
    then show ?thesis using timed_dropped [OF z1(2)] by blast
  next
    assume "tm_entered z t + await_ms cfg \<le> tm_now z1"
    then show ?thesis using timed_run_now [OF z1(2)] by linarith
  qed
qed simp

text \<open>C31. The coalescing map leaks. When the request that leads the fetch of a count is dropped while it
  awaits the database, its entry stays for ever, whatever happens later: no request ever leads that count
  again, so none refills the cache as its leader. A request for the count that comes afterwards, single
  or batched, finds the entry and waits: unless it is dropped itself, it is still waiting at any time
  before \<open>db_acquire_timeout_secs\<close>, and at least a second, have passed since it came, because nothing
  is ever sent on the channel and its sender, in the map, is never gone.\<close>

theorem coalescing_leak:
  assumes "co_reach n s" "awaits_db s l k c" "co_act (Cancel l) s = Some (tm_flight z0)"
    and "timed_run cfg as z0 = Some z" "e = Enter t k \<or> e = EnterBatch t k" "timed_step cfg (Do e) z = Some z1"
    and "timed_run cfg bs z1 = Some z2"
  shows "fl_pending (tm_flight z2) k = Some c \<and> \<not> leads_key (tm_flight z2) k u
       \<and> (task_at (tm_flight z2) t = Waiting k c False \<or> task_at (tm_flight z2) t = Dropped
          \<or> tm_now z + max (db_acquire_timeout_secs cfg) 1 * 1000 \<le> tm_now z2)"
proof -
  note l0 = cancelled_leader_leaks [OF assms(1-3)]
  note l = timed_run_leaked [OF l0 assms(4)]
  note l1 = timed_step_leaked [OF l assms(6)]
  note l2 = timed_run_leaked [OF l1 assms(7)]
  have act: "co_act e (tm_flight z) = Some (tm_flight z1)" using timed_step_flight(1) [OF assms(6)] by auto
  have w: "task_at (tm_flight z1) t = Waiting k c False" by (rule leaked_enter [OF l act assms(5)])
  have "tm_entered z1 t = tm_now z" using assms(5,6) by (auto split: if_splits option.splits task.splits)
  then show ?thesis
    using timed_run_waits [OF l1 w assms(7)] leakedD(2,3) [OF l2] unfolding await_ms_def by auto
qed

text \<open>The leader of a count goes away, and the next request for it
  still waits after almost a second.\<close>

theorem coalescing_leak_witness:
  "\<exists>s z z2. co_run [Enter 0 ''lc:post:7'', Cancel 0] (fl_start 2) = Some s \<and> tm_flight z = s \<and> tm_now z = 0
      \<and> timed_run cfg_small [Do (Enter 1 ''lc:post:7''), Tick 999] z = Some z2
      \<and> \<not> leads_key (tm_flight z2) ''lc:post:7'' 1 \<and> task_at (tm_flight z2) 1 = Waiting ''lc:post:7'' 0 False"
proof -
  let ?k = "''lc:post:7''"
  obtain s0 where s0: "co_run [Enter 0 ?k] (fl_start 2) = Some s0" "task_at s0 0 = Leading ?k 0"
    "fl_tasks s0 = [Leading ?k 0, Idle]"  "fl_pending s0 ?k = Some 0" "fl_value s0 0 = None"
    by (simp add: fl_start_def task_at_def move_def open_entry_def numeral_2_eq_2)
  obtain s where s: "co_act (Cancel 0) s0 = Some s" using s0(2) by simp
  have run: "co_run [Enter 0 ?k, Cancel 0] (fl_start 2) = Some s" using s0(1) s by (auto split: option.splits)
  let ?z = "\<lparr>tm_flight = s, tm_now = 0, tm_entered = \<lambda>_. 0\<rparr>"
  have r: "co_reach 2 s0" using co_reach_run [OF s0(1)] co_reach.start by blast
  have lk: "awaits_db s0 0 ?k 0" using s0(2) by (simp add: awaits_db_def)
  have "\<exists>z1. timed_step cfg_small (Do (Enter 1 ?k)) ?z = Some z1 \<and> tm_now z1 = 0"
    using s s0 by (auto simp: task_at_def move_def)
  then obtain z1 where z1: "timed_step cfg_small (Do (Enter 1 ?k)) ?z = Some z1" "tm_now z1 = 0" by blast
  obtain z2 where z2: "timed_run cfg_small [Tick 999] z1 = Some z2" "tm_now z2 = 999" "tm_flight z2 = tm_flight z1"
    using z1(2) by auto
  have flt: "co_act (Cancel 0) s0 = Some (tm_flight ?z)" using s by simp
  have e: "timed_run cfg_small [] ?z = Some ?z" by simp
  have d: "Enter 1 ?k = Enter 1 ?k \<or> Enter 1 ?k = EnterBatch 1 ?k" by simp
  note leak = coalescing_leak [OF r lk flt e d z1(1) z2(1), of 1]
  have "task_at (tm_flight z2) 1 \<noteq> Dropped"
    using z1(1) s s0 by (auto simp: z2(3) task_at_def move_def)
  moreover have "\<not> max (db_acquire_timeout_secs cfg_small) 1 * 1000 \<le> 999" by simp
  ultimately have "\<not> leads_key (tm_flight z2) ?k 1 \<and> task_at (tm_flight z2) 1 = Waiting ?k 0 False"
    using leak z2(2) by simp
  moreover have "timed_run cfg_small [Do (Enter 1 ?k), Tick 999] ?z = Some z2" using z1(1) z2(1) by simp
  ultimately show ?thesis using run by (intro exI [of _ s] exI [of _ ?z] exI [of _ z2]) simp
qed

end
