(* ===== verification/Rate_Limit.thy ===== *)
theory Rate_Limit
  imports Config Cache
begin

unbundle bit_operations_syntax

text \<open>
  \<open>social-api/src/middleware/rate_limit.rs\<close> and the helper of
  \<open>grpc/interceptors/rate_limit.rs\<close>: the sliding-window script Redis runs, its caller, the
  headers and the 429 response, the per-user and per-IP checks. The second half compares the
  script with the reference sliding window over the log of all admitted requests.
\<close>

section \<open>The script\<close>

text \<open>The sorted-set commands of the script. \<open>ZREMRANGEBYSCORE key 0 c\<close>, \<open>ZADD key s m\<close> (a member
  that is present gets the new score) and the score of \<open>ZRANGE key 0 0\<close>.\<close>

definition zrem_range :: "int \<Rightarrow> (string \<times> int) list \<Rightarrow> (string \<times> int) list" where
  "zrem_range c z = filter (\<lambda>(m, s). \<not> (0 \<le> s \<and> s \<le> c)) z"

definition zadd :: "int \<Rightarrow> string \<Rightarrow> (string \<times> int) list \<Rightarrow> (string \<times> int) list" where
  "zadd s m z =
     (let z = filter (\<lambda>(m', _). m' \<noteq> m) z in
      takeWhile (\<lambda>(_, s'). s' \<le> s) z @ [(m, s)] @ dropWhile (\<lambda>(_, s'). s' \<le> s) z)"

definition script_reset :: "int \<Rightarrow> int \<Rightarrow> int \<Rightarrow> (string \<times> int) list \<Rightarrow> int" where
  "script_reset now window def z =
     (case z of
        [] \<Rightarrow> def
      | (m, s) # _ \<Rightarrow> (let reset_ms = s + window - now in if reset_ms < 0 then 0 else reset_ms))"

definition rate_limit_script :: "int \<Rightarrow> int \<Rightarrow> int \<Rightarrow> string \<Rightarrow> script_effect" where
  "rate_limit_script now window limit member z =
     (let z = zrem_range (now - window) z;
          count = int (length z) in
      if count \<ge> limit then
        (RArray [RInt 0, RInt count, RInt limit, RInt (script_reset now window 0 z)], z, None)
      else
        (let z = zadd now member z in
         (RArray [RInt 1, RInt (count + 1), RInt limit, RInt (script_reset now window window z)],
          z, Some (nat ((window + 999) div 1000) + 10))))"

section \<open>The caller\<close>

record rate_limit_result =
  allowed :: bool
  rl_current :: int
  rl_limit :: int
  reset_secs :: nat

fun extract_int :: "redis_value \<Rightarrow> int option" where
  "extract_int (RInt n) = Some n"
| "extract_int _ = None"

definition unwrap_or :: "'a option \<Rightarrow> 'a \<Rightarrow> 'a" where
  "unwrap_or r d = (case r of None \<Rightarrow> d | Some v \<Rightarrow> v)"

text \<open>The casts between \<open>u64\<close> and \<open>i64\<close>, and the ceiling division with its clamp.\<close>

definition as_i64 :: "nat \<Rightarrow> int" where
  "as_i64 n = (if n < 2 ^ 63 then int n else int n - 2 ^ 64)"

definition as_u64 :: "int \<Rightarrow> nat" where
  "as_u64 i = nat (i mod 2 ^ 64)"

definition ceil_secs :: "int \<Rightarrow> nat \<Rightarrow> nat" where
  "ceil_secs reset_ms window_secs =
     (let secs = min (as_u64 reset_ms + 999) (2 ^ 64 - 1) div 1000 in
      max 1 (min secs window_secs))"

definition rate_limit_of_reply :: "redis_value option \<Rightarrow> nat \<Rightarrow> nat \<Rightarrow> rate_limit_result" where
  "rate_limit_of_reply reply limit window_secs =
     (let fail_open = \<lparr>allowed = True, rl_current = 0, rl_limit = as_i64 limit,
                       reset_secs = window_secs\<rparr> in
      case reply of
        Some (RArray (v0 # v1 # v2 # rest)) \<Rightarrow>
          \<lparr>allowed = (unwrap_or (extract_int v0) 1 = 1),
           rl_current = unwrap_or (extract_int v1) 0,
           rl_limit = unwrap_or (extract_int v2) (as_i64 limit),
           reset_secs =
             (case rest of
                v3 # _ \<Rightarrow> ceil_secs (unwrap_or (extract_int v3) (int (window_secs * 1000))) window_secs
              | [] \<Rightarrow> window_secs)\<rparr>
      | _ \<Rightarrow> fail_open)"

definition rate_limit_member :: "nat \<Rightarrow> u64 \<Rightarrow> string" where
  "rate_limit_member now seq = show_nat now @ '':'' @ show_nat (unat seq)"

text \<open>The process-wide counter \<open>RATE_LIMIT_COUNTER\<close> is threaded as \<open>seq\<close>.\<close>

definition check_rate_limit_inner ::
  "'w ext \<Rightarrow> string \<Rightarrow> nat \<Rightarrow> nat \<Rightarrow> u64 \<times> 'w \<Rightarrow> rate_limit_result \<times> u64 \<times> 'w" where
  "check_rate_limit_inner x key limit window_secs = (\<lambda>(seq, w).
     (case unix_millis x w of (now, w) \<Rightarrow>
        (let window_ms = (window_secs * 1000) mod 2 ^ 64;
             member = rate_limit_member now seq in
         case cm_invoke_script x key (rate_limit_script (int now) (int window_ms) (int limit) member) w of
           (reply, w) \<Rightarrow> (rate_limit_of_reply reply limit window_secs, seq + 1, w))))"

section \<open>Keys\<close>

definition fnv_offset :: u64 where "fnv_offset = 0xcbf29ce484222325"
definition fnv_prime :: u64 where "fnv_prime = 0x00000100000001B3"

definition fnv_step :: "u64 \<Rightarrow> char \<Rightarrow> u64" where
  "fnv_step hash byte = (hash XOR of_char byte) * fnv_prime"

definition fnv1a_hash :: "string \<Rightarrow> u64" where
  "fnv1a_hash input = foldl fnv_step fnv_offset input"

definition show_u64 :: "u64 \<Rightarrow> string" where
  "show_u64 h = show_nat (unat h)"

definition user_write_key :: "codec \<Rightarrow> uuid \<Rightarrow> string" where
  "user_write_key cx user = ''rl:user:write:'' @ show_u64 (fnv1a_hash (uuid_show cx user))"

definition user_read_key :: "codec \<Rightarrow> uuid \<Rightarrow> string" where
  "user_read_key cx user = ''rl:user:read:'' @ show_u64 (fnv1a_hash (uuid_show cx user))"

definition check_user_write_limit ::
  "'w ext \<Rightarrow> codec \<Rightarrow> uuid \<Rightarrow> nat \<Rightarrow> u64 \<times> 'w \<Rightarrow> rate_limit_result \<times> u64 \<times> 'w" where
  "check_user_write_limit x cx user limit = check_rate_limit_inner x (user_write_key cx user) limit 60"

definition check_user_read_limit ::
  "'w ext \<Rightarrow> codec \<Rightarrow> uuid \<Rightarrow> nat \<Rightarrow> u64 \<times> 'w \<Rightarrow> rate_limit_result \<times> u64 \<times> 'w" where
  "check_user_read_limit x cx user limit = check_rate_limit_inner x (user_read_key cx user) limit 60"

definition enforce_result :: "rate_limit_result \<Rightarrow> app_error + unit" where
  "enforce_result r =
     (if \<not> allowed r then Inl (RateLimited (of_nat (reset_secs r))) else Inr ())"

definition enforce_user_write_limit ::
  "'w ext \<Rightarrow> codec \<Rightarrow> uuid \<Rightarrow> nat \<Rightarrow> u64 \<times> 'w \<Rightarrow> (app_error + unit) \<times> u64 \<times> 'w" where
  "enforce_user_write_limit x cx user limit s =
     (case check_user_write_limit x cx user limit s of (r, s) \<Rightarrow> (enforce_result r, s))"

definition enforce_user_read_limit ::
  "'w ext \<Rightarrow> codec \<Rightarrow> uuid \<Rightarrow> nat \<Rightarrow> u64 \<times> 'w \<Rightarrow> (app_error + unit) \<times> u64 \<times> 'w" where
  "enforce_user_read_limit x cx user limit s =
     (case check_user_read_limit x cx user limit s of (r, s) \<Rightarrow> (enforce_result r, s))"

definition check_grpc_rate_limit ::
  "'w ext \<Rightarrow> string \<Rightarrow> bool \<Rightarrow> nat \<Rightarrow> nat \<Rightarrow> u64 \<times> 'w \<Rightarrow> ((grpc_code \<times> string) + unit) \<times> u64 \<times> 'w" where
  "check_grpc_rate_limit x identifier is_write write_limit read_limit s =
     (let (pre, limit) = (if is_write then (''rl:user:write'', write_limit)
                          else (''rl:ip:read'', read_limit));
          key = pre @ '':'' @ show_u64 (fnv1a_hash identifier) in
      case check_rate_limit_inner x key limit 60 s of (r, s) \<Rightarrow>
        (if \<not> allowed r then
           (Inl (GResourceExhausted,
                 ''Rate limit exceeded. Retry after '' @ show_nat (reset_secs r) @ ''s''), s)
         else (Inr (), s)))"

section \<open>HTTP\<close>

text \<open>A response: status, headers (\<open>insert\<close> replaces), body.\<close>

record 'b reply =
  rp_status :: nat
  rp_headers :: "(string \<times> string) list"
  rp_body :: 'b

definition set_header :: "string \<Rightarrow> string \<Rightarrow> 'b reply \<Rightarrow> 'b reply" where
  "set_header name val r = r\<lparr>rp_headers := AList.update name val (rp_headers r)\<rparr>"

definition add_rate_limit_headers :: "'b reply \<Rightarrow> rate_limit_result \<Rightarrow> 'b reply" where
  "add_rate_limit_headers response result =
     (let remaining = max (rl_limit result - rl_current result) 0;
          r1 = set_header ''X-RateLimit-Limit'' (show_int (rl_limit result)) response;
          r2 = set_header ''X-RateLimit-Remaining'' (show_int remaining) r1 in
      set_header ''X-RateLimit-Reset'' (show_nat (reset_secs result)) r2)"

text \<open>The body of an error response is the error envelope, injected into the body type by \<open>wrap\<close>.\<close>

definition rate_limited_response :: "(api_error \<Rightarrow> 'b) \<Rightarrow> rate_limit_result \<Rightarrow> 'b reply" where
  "rate_limited_response wrap result =
     (let api_error = api_error_new CRateLimited ''Rate limit exceeded'' ''unknown'';
          response = \<lparr>rp_status = 429, rp_headers = [], rp_body = wrap api_error\<rparr> in
      set_header ''Retry-After'' (show_nat (reset_secs result))
        (add_rate_limit_headers response result))"

definition extract_real_ip :: "string \<Rightarrow> string" where
  "extract_real_ip header_value =
     (case str_split (CHR '','') header_value of
        [] \<Rightarrow> ''unknown''
      | s # _ \<Rightarrow> (let s = str_trim s in if s = [] then ''unknown'' else s))"

text \<open>The middleware: \<open>hdr\<close> looks a request header up (\<open>None\<close> also when it is not a string), \<open>next\<close>
  is the rest of the stack, and \<open>check\<close> is \<open>check_rate_limit_inner\<close> on the state of the caller.\<close>

definition client_ip :: "(string \<Rightarrow> string option) \<Rightarrow> string" where
  "client_ip hdr =
     extract_real_ip
       (case hdr ''x-forwarded-for'' of
          Some v \<Rightarrow> v
        | None \<Rightarrow> (case hdr ''x-real-ip'' of Some v \<Rightarrow> v | None \<Rightarrow> ''unknown''))"

definition read_rate_limit ::
  "(string \<Rightarrow> nat \<Rightarrow> nat \<Rightarrow> 's \<Rightarrow> rate_limit_result \<times> 's) \<Rightarrow> config \<Rightarrow> (api_error \<Rightarrow> 'b) \<Rightarrow> (string \<Rightarrow> string option)
     \<Rightarrow> ('s \<Rightarrow> 'b reply \<times> 's) \<Rightarrow> 's \<Rightarrow> 'b reply \<times> 's" where
  "read_rate_limit check cfg wrap hdr nxt s =
     (let key = ''rl:ip:read:'' @ show_u64 (fnv1a_hash (client_ip hdr));
          limit = rate_limit_read_per_minute cfg in
      case check key limit 60 s of (result, s) \<Rightarrow>
        (if \<not> allowed result then (rate_limited_response wrap result, s)
         else (case nxt s of (response, s) \<Rightarrow> (add_rate_limit_headers response result, s))))"

section \<open>The reference window\<close>

text \<open>The specification: the log of the times admitted so far; a request is admitted when fewer than
  \<open>limit\<close> of them lie in the window that ends now.\<close>

definition in_window :: "int \<Rightarrow> int \<Rightarrow> int list \<Rightarrow> int list" where
  "in_window c d hist = filter (\<lambda>t. c < t \<and> t \<le> d) hist"

fun spec_window_run :: "int \<Rightarrow> int \<Rightarrow> int list \<Rightarrow> int list \<Rightarrow> bool list \<times> int list" where
  "spec_window_run window limit [] hist = ([], hist)"
| "spec_window_run window limit (now # ts) hist =
     (if int (length (in_window (now - window) now hist)) \<ge> limit then
        (case spec_window_run window limit ts hist of (ds, hist) \<Rightarrow> (False # ds, hist))
      else
        (case spec_window_run window limit ts (hist @ [now]) of (ds, hist) \<Rightarrow> (True # ds, hist)))"

text \<open>The script on a sequence of requests to one key, each a time and a member.\<close>

definition script_admits :: "redis_value \<Rightarrow> bool" where
  "script_admits r = (case r of RArray (v # _) \<Rightarrow> extract_int v = Some 1 | _ \<Rightarrow> False)"

fun script_run :: "int \<Rightarrow> int \<Rightarrow> (int \<times> string) list \<Rightarrow> (string \<times> int) list
    \<Rightarrow> bool list \<times> (string \<times> int) list" where
  "script_run window limit [] z = ([], z)"
| "script_run window limit ((now, member) # rs) z =
     (case rate_limit_script now window limit member z of (r, z, _) \<Rightarrow>
        (case script_run window limit rs z of (ds, z) \<Rightarrow> (script_admits r # ds, z)))"

text \<open>The set and the log agree: the set holds the log from the last cut on.\<close>

definition zset_of_log :: "int \<Rightarrow> int \<Rightarrow> (string \<times> int) list \<Rightarrow> int list \<Rightarrow> bool" where
  "zset_of_log c T z hist \<longleftrightarrow>
     map snd z = filter (\<lambda>t. c < t) hist \<and> (\<forall>t \<in> set hist. 0 \<le> t \<and> t \<le> T)"

lemma zrem_range_nonneg:
  "\<forall>(m, s) \<in> set z. 0 \<le> s \<Longrightarrow> zrem_range c z = filter (\<lambda>(m, s). c < s) z"
  by (auto simp: zrem_range_def intro!: filter_cong)

lemma map_snd_filter: "map snd (filter (\<lambda>(m, s). P s) z) = filter P (map snd z)"
  by (induction z) auto

lemma zset_of_log_prune:
  assumes "zset_of_log c T z hist" "c \<le> now - window" "T \<le> now"
  shows "zset_of_log (now - window) now (zrem_range (now - window) z) hist"
    and "length (zrem_range (now - window) z) = length (in_window (now - window) now hist)"
proof -
  have "\<forall>(m, s) \<in> set z. 0 \<le> s"
  proof clarify
    fix m s assume "(m, s) \<in> set z"
    then have "s \<in> set (map snd z)" by force
    then have "s \<in> set (filter (\<lambda>t. c < t) hist)"
      using assms(1) unfolding zset_of_log_def by metis
    then show "0 \<le> s" using assms(1) by (simp add: zset_of_log_def)
  qed
  then have "map snd (zrem_range (now - window) z) = filter (\<lambda>t. now - window < t) (map snd z)"
    by (simp add: zrem_range_nonneg map_snd_filter)
  also have "\<dots> = filter (\<lambda>t. now - window < t) hist"
    using assms(1,2) by (auto simp: zset_of_log_def intro!: filter_cong)
  finally have m: "map snd (zrem_range (now - window) z) = filter (\<lambda>t. now - window < t) hist" .
  then show "zset_of_log (now - window) now (zrem_range (now - window) z) hist"
    using assms by (force simp: zset_of_log_def)
  have "filter (\<lambda>t. now - window < t) hist = in_window (now - window) now hist"
    using assms by (force simp: zset_of_log_def in_window_def intro!: filter_cong)
  then show "length (zrem_range (now - window) z) = length (in_window (now - window) now hist)"
    using arg_cong [OF m, of length] by simp
qed

lemma zadd_fresh:
  assumes "m \<notin> fst ` set z" "\<forall>s \<in> set (map snd z). s \<le> now"
  shows "zadd now m z = z @ [(m, now)]"
proof -
  have "filter (\<lambda>(m', _). m' \<noteq> m) z = z"
    using assms(1) by (force simp: filter_id_conv)
  moreover have "takeWhile (\<lambda>(_, s'). s' \<le> now) z = z" "dropWhile (\<lambda>(_, s'). s' \<le> now) z = []"
    using assms(2) by (auto simp: takeWhile_eq_all_conv dropWhile_eq_Nil_conv)
  ultimately show ?thesis by (simp add: zadd_def)
qed

lemma set_zrem_range: "set (zrem_range c z) \<subseteq> set z"
  by (auto simp: zrem_range_def)

lemma script_run_spec:
  assumes "zset_of_log c T z hist" "c \<le> T - window" "0 < window"
    "sorted (T # map fst rs)" "0 \<le> T" "distinct (map snd rs)" "fst ` set z \<inter> set (map snd rs) = {}"
  shows "fst (script_run window limit rs z) = fst (spec_window_run window limit (map fst rs) hist)"
  using assms
proof (induction rs arbitrary: z hist c T)
  case Nil
  then show ?case by simp
next
  case (Cons r rs)
  obtain now m where r: "r = (now, m)" by (cases r)
  let ?z = "zrem_range (now - window) z"
  have le: "c \<le> now - window" "T \<le> now" "0 \<le> now" using Cons.prems r by auto
  note pr = zset_of_log_prune [OF Cons.prems(1) le(1,2)]
  have mem: "fst ` set ?z \<subseteq> fst ` set z" using set_zrem_range by fastforce
  have disj: "fst ` set ?z \<inter> set (map snd rs) = {}"
    using Cons.prems(7) mem r by (simp add: disjoint_iff subset_iff)
  have sorted: "sorted (now # map fst rs)" using Cons.prems(4) r by simp
  show ?case
  proof (cases "int (length ?z) \<ge> limit")
    case True
    have "fst (script_run window limit rs ?z) = fst (spec_window_run window limit (map fst rs) hist)"
      using Cons.prems(3,6) disj sorted le r by (intro Cons.IH [OF pr(1)]) simp_all
    then show ?thesis
      using True pr(2) r
      by (simp add: rate_limit_script_def Let_def script_admits_def case_prod_unfold)
  next
    case False
    have fresh: "zadd now m ?z = ?z @ [(m, now)]"
    proof (rule zadd_fresh)
      show "m \<notin> fst ` set ?z" using Cons.prems mem r by auto
      show "\<forall>s \<in> set (map snd ?z). s \<le> now" using pr(1) by (auto simp: zset_of_log_def)
    qed
    have "zset_of_log (now - window) now (?z @ [(m, now)]) (hist @ [now])"
      using pr(1) Cons.prems(3) le by (auto simp: zset_of_log_def)
    then have "fst (script_run window limit rs (?z @ [(m, now)])) =
        fst (spec_window_run window limit (map fst rs) (hist @ [now]))"
      using Cons.prems(3,6) disj sorted le r
      by (intro Cons.IH [where c = "now - window" and T = now]) auto
    then show ?thesis
      using False pr(2) r fresh
      by (simp add: rate_limit_script_def Let_def script_admits_def case_prod_unfold)
  qed
qed

definition admitted :: "int list \<Rightarrow> bool list \<Rightarrow> int list" where
  "admitted ts ds = map fst (filter snd (zip ts ds))"

lemma spec_hist:
  "snd (spec_window_run window limit ts hist) =
     hist @ admitted ts (fst (spec_window_run window limit ts hist))"
  by (induction ts arbitrary: hist) (simp_all add: admitted_def case_prod_unfold)

lemma length_filter_imp: "(\<And>t. t \<in> set xs \<Longrightarrow> P t \<Longrightarrow> Q t) \<Longrightarrow> length (filter P xs) \<le> length (filter Q xs)"
  by (induction xs) (auto intro: le_SucI)

lemma spec_window_bound:
  assumes "\<forall>a. int (length (in_window a (a + window) hist)) \<le> limit"
    "sorted (hist @ ts)" "0 < window"
  shows "int (length (in_window a (a + window) (snd (spec_window_run window limit ts hist)))) \<le> limit"
  using assms
proof (induction ts arbitrary: hist)
  case Nil
  then show ?case by simp
next
  case (Cons now ts)
  show ?case
  proof (cases "int (length (in_window (now - window) now hist)) \<ge> limit")
    case True
    have "sorted (hist @ ts)" using Cons.prems(2) by (simp add: sorted_append)
    with True Cons show ?thesis by (simp add: case_prod_unfold)
  next
    case False
    have "int (length (in_window b (b + window) (hist @ [now]))) \<le> limit" for b
    proof (cases "b < now \<and> now \<le> b + window")
      case True
      have "length (in_window b (b + window) hist) \<le> length (in_window (now - window) now hist)"
        unfolding in_window_def using True Cons.prems(2)
        by (intro length_filter_imp) (auto simp: sorted_append)
      with True \<open>\<not> limit \<le> _\<close> show ?thesis by (simp add: in_window_def)
    next
      case False
      then have "in_window b (b + window) (hist @ [now]) = in_window b (b + window) hist"
        by (auto simp: in_window_def)
      with Cons.prems(1) show ?thesis by simp
    qed
    moreover have "sorted ((hist @ [now]) @ ts)" using Cons.prems(2) by simp
    ultimately show ?thesis using False Cons.IH [of "hist @ [now]"] Cons.prems(3)
      by (simp add: case_prod_unfold)
  qed
qed

text \<open>C15. The Redis script is the sliding window: on requests to one key whose clock readings do not go
  back and whose members are distinct, started from an empty set, it admits exactly the requests
  that have fewer than \<open>limit\<close> admitted ones in the window before them.\<close>

theorem rate_limit_script_spec:
  assumes "sorted (map fst rs)" "\<forall>(t, m) \<in> set rs. 0 \<le> t" "distinct (map snd rs)" "0 < window"
  shows "fst (script_run window limit rs []) = fst (spec_window_run window limit (map fst rs) [])"
proof (cases rs)
  case (Cons r rs')
  then have "sorted (fst r # map fst rs)" "0 \<le> fst r" using assms(1,2) by auto
  moreover have "zset_of_log (fst r - window) (fst r) [] []" by (simp add: zset_of_log_def)
  ultimately show ?thesis using assms by (intro script_run_spec) auto
qed simp

theorem rate_limit_script_spec_witness:
  "fst (script_run 60000 2 [(1000, ''a''), (1000, ''b''), (5000, ''c''), (61000, ''d'')] [])
     = [True, True, False, True]"
  using rate_limit_script_spec [of "[(1000, ''a''), (1000, ''b''), (5000, ''c''), (61000, ''d'')]" 60000 2]
  by (simp add: in_window_def)

text \<open>C16. The limit holds in every window, not only those that end at a request: whatever interval of
  the window's length is looked at, at most \<open>limit\<close> requests in it were admitted.\<close>

theorem rate_limit_window_bound:
  assumes "sorted (map fst rs)" "\<forall>(t, m) \<in> set rs. 0 \<le> t" "distinct (map snd rs)" "0 < window" "0 \<le> limit"
  shows "int (length (in_window a (a + window)
           (admitted (map fst rs) (fst (script_run window limit rs []))))) \<le> limit"
  using spec_window_bound [of window "[]" limit "map fst rs" a] assms
    rate_limit_script_spec [OF assms(1-4), of limit] spec_hist [of window limit "map fst rs" "[]"]
  by (simp add: in_window_def)

theorem rate_limit_window_bound_witness:
  "int (length (in_window 900 60900
     (admitted [1000, 1000, 5000] (fst (script_run 60000 2 [(1000, ''a''), (1000, ''b''), (5000, ''c'')] [])))))
   \<le> 2"
  using rate_limit_window_bound [of "[(1000, ''a''), (1000, ''b''), (5000, ''c'')]" 60000 2 900] by simp

text \<open>A request that is denied changes nothing but what has left the window, and reports when the
  oldest entry leaves; one that is admitted adds itself and an expiry that outlives every entry it
  keeps, so an idle key never forgets a request that still counts.\<close>

theorem rate_limit_script_effect:
  assumes "\<forall>(m, s) \<in> set z. 0 \<le> s \<and> s \<le> now" "0 < window"
    "rate_limit_script now window limit member z = (r, z', e)"
  shows "(\<not> script_admits r \<longrightarrow> z' = filter (\<lambda>(m, s). now - window < s) z \<and> e = None)
    \<and> (script_admits r \<longrightarrow> (member, now) \<in> set z' \<and>
         (\<exists>secs. e = Some secs \<and> (\<forall>(m, s) \<in> set z'. s + window < now + int secs * 1000)))"
proof -
  have prune: "zrem_range (now - window) z = filter (\<lambda>(m, s). now - window < s) z"
    using assms(1) by (intro zrem_range_nonneg) auto
  have le: "\<forall>(m, s) \<in> set (zadd now member (zrem_range (now - window) z)). s \<le> now"
    using assms(1) by (auto simp: zadd_def Let_def zrem_range_def dest!: set_takeWhileD set_dropWhileD)
  have mem: "(member, now) \<in> set (zadd now member (zrem_range (now - window) z))"
    by (simp add: zadd_def Let_def)
  have "(window + 999) div 1000 * 1000 + (window + 999) mod 1000 = window + 999"
    "(window + 999) mod 1000 < 1000" "0 \<le> (window + 999) div 1000"
    using assms(2) by (simp_all add: pos_imp_zdiv_nonneg_iff)
  then have "window < int (nat ((window + 999) div 1000) + 10) * 1000" by simp
  with le have ttl: "\<forall>(m, s) \<in> set (zadd now member (zrem_range (now - window) z)).
      s + window < now + int (nat ((window + 999) div 1000) + 10) * 1000"
    by fastforce
  show ?thesis
    using assms(3) prune mem ttl
    by (auto simp: rate_limit_script_def Let_def script_admits_def split: if_splits)
qed

theorem rate_limit_script_effect_witness:
  "fst (snd (rate_limit_script 5000 60000 2 ''b'' [(''a'', 1000)])) = [(''a'', 1000), (''b'', 5000)]
   \<and> (''b'', 5000) \<in> set (fst (snd (rate_limit_script 5000 60000 2 ''b'' [(''a'', 1000)])))"
proof -
  have run: "rate_limit_script 5000 60000 2 ''b'' [(''a'', 1000)] =
      (RArray [RInt 1, RInt 2, RInt 2, RInt 56000], [(''a'', 1000), (''b'', 5000)], Some 70)"
    by (simp add: rate_limit_script_def zrem_range_def zadd_def script_reset_def)
  from rate_limit_script_effect [OF _ _ run] show ?thesis
    by (simp add: run script_admits_def)
qed

text \<open>The limiter fails open and its \<open>Retry-After\<close> is sane: whatever Redis answers, the reset is
  between one second and the window, a missing or malformed reply allows the request, and a refusal
  only ever comes from a reply whose first element is an integer other than 1.\<close>

theorem rate_limit_reply_sound:
  assumes "0 < window_secs"
  shows "1 \<le> reset_secs (rate_limit_of_reply reply limit window_secs)
    \<and> reset_secs (rate_limit_of_reply reply limit window_secs) \<le> window_secs
    \<and> (\<not> allowed (rate_limit_of_reply reply limit window_secs) \<longrightarrow>
         (\<exists>n rest. reply = Some (RArray (RInt n # rest)) \<and> n \<noteq> 1 \<and> 2 \<le> length rest))"
proof (cases "\<exists>v0 v1 v2 rest. reply = Some (RArray (v0 # v1 # v2 # rest))")
  case True
  then obtain v0 v1 v2 rest where "reply = Some (RArray (v0 # v1 # v2 # rest))" by auto
  then show ?thesis using assms
    by (cases v0) (auto simp: rate_limit_of_reply_def ceil_secs_def Let_def unwrap_or_def split: list.splits)
next
  case False
  then have "rate_limit_of_reply reply limit window_secs =
      \<lparr>allowed = True, rl_current = 0, rl_limit = as_i64 limit, reset_secs = window_secs\<rparr>"
    by (auto simp: rate_limit_of_reply_def Let_def split: option.split redis_value.split list.split)
  with assms show ?thesis by simp
qed

theorem rate_limit_reply_sound_witness:
  "allowed (rate_limit_of_reply None 30 60) \<and> reset_secs (rate_limit_of_reply None 30 60) \<le> 60"
  using rate_limit_reply_sound [of 60 None 30] by auto

text \<open>C38. \<open>Retry-After\<close> is honest: a client that is refused while the key holds no more than \<open>limit\<close>
  entries, and comes back after the seconds it was told with nobody else admitted in between, is
  admitted.\<close>

theorem rate_limit_retry_admitted:
  assumes "\<forall>(m, s) \<in> set z. 0 \<le> s \<and> s \<le> now" "int (length z) \<le> int limit" "0 < limit" "limit < 2 ^ 63"
    "rate_limit_script now 60000 (int limit) member z = (r, z', e)" "\<not> script_admits r"
  shows "script_admits (fst (rate_limit_script
           (now + int (reset_secs (rate_limit_of_reply (Some r) limit 60)) * 1000) 60000 (int limit) member' z'))"
proof -
  let ?z = "zrem_range (now - 60000) z"
  have zp: "?z = filter (\<lambda>(m, s). now - 60000 < s) z"
    using assms(1) by (intro zrem_range_nonneg) auto
  have den: "z' = ?z" "int limit \<le> int (length ?z)"
    "r = RArray [RInt 0, RInt (int (length ?z)), RInt (int limit), RInt (script_reset now 60000 0 ?z)]"
    using assms(5,6) by (auto simp: rate_limit_script_def Let_def script_admits_def split: if_splits)
  obtain m s rest where zc: "?z = (m, s) # rest"
    using den(2) assms(3) by (cases ?z) auto
  then have "(m, s) \<in> set ?z" by simp
  then have s: "0 \<le> s" "s \<le> now" "now - 60000 < s" using assms(1) unfolding zp by auto
  let ?ms = "s + 60000 - now"
  have reset: "script_reset now 60000 0 ?z = ?ms" "0 < ?ms" "?ms \<le> 60000"
    using s zc by (auto simp: script_reset_def Let_def)
  define q where "q = reset_secs (rate_limit_of_reply (Some r) limit 60)"
  have "as_u64 ?ms = nat ?ms"
    using reset(2,3) by (simp add: as_u64_def)
  then have "q = max 1 (min ((nat ?ms + 999) div 1000) 60)"
    using reset(2,3) by (simp add: q_def den(3) reset(1) rate_limit_of_reply_def ceil_secs_def unwrap_or_def Let_def)
  moreover have "(nat ?ms + 999) div 1000 \<le> 60" using reset(2,3) by simp
  moreover have "nat ?ms \<le> (nat ?ms + 999) div 1000 * 1000"
    using div_mult_mod_eq [of "nat ?ms + 999" 1000] mod_less_divisor [of 1000 "nat ?ms + 999"] by linarith
  ultimately have "nat ?ms \<le> q * 1000" by (simp add: max_def)
  then have out: "s \<le> now + int q * 1000 - 60000" using reset(2) by linarith
  have "length (zrem_range (now + int q * 1000 - 60000) ?z) < length ?z"
    using out s(1) zc by (simp add: zrem_range_def le_imp_less_Suc)
  moreover have "length ?z \<le> limit"
    using assms(2) unfolding zrem_range_def by (intro le_trans [OF length_filter_le]) simp
  ultimately show ?thesis
    unfolding q_def [symmetric] den(1)
    by (simp add: rate_limit_script_def Let_def script_admits_def)
qed

theorem rate_limit_retry_admitted_witness:
  "script_admits (fst (rate_limit_script (5000 + 56 * 1000) 60000 1 ''c'' [(''a'', 1000)]))"
proof -
  have "rate_limit_script 5000 60000 (int 1) ''b'' [(''a'', 1000)] =
      (RArray [RInt 0, RInt 1, RInt 1, RInt 56000], [(''a'', 1000)], None)"
    by (simp add: rate_limit_script_def zrem_range_def script_reset_def)
  from rate_limit_retry_admitted [OF _ _ _ _ this, of "''c''"] show ?thesis
    by (simp add: script_admits_def rate_limit_of_reply_def ceil_secs_def unwrap_or_def as_u64_def)
qed

end
