(* ===== verification/Content_Client.thy ===== *)
theory Content_Client
  imports Config Sample_World
begin

text \<open>
  \<open>social-api/src/clients/content_client.rs\<close> and \<open>grpc_content_client.rs\<close>: the two
  implementations of the trait \<open>ContentValidator\<close>. Both look the verdict up in the cache, ask the
  content service otherwise, and cache what it said; a failing service is an error and is never
  cached. Latency metrics are left out. The trait is the locale \<open>content_validation\<close>, interpreted on both.
\<close>

datatype validation_outcome = Cached bool | Remote bool

fun outcome_valid :: "validation_outcome \<Rightarrow> bool" where
  "outcome_valid (Cached v) = v"
| "outcome_valid (Remote v) = v"

definition cv_cache_key :: "codec \<Rightarrow> string \<Rightarrow> uuid \<Rightarrow> string" where
  "cv_cache_key cx ct cid = ''cv:'' @ ct @ '':'' @ uuid_show cx cid"

definition content_unavailable :: app_error where
  "content_unavailable = DependencyUnavailable ''content_api''"

section \<open>HTTP\<close>

definition is_success :: "nat \<Rightarrow> bool" where
  "is_success status \<longleftrightarrow> 200 \<le> status \<and> status < 300"

definition is_server_error :: "nat \<Rightarrow> bool" where
  "is_server_error status \<longleftrightarrow> 500 \<le> status \<and> status < 600"

definition content_request :: "codec \<Rightarrow> string \<Rightarrow> string \<Rightarrow> uuid \<Rightarrow> http_request" where
  "content_request cx base_url ct cid =
     \<lparr>hr_url = base_url @ ''/v1/'' @ ct @ ''/'' @ uuid_show cx cid, hr_bearer = None, hr_timeout_secs = 5\<rparr>"

definition http_content_validate ::
  "'w ext \<Rightarrow> codec \<Rightarrow> config \<Rightarrow> string \<Rightarrow> uuid \<Rightarrow> 'w \<Rightarrow> (app_error + validation_outcome) \<times> 'w" where
  "http_content_validate x cx cfg ct cid w =
     (case content_api_url cfg ct of
        None \<Rightarrow> (Inl (ContentTypeUnknown ct), w)
      | Some base_url \<Rightarrow>
          (let cache_key = cv_cache_key cx ct cid in
           case cm_get x cache_key w of
             (Some cached, w) \<Rightarrow> (Inr (Cached (cached = ''1'')), w)
           | (None, w) \<Rightarrow>
               (case http_send x (content_request cx base_url ct cid) w of
                  (Inl e, w) \<Rightarrow> (Inl content_unavailable, w)
                | (Inr response, w) \<Rightarrow>
                    (let status = hs_status response in
                     if is_success status then
                       (Inr (Remote True),
                        cm_set x cache_key ''1'' (cache_ttl_content_validation_secs cfg) w)
                     else if is_server_error status then (Inl content_unavailable, w)
                     else (Inr (Remote False), cm_set x cache_key ''0'' 60 w)))))"

section \<open>gRPC\<close>

definition grpc_content_validate_call ::
  "'w ext \<Rightarrow> codec \<Rightarrow> config \<Rightarrow> string \<Rightarrow> uuid \<Rightarrow> 'w \<Rightarrow> (app_error + validation_outcome) \<times> 'w" where
  "grpc_content_validate_call x cx cfg ct cid w =
     (let cache_key = cv_cache_key cx ct cid in
      case cm_get x cache_key w of
        (Some cached, w) \<Rightarrow> (Inr (Cached (cached = ''1'')), w)
      | (None, w) \<Rightarrow>
          (case grpc_content_validate x ct (uuid_show cx cid) (upstream_request_timeout_secs cfg) w of
             (GrpcReply valid, w) \<Rightarrow>
               (let ttl = (if valid then cache_ttl_content_validation_secs cfg else 60) in
                (Inr (Remote valid), cm_set x cache_key (if valid then ''1'' else ''0'') ttl w))
           | (GrpcStatus c msg, w) \<Rightarrow> (Inl content_unavailable, w)
           | (GrpcTimeout, w) \<Rightarrow> (Inl content_unavailable, w)))"

section \<open>The contract\<close>

text \<open>Keys of different items differ.\<close>

lemma cv_cache_key_inject:
  "uuid_codec_ok cx \<Longrightarrow> cv_cache_key cx a u = cv_cache_key cx b v \<longleftrightarrow> a = b \<and> u = v"
  by (simp add: cv_cache_key_def colon_key_inject)

text \<open>The verdicts in the cache agree with what the content service says, \<open>truth\<close>.\<close>

definition cv_entry :: "codec \<Rightarrow> (string \<Rightarrow> uuid \<Rightarrow> bool) \<Rightarrow> string \<Rightarrow> string \<Rightarrow> bool" where
  "cv_entry cx truth k v \<longleftrightarrow>
     (\<forall>ct cid. k = cv_cache_key cx ct cid \<longrightarrow> (v = ''1'' \<longleftrightarrow> truth ct cid))"

lemma cv_entry_own:
  "uuid_codec_ok cx \<Longrightarrow> cv_entry cx truth (cv_cache_key cx ct cid) v \<longleftrightarrow> (v = ''1'' \<longleftrightarrow> truth ct cid)"
  by (auto simp: cv_entry_def cv_cache_key_inject)

lemma cv_entry_other: "take 3 k \<noteq> ''cv:'' \<Longrightarrow> cv_entry cx truth k v"
  by (auto simp: cv_entry_def cv_cache_key_def)

type_synonym 'w client_env = "'w ext \<times> codec \<times> config"

text \<open>A content service that tells the truth whenever it gives a verdict; it may fail at any time.\<close>

fun http_content_env ::
  "'w client_env \<Rightarrow> ('w \<Rightarrow> string \<Rightarrow> string \<Rightarrow> bool) \<Rightarrow> (string \<Rightarrow> uuid \<Rightarrow> bool) \<Rightarrow> bool" where
  "http_content_env (x, cx, cfg) H truth \<longleftrightarrow> store_ok x H \<and> uuid_codec_ok cx \<and>
     (\<forall>base ct cid w r. fst (http_send x (content_request cx base ct cid) w) = Inr r \<longrightarrow>
        content_api_url cfg ct = Some base \<longrightarrow> \<not> is_server_error (hs_status r) \<longrightarrow>
        is_success (hs_status r) = truth ct cid)"

fun grpc_content_env ::
  "'w client_env \<Rightarrow> ('w \<Rightarrow> string \<Rightarrow> string \<Rightarrow> bool) \<Rightarrow> (string \<Rightarrow> uuid \<Rightarrow> bool) \<Rightarrow> bool" where
  "grpc_content_env (x, cx, cfg) H truth \<longleftrightarrow> store_ok x H \<and> uuid_codec_ok cx \<and>
     (\<forall>ct cid t w v. fst (grpc_content_validate x ct (uuid_show cx cid) t w) = GrpcReply v \<longrightarrow>
        v = truth ct cid)"

fun http_validator :: "'w client_env \<Rightarrow> string \<Rightarrow> uuid \<Rightarrow> 'w \<Rightarrow> (app_error + validation_outcome) \<times> 'w" where
  "http_validator (x, cx, cfg) = http_content_validate x cx cfg"

fun grpc_validator :: "'w client_env \<Rightarrow> string \<Rightarrow> uuid \<Rightarrow> 'w \<Rightarrow> (app_error + validation_outcome) \<times> 'w" where
  "grpc_validator (x, cx, cfg) = grpc_content_validate_call x cx cfg"

lemmas store_step_entries = store_shrinks [THEN entries_shrinks]

text \<open>The entry a validation may add to the cache: what the service said of the item, if it was asked.\<close>

definition verdict_entry ::
  "codec \<Rightarrow> string \<Rightarrow> uuid \<Rightarrow> app_error + validation_outcome \<Rightarrow> (string \<times> string) set" where
  "verdict_entry cx ct cid r =
     (case r of
        Inr (Remote v) \<Rightarrow> {(cv_cache_key cx ct cid, if v then ''1'' else ''0'')}
      | _ \<Rightarrow> {})"

text \<open>The trait: a verdict is the truth, the cached verdicts stay true, nothing but the verdict is written
  to the cache, and the only errors are that the service is unavailable or the type unknown.\<close>

locale content_validation =
  fixes validate :: "'w client_env \<Rightarrow> string \<Rightarrow> uuid \<Rightarrow> 'w \<Rightarrow> (app_error + validation_outcome) \<times> 'w"
    and env_ok :: "'w client_env \<Rightarrow> ('w \<Rightarrow> string \<Rightarrow> string \<Rightarrow> bool) \<Rightarrow> (string \<Rightarrow> uuid \<Rightarrow> bool) \<Rightarrow> bool"
  assumes verdict_law: "env_ok (x, cx, cfg) H truth \<Longrightarrow> entries H (cv_entry cx truth) w \<Longrightarrow>
      validate (x, cx, cfg) ct cid w = (r, w') \<Longrightarrow>
      entries H (cv_entry cx truth) w' \<and> (\<forall>out. r = Inr out \<longrightarrow> outcome_valid out = truth ct cid)"
    and error_law: "validate (x, cx, cfg) ct cid w = (Inl e, w') \<Longrightarrow>
      e = content_unavailable \<or> e = ContentTypeUnknown ct"
    and frame_law: "store_ok x H \<Longrightarrow> validate (x, cx, cfg) ct cid w = (r, w') \<Longrightarrow>
      adds_only H (verdict_entry cx ct cid r) w w'"
begin

text \<open>A second question about an item, after the first was answered, is answered the same.\<close>

lemma verdict_stable:
  assumes "env_ok (x, cx, cfg) H truth" "entries H (cv_entry cx truth) w"
    "validate (x, cx, cfg) ct cid w = (Inr a, w1)" "validate (x, cx, cfg) ct cid w1 = (Inr b, w2)"
  shows "outcome_valid a = outcome_valid b"
  using verdict_law [OF assms(1,2,3)] verdict_law [OF assms(1) _ assms(4)] by auto

end

lemma http_validator_sound:
  assumes env: "http_content_env (x, cx, cfg) H truth" and P: "entries H (cv_entry cx truth) w"
    and run: "http_content_validate x cx cfg ct cid w = (r, w')"
  shows "entries H (cv_entry cx truth) w' \<and> (\<forall>out. r = Inr out \<longrightarrow> outcome_valid out = truth ct cid)"
proof (cases "content_api_url cfg ct")
  case None
  then show ?thesis using run P by (auto simp: http_content_validate_def)
next
  case (Some base)
  have ok: "store_ok x H" and u: "uuid_codec_ok cx" using env by simp_all
  obtain c w1 where 1: "cm_get x (cv_cache_key cx ct cid) w = (c, w1)" by fastforce
  note g = cm.get_entry [OF ok P 1]
  obtain q w2 where 2: "http_send x (content_request cx base ct cid) w1 = (q, w2)" by fastforce
  have P2: "entries H (cv_entry cx truth) w2" using store_step_entries(15) [OF ok 2] g by blast
  have honest: "is_success (hs_status rs) = truth ct cid"
    if "q = Inr rs" "\<not> is_server_error (hs_status rs)" for rs
  proof -
    have "fst (http_send x (content_request cx base ct cid) w1) = Inr rs" using 2 that by simp
    then show ?thesis using env Some that(2) by simp
  qed
  have put: "entries H (cv_entry cx truth) (cm_set x (cv_cache_key cx ct cid) v ttl w2)"
    if "v = ''1'' \<longleftrightarrow> truth ct cid" for v ttl
    using cm.put_entry [OF ok P2] cv_entry_own [OF u] that by blast
  have disj: "\<not> (is_success s \<and> is_server_error s)" for s by (simp add: is_success_def is_server_error_def)
  show ?thesis
    using run Some 1 2 g P2 honest put disj cv_entry_own [OF u, of truth ct cid]
    by (auto simp: http_content_validate_def Let_def split: option.splits sum.splits if_splits)
qed

lemma grpc_validator_sound:
  assumes env: "grpc_content_env (x, cx, cfg) H truth" and P: "entries H (cv_entry cx truth) w"
    and run: "grpc_content_validate_call x cx cfg ct cid w = (r, w')"
  shows "entries H (cv_entry cx truth) w' \<and> (\<forall>out. r = Inr out \<longrightarrow> outcome_valid out = truth ct cid)"
proof -
  have ok: "store_ok x H" and u: "uuid_codec_ok cx" using env by simp_all
  obtain c w1 where 1: "cm_get x (cv_cache_key cx ct cid) w = (c, w1)" by fastforce
  note g = cm.get_entry [OF ok P 1]
  obtain q w2 where 2: "grpc_content_validate x ct (uuid_show cx cid) (upstream_request_timeout_secs cfg) w1 = (q, w2)"
    by fastforce
  have P2: "entries H (cv_entry cx truth) w2" using store_step_entries(16) [OF ok 2] g by blast
  have honest: "v = truth ct cid" if "q = GrpcReply v" for v
  proof -
    have "fst (grpc_content_validate x ct (uuid_show cx cid) (upstream_request_timeout_secs cfg) w1) = GrpcReply v"
      using 2 that by simp
    then show ?thesis using env [unfolded grpc_content_env.simps] by blast
  qed
  have put: "entries H (cv_entry cx truth) (cm_set x (cv_cache_key cx ct cid) v ttl w2)"
    if "v = ''1'' \<longleftrightarrow> truth ct cid" for v ttl
    using cm.put_entry [OF ok P2] cv_entry_own [OF u] that by blast
  show ?thesis
    using run 1 2 g P2 honest put cv_entry_own [OF u, of truth ct cid]
    by (auto simp: grpc_content_validate_call_def Let_def split: option.splits grpc_outcome.splits if_splits)
qed

lemma http_validator_frame:
  assumes ok: "store_ok x H" and run: "http_content_validate x cx cfg ct cid w = (r, w')"
  shows "adds_only H (verdict_entry cx ct cid r) w w'"
proof (cases "content_api_url cfg ct")
  case None
  then show ?thesis using run by (auto simp: http_content_validate_def intro: shrinks_adds)
next
  case (Some base)
  let ?k = "cv_cache_key cx ct cid"
  obtain c w1 where 1: "cm_get x ?k w = (c, w1)" by fastforce
  obtain q w2 where 2: "http_send x (content_request cx base ct cid) w1 = (q, w2)" by fastforce
  have s1: "shrinks H w w1" using cm_get_sound [OF ok 1] by simp
  have s2: "shrinks H w w2" using shrinks_trans [OF s1 store_shrinks(15) [OF ok 2]] .
  have put: "adds_only H {(?k, v)} w (cm_set x ?k v ttl w2)" for v ttl
    using adds_after [OF s2 cm_set_adds [OF ok]] .
  show ?thesis
    using run Some 1 2 shrinks_adds [OF s1] shrinks_adds [OF s2] put
    by (auto simp: http_content_validate_def verdict_entry_def Let_def split: option.splits sum.splits if_splits)
qed

lemma grpc_validator_frame:
  assumes ok: "store_ok x H" and run: "grpc_content_validate_call x cx cfg ct cid w = (r, w')"
  shows "adds_only H (verdict_entry cx ct cid r) w w'"
proof -
  let ?k = "cv_cache_key cx ct cid"
  obtain c w1 where 1: "cm_get x ?k w = (c, w1)" by fastforce
  obtain q w2 where 2: "grpc_content_validate x ct (uuid_show cx cid) (upstream_request_timeout_secs cfg) w1 = (q, w2)"
    by fastforce
  have s1: "shrinks H w w1" using cm_get_sound [OF ok 1] by simp
  have s2: "shrinks H w w2" using shrinks_trans [OF s1 store_shrinks(16) [OF ok 2]] .
  have put: "adds_only H {(?k, v)} w (cm_set x ?k v ttl w2)" for v ttl
    using adds_after [OF s2 cm_set_adds [OF ok]] .
  show ?thesis
    using run 1 2 shrinks_adds [OF s1] shrinks_adds [OF s2] put
    by (auto simp: grpc_content_validate_call_def verdict_entry_def Let_def
        split: option.splits grpc_outcome.splits if_splits)
qed

interpretation http_content: content_validation http_validator http_content_env
proof
  fix x :: "'a ext" and cx cfg ct cid w e w'
  assume "http_validator (x, cx, cfg) ct cid w = (Inl e, w')"
  then show "e = content_unavailable \<or> e = ContentTypeUnknown ct"
    by (auto simp: http_content_validate_def Let_def split: option.splits sum.splits prod.splits if_splits)
qed (use http_validator_sound http_validator_frame in simp_all)

interpretation grpc_content: content_validation grpc_validator grpc_content_env
proof
  fix x :: "'a ext" and cx cfg ct cid w e w'
  assume "grpc_validator (x, cx, cfg) ct cid w = (Inl e, w')"
  then show "e = content_unavailable \<or> e = ContentTypeUnknown ct"
    by (auto simp: grpc_content_validate_call_def Let_def
        split: option.splits grpc_outcome.splits prod.splits if_splits)
qed (use grpc_validator_sound grpc_validator_frame in simp_all)

end
