(* ===== verification/Profile_Client.thy ===== *)
theory Profile_Client
  imports Rate_Limit Content_Client
begin

text \<open>
  \<open>social-api/src/clients/profile_client.rs\<close> and \<open>grpc_profile_client.rs\<close>: the two
  implementations of the trait \<open>TokenValidator\<close>. A validated identity is cached under the 64-bit
  FNV-1a hash of the token. The trait is the locale \<open>token_validation\<close>: an identity is the owner's
  as long as the tokens in use do not collide. The last section shows that they can.
\<close>

definition token_cache_key :: "string \<Rightarrow> string" where
  "token_cache_key token = ''tok:'' @ show_hex (unat (fnv1a_hash token))"

definition profile_unavailable :: app_error where
  "profile_unavailable = DependencyUnavailable ''profile_api''"

definition json_bool :: "json_obj \<Rightarrow> string \<Rightarrow> bool option" where
  "json_bool body k = (case map_of body k of Some (JBool b) \<Rightarrow> Some b | _ \<Rightarrow> None)"

definition json_str :: "json_obj \<Rightarrow> string \<Rightarrow> string option" where
  "json_str body k = (case map_of body k of Some (JStr s) \<Rightarrow> Some s | _ \<Rightarrow> None)"

text \<open>What the cache holds for a token, when it parses.\<close>

definition cached_user :: "'w ext \<Rightarrow> codec \<Rightarrow> string \<Rightarrow> 'w \<Rightarrow> authenticated_user option \<times> 'w" where
  "cached_user x cx token w =
     (case cm_get x (token_cache_key token) w of
        (Some cached_json, w) \<Rightarrow> (user_from_json cx cached_json, w)
      | (None, w) \<Rightarrow> (None, w))"

definition cache_user ::
  "'w ext \<Rightarrow> codec \<Rightarrow> nat \<Rightarrow> string \<Rightarrow> authenticated_user \<Rightarrow> 'w \<Rightarrow> 'w" where
  "cache_user x cx ttl token user w =
     (case user_to_json cx user of
        Some json \<Rightarrow> cm_set x (token_cache_key token) json ttl w
      | None \<Rightarrow> w)"

section \<open>HTTP\<close>

definition profile_request :: "string \<Rightarrow> string \<Rightarrow> http_request" where
  "profile_request base_url token =
     \<lparr>hr_url = base_url @ ''/v1/auth/validate'', hr_bearer = Some token, hr_timeout_secs = 5\<rparr>"

text \<open>From the JSON body of a 2xx response to a user.\<close>

definition user_of_body :: "codec \<Rightarrow> json_obj \<Rightarrow> app_error + authenticated_user" where
  "user_of_body cx body =
     (if json_bool body ''valid'' \<noteq> Some True then
        Inl (Unauthorized ''Token validation returned invalid'')
      else (case json_str body ''user_id'' of
          None \<Rightarrow> Inl (Internal ''Missing user_id in profile response'')
        | Some user_id_str \<Rightarrow>
            (let uuid_str = (case str_strip_prefix user_id_str ''usr_'' of
                               Some s \<Rightarrow> s | None \<Rightarrow> user_id_str) in
             case uuid_parse cx uuid_str of
               None \<Rightarrow> Inl (Internal (''Invalid user_id format: '' @ user_id_str))
             | Some user_id \<Rightarrow>
                 Inr \<lparr>au_user_id = user_id,
                      au_display_name = (case json_str body ''display_name'' of
                                           Some s \<Rightarrow> s | None \<Rightarrow> ''Unknown'')\<rparr>)))"

definition user_of_response :: "codec \<Rightarrow> http_response \<Rightarrow> app_error + authenticated_user" where
  "user_of_response cx response =
     (if is_server_error (hs_status response) then Inl profile_unavailable
      else if \<not> is_success (hs_status response) then Inl (Unauthorized ''Invalid or expired token'')
      else (case hs_json response of
          Inl e \<Rightarrow> Inl (Internal (''Failed to parse profile response: '' @ e))
        | Inr body \<Rightarrow> user_of_body cx body))"

definition http_token_validate_call ::
  "'w ext \<Rightarrow> codec \<Rightarrow> config \<Rightarrow> string \<Rightarrow> 'w \<Rightarrow> (app_error + authenticated_user) \<times> 'w" where
  "http_token_validate_call x cx cfg token w =
     (case cached_user x cx token w of
        (Some user, w) \<Rightarrow> (Inr user, w)
      | (None, w) \<Rightarrow>
          (case http_send x (profile_request (profile_api_url cfg) token) w of
             (Inl e, w) \<Rightarrow> (Inl profile_unavailable, w)
           | (Inr response, w) \<Rightarrow>
               (case user_of_response cx response of
                  Inl e \<Rightarrow> (Inl e, w)
                | Inr user \<Rightarrow> (Inr user, cache_user x cx (cache_ttl_user_status_secs cfg) token user w))))"

section \<open>gRPC\<close>

definition user_of_reply :: "codec \<Rightarrow> bool \<times> string \<times> string \<Rightarrow> app_error + authenticated_user" where
  "user_of_reply cx = (\<lambda>(valid, user_id, display_name).
     (if \<not> valid then Inl (Unauthorized ''Token validation returned invalid'')
      else (case uuid_parse cx user_id of
          None \<Rightarrow> Inl (Internal (''Invalid user_id from gRPC: '' @ user_id))
        | Some u \<Rightarrow> Inr \<lparr>au_user_id = u, au_display_name = display_name\<rparr>)))"

definition grpc_token_validate_call ::
  "'w ext \<Rightarrow> codec \<Rightarrow> config \<Rightarrow> string \<Rightarrow> 'w \<Rightarrow> (app_error + authenticated_user) \<times> 'w" where
  "grpc_token_validate_call x cx cfg token w =
     (case cached_user x cx token w of
        (Some user, w) \<Rightarrow> (Inr user, w)
      | (None, w) \<Rightarrow>
          (case grpc_token_validate x token (upstream_request_timeout_secs cfg) w of
             (GrpcReply reply, w) \<Rightarrow>
               (case user_of_reply cx reply of
                  Inl e \<Rightarrow> (Inl e, w)
                | Inr user \<Rightarrow> (Inr user, cache_user x cx (cache_ttl_user_status_secs cfg) token user w))
           | (GrpcStatus c msg, w) \<Rightarrow>
               (if c = GUnauthenticated then (Inl (Unauthorized ''Invalid or expired token''), w)
                else (Inl profile_unavailable, w))
           | (GrpcTimeout, w) \<Rightarrow> (Inl profile_unavailable, w)))"

section \<open>The contract\<close>

text \<open>Cached identities belong to the tokens in use, \<open>owner\<close> being whom the profile service says a
  token belongs to.\<close>

definition tok_entry ::
  "codec \<Rightarrow> (string \<Rightarrow> authenticated_user option) \<Rightarrow> string set \<Rightarrow> string \<Rightarrow> string \<Rightarrow> bool" where
  "tok_entry cx owner T k v \<longleftrightarrow>
     (\<forall>t \<in> T. \<forall>u. k = token_cache_key t \<longrightarrow> user_from_json cx v = Some u \<longrightarrow> owner t = Some u)"

definition user_codec_ok :: "codec \<Rightarrow> bool" where
  "user_codec_ok cx \<longleftrightarrow> (\<forall>u s. user_to_json cx u = Some s \<longrightarrow> user_from_json cx s = Some u)"

text \<open>No two tokens in use share a cache key.\<close>

definition collision_free :: "string set \<Rightarrow> bool" where
  "collision_free T \<longleftrightarrow> inj_on token_cache_key T"

text \<open>What the profile service means by its answers. A JSON body that calls the token valid names its owner, the
  identifier with or without the prefix \<open>usr_\<close>, the name if it has one; a gRPC reply that calls it valid likewise.
  Nothing is assumed of an answer that does not call the token valid.\<close>

definition identifies :: "codec \<Rightarrow> (string \<Rightarrow> authenticated_user option) \<Rightarrow> string \<Rightarrow> json_obj \<Rightarrow> bool" where
  "identifies cx owner t body \<longleftrightarrow>
     (\<forall>s i u. map_of body ''valid'' = Some (JBool True) \<longrightarrow> map_of body ''user_id'' = Some (JStr s) \<longrightarrow>
        s = ''usr_'' @ i \<or> s = i \<and> \<not> str_starts_with s ''usr_'' \<longrightarrow> uuid_parse cx i = Some u \<longrightarrow>
        owner t = Some \<lparr>au_user_id = u,
          au_display_name = (case map_of body ''display_name'' of Some (JStr d) \<Rightarrow> d | _ \<Rightarrow> ''Unknown'')\<rparr>)"

lemma user_of_body_identifies:
  assumes "identifies cx owner t body" "user_of_body cx body = Inr u"
  shows "owner t = Some u"
proof -
  obtain s i v where s: "json_bool body ''valid'' = Some True" "json_str body ''user_id'' = Some s"
      "i = (case str_strip_prefix s ''usr_'' of Some r \<Rightarrow> r | None \<Rightarrow> s)" "uuid_parse cx i = Some v"
      "u = \<lparr>au_user_id = v, au_display_name = (case json_str body ''display_name'' of Some d \<Rightarrow> d | None \<Rightarrow> ''Unknown'')\<rparr>"
    using assms(2) by (auto simp: user_of_body_def Let_def split: option.splits if_splits)
  have "s = ''usr_'' @ i \<or> s = i \<and> \<not> str_starts_with s ''usr_''"
  proof (cases "str_strip_prefix s ''usr_''")
    case None
    then have "\<not> str_starts_with s ''usr_''" by (simp add: str_strip_prefix_def split: if_splits)
    with None s(3) show ?thesis by simp
  next
    case (Some r)
    with s(3) str_strip_prefix_SomeD [OF Some] show ?thesis by simp
  qed
  moreover have "map_of body ''valid'' = Some (JBool True)" "map_of body ''user_id'' = Some (JStr s)"
    using s(1,2) by (simp_all add: json_bool_def json_str_def split: option.splits json_val.splits)
  ultimately show ?thesis
    using assms(1) s(4,5) unfolding identifies_def json_str_def by (auto split: option.splits json_val.splits)
qed

lemma user_of_response_body:
  "user_of_response cx r = Inr u \<Longrightarrow> is_success (hs_status r) \<and> (\<exists>body. hs_json r = Inr body \<and> user_of_body cx body = Inr u)"
  by (auto simp: user_of_response_def split: if_splits sum.splits)

lemma user_of_reply_valid:
  "user_of_reply cx r = Inr u \<Longrightarrow> \<exists>i d v. r = (True, i, d) \<and> uuid_parse cx i = Some v \<and> u = \<lparr>au_user_id = v, au_display_name = d\<rparr>"
  by (cases r) (auto simp: user_of_reply_def split: if_splits option.splits)

fun http_token_env ::
  "'w client_env \<Rightarrow> ('w \<Rightarrow> string \<Rightarrow> string \<Rightarrow> bool) \<Rightarrow> (string \<Rightarrow> authenticated_user option) \<Rightarrow> bool" where
  "http_token_env (x, cx, cfg) H owner \<longleftrightarrow> store_ok x H \<and> user_codec_ok cx \<and>
     (\<forall>t w r. fst (http_send x (profile_request (profile_api_url cfg) t) w) = Inr r \<longrightarrow>
        is_success (hs_status r) \<longrightarrow> (\<forall>body. hs_json r = Inr body \<longrightarrow> identifies cx owner t body))"

fun grpc_token_env ::
  "'w client_env \<Rightarrow> ('w \<Rightarrow> string \<Rightarrow> string \<Rightarrow> bool) \<Rightarrow> (string \<Rightarrow> authenticated_user option) \<Rightarrow> bool" where
  "grpc_token_env (x, cx, cfg) H owner \<longleftrightarrow> store_ok x H \<and> user_codec_ok cx \<and>
     (\<forall>t n w i d u. fst (grpc_token_validate x t n w) = GrpcReply (True, i, d) \<longrightarrow>
        uuid_parse cx i = Some u \<longrightarrow> owner t = Some \<lparr>au_user_id = u, au_display_name = d\<rparr>)"

fun http_token_validator :: "'w client_env \<Rightarrow> string \<Rightarrow> 'w \<Rightarrow> (app_error + authenticated_user) \<times> 'w" where
  "http_token_validator (x, cx, cfg) = http_token_validate_call x cx cfg"

fun grpc_token_validator :: "'w client_env \<Rightarrow> string \<Rightarrow> 'w \<Rightarrow> (app_error + authenticated_user) \<times> 'w" where
  "grpc_token_validator (x, cx, cfg) = grpc_token_validate_call x cx cfg"

text \<open>The trait: an accepted token yields its owner, the cache keeps true identities, and the errors
  are a refusal, an unavailable service or an unusable answer.\<close>

locale token_validation =
  fixes validate :: "'w client_env \<Rightarrow> string \<Rightarrow> 'w \<Rightarrow> (app_error + authenticated_user) \<times> 'w"
    and env_ok :: "'w client_env \<Rightarrow> ('w \<Rightarrow> string \<Rightarrow> string \<Rightarrow> bool)
                     \<Rightarrow> (string \<Rightarrow> authenticated_user option) \<Rightarrow> bool"
  assumes owner_law: "env_ok (x, cx, cfg) H owner \<Longrightarrow> collision_free T \<Longrightarrow> t \<in> T \<Longrightarrow>
      entries H (tok_entry cx owner T) w \<Longrightarrow> validate (x, cx, cfg) t w = (r, w') \<Longrightarrow>
      entries H (tok_entry cx owner T) w' \<and> (\<forall>u. r = Inr u \<longrightarrow> owner t = Some u)"
    and error_law: "validate (x, cx, cfg) t w = (Inl e, w') \<Longrightarrow>
      (\<exists>m. e = Unauthorized m) \<or> e = profile_unavailable \<or> (\<exists>m. e = Internal m)"

lemma cached_user_sound:
  assumes "store_ok x H" "t \<in> T" "entries H (tok_entry cx owner T) w" "cached_user x cx t w = (r, w')"
  shows "entries H (tok_entry cx owner T) w' \<and> (\<forall>u. r = Some u \<longrightarrow> owner t = Some u)"
proof -
  obtain c w1 where 1: "cm_get x (token_cache_key t) w = (c, w1)" by fastforce
  from cm.get_entry [OF assms(1,3) 1] show ?thesis
    using assms(2,4) 1 by (auto simp: cached_user_def tok_entry_def split: option.splits)
qed

lemma cache_user_sound:
  assumes "store_ok x H" "user_codec_ok cx" "collision_free T" "t \<in> T"
    "entries H (tok_entry cx owner T) w" "owner t = Some u"
  shows "entries H (tok_entry cx owner T) (cache_user x cx ttl t u w)"
proof (cases "user_to_json cx u")
  case None
  then show ?thesis using assms(5) by (simp add: cache_user_def)
next
  case (Some json)
  have "tok_entry cx owner T (token_cache_key t) json"
    using assms Some by (auto simp: tok_entry_def user_codec_ok_def collision_free_def dest: inj_onD)
  then show ?thesis using Some cm.put_entry [OF assms(1,5)] by (simp add: cache_user_def)
qed

lemma http_token_sound:
  assumes env: "http_token_env (x, cx, cfg) H owner" and cf: "collision_free T" "t \<in> T"
    and P: "entries H (tok_entry cx owner T) w" and run: "http_token_validate_call x cx cfg t w = (r, w')"
  shows "entries H (tok_entry cx owner T) w' \<and> (\<forall>u. r = Inr u \<longrightarrow> owner t = Some u)"
proof -
  have ok: "store_ok x H" and uc: "user_codec_ok cx" using env by simp_all
  obtain c w1 where 1: "cached_user x cx t w = (c, w1)" by fastforce
  note g = cached_user_sound [OF ok cf(2) P 1]
  obtain q w2 where 2: "http_send x (profile_request (profile_api_url cfg) t) w1 = (q, w2)" by fastforce
  have P2: "entries H (tok_entry cx owner T) w2" using store_step_entries(15) [OF ok 2] g by blast
  have honest: "owner t = Some u" if "q = Inr rs" "user_of_response cx rs = Inr u" for rs u
  proof -
    have "fst (http_send x (profile_request (profile_api_url cfg) t) w1) = Inr rs"
      using 2 that by simp
    then show ?thesis
      using env [unfolded http_token_env.simps] user_of_response_body [OF that(2)] user_of_body_identifies by blast
  qed
  note put = cache_user_sound [OF ok uc cf P2]
  show ?thesis
    using run 1 2 g P2 honest put
    by (auto simp: http_token_validate_call_def split: option.splits sum.splits)
qed

lemma grpc_token_sound:
  assumes env: "grpc_token_env (x, cx, cfg) H owner" and cf: "collision_free T" "t \<in> T"
    and P: "entries H (tok_entry cx owner T) w" and run: "grpc_token_validate_call x cx cfg t w = (r, w')"
  shows "entries H (tok_entry cx owner T) w' \<and> (\<forall>u. r = Inr u \<longrightarrow> owner t = Some u)"
proof -
  have ok: "store_ok x H" and uc: "user_codec_ok cx" using env by simp_all
  obtain c w1 where 1: "cached_user x cx t w = (c, w1)" by fastforce
  note g = cached_user_sound [OF ok cf(2) P 1]
  obtain q w2 where 2: "grpc_token_validate x t (upstream_request_timeout_secs cfg) w1 = (q, w2)" by fastforce
  have P2: "entries H (tok_entry cx owner T) w2" using store_step_entries(17) [OF ok 2] g by blast
  have honest: "owner t = Some u" if "q = GrpcReply rs" "user_of_reply cx rs = Inr u" for rs u
  proof -
    have "fst (grpc_token_validate x t (upstream_request_timeout_secs cfg) w1) = GrpcReply rs"
      using 2 that by simp
    then show ?thesis using env [unfolded grpc_token_env.simps] user_of_reply_valid [OF that(2)] by blast
  qed
  note put = cache_user_sound [OF ok uc cf P2]
  show ?thesis
    using run 1 2 g P2 honest put
    by (auto simp: grpc_token_validate_call_def split: option.splits sum.splits grpc_outcome.splits if_splits)
qed

lemma user_of_body_errors:
  "user_of_body cx b = Inl e \<Longrightarrow> (\<exists>m. e = Unauthorized m) \<or> (\<exists>m. e = Internal m)"
  by (auto simp: user_of_body_def Let_def split: option.splits if_splits)

interpretation http_token: token_validation http_token_validator http_token_env
proof
  fix x :: "'a ext" and cx cfg t w e w'
  assume "http_token_validator (x, cx, cfg) t w = (Inl e, w')"
  then show "(\<exists>m. e = Unauthorized m) \<or> e = profile_unavailable \<or> (\<exists>m. e = Internal m)"
    by (auto simp: http_token_validate_call_def user_of_response_def dest: user_of_body_errors
        split: option.splits sum.splits prod.splits if_splits)
qed (use http_token_sound in simp)

interpretation grpc_token: token_validation grpc_token_validator grpc_token_env
proof
  fix x :: "'a ext" and cx cfg t w e w'
  assume "grpc_token_validator (x, cx, cfg) t w = (Inl e, w')"
  then show "(\<exists>m. e = Unauthorized m) \<or> e = profile_unavailable \<or> (\<exists>m. e = Internal m)"
    by (auto simp: grpc_token_validate_call_def user_of_reply_def
        split: option.splits sum.splits prod.splits if_splits grpc_outcome.splits)
qed (use grpc_token_sound in simp)

section \<open>Colliding tokens\<close>

definition token_a :: string where "token_a = ''8yn0iYCKYHlIj4-BwPqk''"
definition token_b :: string where "token_b = ''GReLUrM4wMqfg9yzV3KQ''"

lemma token_hash_collision: "fnv1a_hash token_a = fnv1a_hash token_b"
  by (simp add: token_a_def token_b_def fnv1a_hash_def fnv_step_def fnv_offset_def fnv_prime_def)

text \<open>C32. Two tokens, one identity: the cache key is a 64-bit FNV-1a hash, and there are different
  tokens with the same hash. Whoever presents the second while the first is cached is authenticated as
  the owner of the first, by both clients and without the profile service being asked.\<close>

theorem token_cache_impersonation:
  assumes "cached_user x cx token_a w = (Some u, w')"
  shows "token_a \<noteq> token_b \<and> http_token_validate_call x cx cfg token_b w = (Inr u, w')
       \<and> grpc_token_validate_call x cx cfg token_b w = (Inr u, w')"
proof -
  have "cached_user x cx token_b w = (Some u, w')"
    using assms token_hash_collision by (simp add: cached_user_def token_cache_key_def)
  then show ?thesis
    by (simp add: http_token_validate_call_def grpc_token_validate_call_def)
      (simp add: token_a_def token_b_def)
qed

lemma sample_user_codec [simp]: "user_codec_ok sample_codec"
  by (simp add: user_codec_ok_def sample_codec_def show_nat_no)

definition alice :: authenticated_user where
  "alice = \<lparr>au_user_id = 1, au_display_name = ''alice''\<rparr>"

theorem token_cache_impersonation_witness:
  "fst (http_token_validate_call sample_off sample_codec cfg_small token_b
     (cache_user sample_off sample_codec 60 token_a alice sample_start)) = Inr alice"
proof -
  have "cached_user sample_off sample_codec token_a
      (cache_user sample_off sample_codec 60 token_a alice sample_start)
    = (Some alice, cache_user sample_off sample_codec 60 token_a alice sample_start)"
    by (simp add: cached_user_def cache_user_def cm_get_def cm_set_def sample_ext_def sample_start_def
        sample_codec_def alice_def show_nat_no)
  from token_cache_impersonation [OF this, of cfg_small] show ?thesis by simp
qed

text \<open>C21. Both token validators are sound: as long as the tokens in use have distinct cache keys, an
  accepted token yields the user the profile service says it belongs to, whether it answered now or
  before, and everything cached stays true.\<close>

theorem token_validators_sound:
  assumes "collision_free T" "t \<in> T" "entries H (tok_entry cx owner T) w"
  shows "(http_token_env (x, cx, cfg) H owner \<longrightarrow>
            http_token_validate_call x cx cfg t w = (Inr u, w1) \<longrightarrow>
            owner t = Some u \<and> entries H (tok_entry cx owner T) w1)
       \<and> (grpc_token_env (x, cx, cfg) H owner \<longrightarrow>
            grpc_token_validate_call x cx cfg t w = (Inr u, w2) \<longrightarrow>
            owner t = Some u \<and> entries H (tok_entry cx owner T) w2)"
  using http_token.owner_law [of x cx cfg H owner T t w "Inr u" w1]
    grpc_token.owner_law [of x cx cfg H owner T t w "Inr u" w2] assms
  by auto

definition token_service :: "string \<Rightarrow> (bool \<times> string \<times> string) grpc_outcome" where
  "token_service t =
     (if t = ''t1'' then GrpcReply (True, ''1'', ''alice'') else GrpcStatus GUnauthenticated ''no'')"

theorem token_validators_sound_witness:
  "fst (grpc_token_validate_call (sample_ext no_http no_content token_service) sample_codec cfg_small ''t1'' sample_start)
     = Inr alice
   \<and> (\<lambda>t. if t = ''t1'' then Some alice else None) ''t1'' = Some alice"
proof -
  let ?x = "sample_ext no_http no_content token_service"
  let ?own = "\<lambda>t. if t = ''t1'' then Some alice else None"
  have one: "parse_nat ''1'' = Some 1" by (simp add: parse_nat_def digit_val_def)
  have reply: "user_of_reply sample_codec (True, ''1'', ''alice'') = Inr alice"
    by (simp add: user_of_reply_def sample_codec_def one alice_def)
  have "t = ''t1'' \<and> i = ''1'' \<and> d = ''alice''" if "fst (grpc_token_validate ?x t n w) = GrpcReply (True, i, d)" for t n w i d
    using that by (simp add: sample_ext_def token_service_def split: if_splits)
  moreover have "uuid_parse sample_codec ''1'' = Some 1" by (simp add: sample_codec_def one)
  ultimately have "?own t = Some \<lparr>au_user_id = u, au_display_name = d\<rparr>"
    if "fst (grpc_token_validate ?x t n w) = GrpcReply (True, i, d)" "uuid_parse sample_codec i = Some u" for t n w i d u
    using that unfolding alice_def by fastforce
  then have env: "grpc_token_env (?x, sample_codec, cfg_small) sample_holds ?own"
    using sample_store_ok by simp
  have cf: "collision_free {''t1''}" by (simp add: collision_free_def)
  have P: "entries sample_holds (tok_entry sample_codec ?own {''t1''}) sample_start"
    by (simp add: entries_def sample_holds_def sample_start_def)
  have "fst (grpc_token_validate_call ?x sample_codec cfg_small ''t1'' sample_start) = Inr alice"
    using reply by (simp add: grpc_token_validate_call_def cached_user_def cm_get_def sample_ext_def
        sample_start_def token_service_def)
  with token_validators_sound [OF cf _ P, of "''t1''" ?x cfg_small alice sample_start
      "snd (grpc_token_validate_call ?x sample_codec cfg_small ''t1'' sample_start)"] env
  show ?thesis by (metis (no_types, lifting) prod.collapse singletonI)
qed

end
