(* ===== verification/Auth.thy ===== *)
theory Auth
  imports Profile_Client
begin

text \<open>
  \<open>social-api/src/auth.rs\<close>, \<open>extractors/auth.rs\<close>, \<open>extractors/content_path.rs\<close> and
  \<open>grpc/interceptors/auth.rs\<close>: the bearer token of a request, its validation behind the circuit
  breaker, and the two renderings of a failure. The trait object \<open>&dyn TokenValidator\<close> is a function
  argument. The breaker as the services call it, with its clock readings taken from the world, is
  the interface \<open>breaker_gate\<close>. Beside the function there is the protocol of the requests that share a
  breaker, as steps that may interleave and in which a request may be dropped while it awaits.
\<close>

section \<open>The breaker at run time\<close>

text \<open>The state a caller shares: the mutex contents and the world.\<close>

type_synonym 'w gated = "inner \<times> 'w"

definition br_allow :: "'w ext \<times> circuit_breaker_config \<Rightarrow> 'w gated \<Rightarrow> bool \<times> 'w gated" where
  "br_allow = (\<lambda>(x, bc) (b, w).
     (case instant_now x w of (t, w) \<Rightarrow>
        (case allow_request bc t b of (g, b) \<Rightarrow> (g, b, w))))"

definition br_success :: "'w ext \<times> circuit_breaker_config \<Rightarrow> 'w gated \<Rightarrow> 'w gated" where
  "br_success = (\<lambda>(x, bc) (b, w).
     (case instant_now x w of (t, w) \<Rightarrow> (record_success bc t b, w)))"

definition br_failure :: "'w ext \<times> circuit_breaker_config \<Rightarrow> 'w gated \<Rightarrow> 'w gated" where
  "br_failure = (\<lambda>(x, bc) (b, w).
     (case instant_now x w of (t, w) \<Rightarrow>
        (case instant_now x w of (t', w) \<Rightarrow> (record_failure bc t t' b, w))))"

definition br_good :: "'w ext \<times> circuit_breaker_config \<Rightarrow> 'w gated \<Rightarrow> bool" where
  "br_good c s = cb_inv (snd c) (fst s)"

definition br_busy :: "'w gated \<Rightarrow> bool" where
  "br_busy s = probe_in_flight (fst s)"

text \<open>What a guarded caller relies on: a grant means that no probe was out, a refusal changes nothing,
  and reporting an outcome, either one, frees the probe slot.\<close>

locale breaker_gate =
  fixes allow :: "'c \<Rightarrow> 's \<Rightarrow> bool \<times> 's"
    and success :: "'c \<Rightarrow> 's \<Rightarrow> 's"
    and failure :: "'c \<Rightarrow> 's \<Rightarrow> 's"
    and good :: "'c \<Rightarrow> 's \<Rightarrow> bool"
    and busy :: "'s \<Rightarrow> bool"
  assumes allow_law: "good c s \<Longrightarrow> allow c s = (g, s') \<Longrightarrow>
      good c s' \<and> (g \<longrightarrow> \<not> busy s) \<and> (\<not> g \<longrightarrow> busy s' = busy s)"
    and success_law: "good c s \<Longrightarrow> good c (success c s) \<and> \<not> busy (success c s)"
    and failure_law: "good c s \<Longrightarrow> good c (failure c s) \<and> \<not> busy (failure c s)"
begin

text \<open>A call that was granted and reports its outcome leaves the gate free; so does one that was
  refused, if the gate was free.\<close>

lemma settled:
  assumes "good c s" "allow c s = (g, s1)" "g \<Longrightarrow> \<exists>s0. good c s0 \<and> (s2 = success c s0 \<or> s2 = failure c s0)"
    "\<not> g \<Longrightarrow> s2 = s1"
  shows "good c s2 \<and> (g \<or> \<not> busy s \<longrightarrow> \<not> busy s2)"
  using assms allow_law [OF assms(1,2)] success_law failure_law by (cases g) auto

end

lemma allow_free: "cb_inv cfg s \<Longrightarrow> allow_request cfg t s = (True, s') \<Longrightarrow> \<not> probe_in_flight s"
  by (cases "cb_state s") (auto simp: allow_request_def cb_inv_def Let_def split: if_splits)

lemma success_frees: "\<not> probe_in_flight (record_success cfg t s)"
  by (cases "cb_state s") (auto simp: cb_op_defs)

lemma failure_frees: "\<not> probe_in_flight (record_failure cfg t t' s)"
  by (cases "cb_state s") (auto simp: cb_op_defs)

interpretation gate: breaker_gate br_allow br_success br_failure br_good br_busy
proof
  fix c :: "'a ext \<times> circuit_breaker_config" and s g s'
  assume a: "br_good c s" "br_allow c s = (g, s')"
  obtain x bc b w where cs: "c = (x, bc)" "s = (b, w)" by (metis prod.collapse)
  obtain t w1 where i: "instant_now x w = (t, w1)" by fastforce
  obtain g1 b1 where r: "allow_request bc t b = (g1, b1)" by fastforce
  have s': "g1 = g" "s' = (b1, w1)" using a(2) cs i r by (simp_all add: br_allow_def)
  have inv: "cb_inv bc b" using a(1) cs by (simp add: br_good_def)
  have "cb_inv bc b1" using cb_inv_allow [OF inv, of t] r by simp
  then show "br_good c s' \<and> (g \<longrightarrow> \<not> br_busy s) \<and> (\<not> g \<longrightarrow> br_busy s' = br_busy s)"
    using allow_free [OF inv, of t b1] allow_false_same [of bc t b b1] r cs s'
    by (cases g) (simp_all add: br_good_def br_busy_def)
next
  fix c :: "'a ext \<times> circuit_breaker_config" and s
  assume "br_good c s"
  then show "br_good c (br_success c s) \<and> \<not> br_busy (br_success c s)"
    by (auto simp: br_success_def br_good_def br_busy_def success_frees intro: cb_inv_success split: prod.splits)
next
  fix c :: "'a ext \<times> circuit_breaker_config" and s
  assume "br_good c s"
  then show "br_good c (br_failure c s) \<and> \<not> br_busy (br_failure c s)"
    by (auto simp: br_failure_def br_good_def br_busy_def failure_frees intro: cb_inv_failure split: prod.splits)
qed

section \<open>Authentication\<close>

datatype auth_failure = MissingToken | MalformedToken | InvalidToken | ServiceUnavailable

definition parse_bearer_token :: "string \<Rightarrow> auth_failure + string" where
  "parse_bearer_token header =
     (case str_strip_prefix header ''Bearer '' of
        None \<Rightarrow> Inl MalformedToken
      | Some token \<Rightarrow> (if token = [] then Inl MalformedToken else Inr token))"

type_synonym 'w token_validator = "string \<Rightarrow> 'w \<Rightarrow> (app_error + authenticated_user) \<times> 'w"

text \<open>A call that runs to its end; where a request may be dropped is modelled below, in \<open>auth_step\<close>.\<close>

definition authenticate_token ::
  "'w ext \<times> circuit_breaker_config \<Rightarrow> 'w token_validator \<Rightarrow> string \<Rightarrow> 'w gated
     \<Rightarrow> (auth_failure + authenticated_user) \<times> 'w gated" where
  "authenticate_token c validate token s =
     (case br_allow c s of
        (False, s) \<Rightarrow> (Inl ServiceUnavailable, s)
      | (True, b, w) \<Rightarrow>
          (case validate token w of (r, w) \<Rightarrow>
            (case r of
               Inr user \<Rightarrow> (Inr user, br_success c (b, w))
             | Inl (Unauthorized _) \<Rightarrow> (Inl InvalidToken, br_success c (b, w))
             | Inl (DependencyUnavailable _) \<Rightarrow> (Inl ServiceUnavailable, br_failure c (b, w))
             | Inl (Internal _) \<Rightarrow> (Inl ServiceUnavailable, br_failure c (b, w))
             | Inl _ \<Rightarrow> (Inl ServiceUnavailable, (b, w)))))"

text \<open>The Axum extractor: \<open>hdr\<close> looks a request header up, \<open>None\<close> also when it is not a string.\<close>

definition auth_user_extract ::
  "'w ext \<times> circuit_breaker_config \<Rightarrow> 'w token_validator \<Rightarrow> (string \<Rightarrow> string option) \<Rightarrow> 'w gated
     \<Rightarrow> (auth_failure + authenticated_user) \<times> 'w gated" where
  "auth_user_extract c validate hdr s =
     (case hdr ''authorization'' of
        None \<Rightarrow> (Inl MissingToken, s)
      | Some header \<Rightarrow>
          (case parse_bearer_token header of
             Inl e \<Rightarrow> (Inl e, s)
           | Inr token \<Rightarrow> authenticate_token c validate token s))"

fun auth_error_parts :: "auth_failure \<Rightarrow> error_code \<times> string" where
  "auth_error_parts MissingToken = (CUnauthorized, ''Missing authorization header'')"
| "auth_error_parts MalformedToken =
     (CUnauthorized, ''Malformed authorization header. Expected: Bearer <token>'')"
| "auth_error_parts InvalidToken = (CUnauthorized, ''Invalid or expired token'')"
| "auth_error_parts ServiceUnavailable = (CDependencyUnavailable, ''Authentication service unavailable'')"

definition auth_error_response :: "(api_error \<Rightarrow> 'b) \<Rightarrow> auth_failure \<Rightarrow> 'b reply" where
  "auth_error_response wrap f =
     (case auth_error_parts f of (c, msg) \<Rightarrow>
        (let e = api_error_new c msg ''unknown'' in
         \<lparr>rp_status = api_http_status e, rp_headers = [], rp_body = wrap e\<rparr>))"

fun auth_failure_to_status :: "auth_failure \<Rightarrow> grpc_code \<times> string" where
  "auth_failure_to_status MissingToken = (GUnauthenticated, ''Missing authorization metadata'')"
| "auth_failure_to_status MalformedToken = (GUnauthenticated, ''Invalid authorization format'')"
| "auth_failure_to_status InvalidToken = (GUnauthenticated, ''Invalid or expired token'')"
| "auth_failure_to_status ServiceUnavailable = (GUnavailable, ''Authentication service unavailable'')"

definition extract_token :: "(string \<Rightarrow> string option) \<Rightarrow> (grpc_code \<times> string) + string" where
  "extract_token metadata =
     (case metadata ''authorization'' of
        None \<Rightarrow> Inl (GUnauthenticated, ''Missing authorization metadata'')
      | Some auth \<Rightarrow> map_err auth_failure_to_status (parse_bearer_token auth))"

definition validate_token ::
  "'w ext \<times> circuit_breaker_config \<Rightarrow> 'w token_validator \<Rightarrow> string \<Rightarrow> 'w gated
     \<Rightarrow> ((grpc_code \<times> string) + authenticated_user) \<times> 'w gated" where
  "validate_token c validate token s =
     (case authenticate_token c validate token s of (r, s) \<Rightarrow> (map_err auth_failure_to_status r, s))"

text \<open>The path extractor: the two path parameters, when the router could extract them.\<close>

definition content_path_extract ::
  "codec \<Rightarrow> config \<Rightarrow> (string \<times> string) option \<Rightarrow> app_error + string \<times> uuid" where
  "content_path_extract cx cfg params =
     (case params of
        None \<Rightarrow> Inl (InvalidContentId ''Invalid path parameters'')
      | Some (ct, cid_str) \<Rightarrow>
          (case ensure_registered_content_type cfg ct of
             Inl e \<Rightarrow> Inl e
           | Inr _ \<Rightarrow>
               (case uuid_parse cx cid_str of
                  None \<Rightarrow> Inl (InvalidContentId cid_str)
                | Some cid \<Rightarrow> Inr (ct, cid))))"

section \<open>Properties\<close>

context token_validation
begin

text \<open>With either validator every granted call reports its outcome: the catch-all arm is never taken.\<close>

lemma authenticate_settles:
  assumes "br_good c s" "authenticate_token c (validate (x, cx, cfg)) token s = (r, s')"
  shows "br_good c s' \<and> (\<not> br_busy s \<longrightarrow> \<not> br_busy s')"
proof -
  obtain g b w where a: "br_allow c s = (g, b, w)" by (metis prod_cases3)
  obtain q w1 where v: "validate (x, cx, cfg) token w = (q, w1)" by fastforce
  have good: "br_good c (b, w1)"
    using gate.allow_law [OF assms(1) a] by (simp add: br_good_def)
  have "s' = br_success c (b, w1) \<or> s' = br_failure c (b, w1)" if g
  proof (cases q)
    case (Inl e)
    with error_law v have "(\<exists>m. e = Unauthorized m) \<or> e = profile_unavailable \<or> (\<exists>m. e = Internal m)"
      by blast
    then show ?thesis using assms(2) a v Inl that
      by (auto simp: authenticate_token_def profile_unavailable_def)
  next
    case (Inr u)
    then show ?thesis using assms(2) a v that by (simp add: authenticate_token_def)
  qed
  moreover have "s' = (b, w)" if "\<not> g" using assms(2) a that by (simp add: authenticate_token_def)
  ultimately have "br_good c s' \<and> (g \<or> \<not> br_busy s \<longrightarrow> \<not> br_busy s')"
    using good by (intro gate.settled [OF assms(1) a]) auto
  then show ?thesis by blast
qed

end

text \<open>A call that is not dropped leaves no probe behind: with either validator, a breaker that is well
  formed with no probe out is so again after a completed authentication, whatever the services did.\<close>

lemma authenticate_never_wedges:
  assumes "br_good (x, bc) s" "\<not> br_busy s"
  shows "br_good (x, bc) (snd (authenticate_token (x, bc) (http_token_validate_call x cx cfg) token s))
       \<and> \<not> br_busy (snd (authenticate_token (x, bc) (http_token_validate_call x cx cfg) token s))
       \<and> br_good (x, bc) (snd (authenticate_token (x, bc) (grpc_token_validate_call x cx cfg) token s))
       \<and> \<not> br_busy (snd (authenticate_token (x, bc) (grpc_token_validate_call x cx cfg) token s))"
  using http_token.authenticate_settles [OF assms(1), of x cx cfg token]
    grpc_token.authenticate_settles [OF assms(1), of x cx cfg token] assms(2)
  by (metis grpc_token_validator.simps http_token_validator.simps prod.collapse)

section \<open>Requests that go away\<close>

text \<open>\<open>authenticate_token\<close> is an \<open>async\<close> function: between the grant and the report of an outcome it awaits
  the validator, and a server that drops the request, as it does when the client goes away, drops it
  there, with nothing reported. The requests of one breaker as they run beside one another: a request
  asks the breaker, awaits the profile service, and then either reports what the service said or is gone.\<close>

datatype auth_task =
    AuthIdle
  | AuthWaiting
  | AuthAnswered "auth_failure + authenticated_user"
  | AuthGone

record auth_gate =
  ag_breaker :: inner
  ag_tasks :: "nat \<Rightarrow> auth_task"

datatype auth_act =
    AuthStart nat instant
  | AuthReply nat "app_error + authenticated_user" instant instant
  | AuthDrop nat

text \<open>What follows the \<open>await\<close>: the answer of the request and what the breaker is told.\<close>

fun auth_report ::
  "circuit_breaker_config \<Rightarrow> app_error + authenticated_user \<Rightarrow> instant \<Rightarrow> instant \<Rightarrow> inner
     \<Rightarrow> (auth_failure + authenticated_user) \<times> inner" where
  "auth_report bc (Inr user) t t' b = (Inr user, record_success bc t b)"
| "auth_report bc (Inl (Unauthorized _)) t t' b = (Inl InvalidToken, record_success bc t b)"
| "auth_report bc (Inl (DependencyUnavailable _)) t t' b = (Inl ServiceUnavailable, record_failure bc t t' b)"
| "auth_report bc (Inl (Internal _)) t t' b = (Inl ServiceUnavailable, record_failure bc t t' b)"
| "auth_report bc (Inl _) t t' b = (Inl ServiceUnavailable, b)"

fun auth_step :: "circuit_breaker_config \<Rightarrow> auth_act \<Rightarrow> auth_gate \<Rightarrow> auth_gate option" where
  "auth_step bc (AuthStart i t) s =
     (case ag_tasks s i of
        AuthIdle \<Rightarrow>
          (case allow_request bc t (ag_breaker s) of (g, b) \<Rightarrow>
             Some \<lparr>ag_breaker = b,
               ag_tasks = (ag_tasks s)(i := if g then AuthWaiting else AuthAnswered (Inl ServiceUnavailable))\<rparr>)
      | _ \<Rightarrow> None)"
| "auth_step bc (AuthReply i r t t') s =
     (case ag_tasks s i of
        AuthWaiting \<Rightarrow>
          (case auth_report bc r t t' (ag_breaker s) of (a, b) \<Rightarrow>
             Some \<lparr>ag_breaker = b, ag_tasks = (ag_tasks s)(i := AuthAnswered a)\<rparr>)
      | _ \<Rightarrow> None)"
| "auth_step bc (AuthDrop i) s =
     (case ag_tasks s i of
        AuthWaiting \<Rightarrow> Some (s\<lparr>ag_tasks := (ag_tasks s)(i := AuthGone)\<rparr>)
      | _ \<Rightarrow> None)"

fun auth_run :: "circuit_breaker_config \<Rightarrow> auth_act list \<Rightarrow> auth_gate \<Rightarrow> auth_gate option" where
  "auth_run bc [] s = Some s"
| "auth_run bc (a # as) s = (case auth_step bc a s of None \<Rightarrow> None | Some s' \<Rightarrow> auth_run bc as s')"

definition auth_begin :: auth_gate where
  "auth_begin = \<lparr>ag_breaker = cb_new, ag_tasks = \<lambda>_. AuthIdle\<rparr>"

text \<open>The validators answer a user, a rejected token, an unavailable service or an internal error.\<close>

fun answer_ok :: "app_error + authenticated_user \<Rightarrow> bool" where
  "answer_ok (Inr _) = True"
| "answer_ok (Inl (Unauthorized _)) = True"
| "answer_ok (Inl (DependencyUnavailable _)) = True"
| "answer_ok (Inl (Internal _)) = True"
| "answer_ok (Inl _) = False"

fun act_ok :: "auth_act \<Rightarrow> bool" where
  "act_ok (AuthReply i r t t') = answer_ok r"
| "act_ok _ = True"

lemma validators_answer_ok:
  "answer_ok (fst (http_token_validate_call x cx cfg token w))"
  "answer_ok (fst (grpc_token_validate_call x cx cfg token w))"
proof -
  have e: "answer_ok r" if "\<And>e. r = Inl e \<Longrightarrow> (\<exists>m. e = Unauthorized m) \<or> e = profile_unavailable \<or> (\<exists>m. e = Internal m)" for r
    using that by (cases r) (auto simp: profile_unavailable_def)
  show "answer_ok (fst (http_token_validate_call x cx cfg token w))"
    by (rule e, rule http_token.error_law [of x cx cfg token w _ "snd (http_token_validate_call x cx cfg token w)"])
      (simp add: prod_eq_iff)
  show "answer_ok (fst (grpc_token_validate_call x cx cfg token w))"
    by (rule e, rule grpc_token.error_law [of x cx cfg token w _ "snd (grpc_token_validate_call x cx cfg token w)"])
      (simp add: prod_eq_iff)
qed

text \<open>A call that is not dropped is a start and a reply with nothing in between.\<close>

lemma authenticate_start_reply:
  assumes "ag_tasks s i = AuthIdle" "authenticate_token (x, bc) validate token (ag_breaker s, w) = (r, b', w')"
    and "\<And>w. answer_ok (fst (validate token w))"
  shows "\<exists>as s'. list_all act_ok as \<and> auth_run bc as s = Some s' \<and> ag_breaker s' = b' \<and> ag_tasks s' i = AuthAnswered r"
proof -
  obtain t w1 where t: "instant_now x w = (t, w1)" by fastforce
  obtain g b1 where g: "allow_request bc t (ag_breaker s) = (g, b1)" by fastforce
  obtain q w2 where q: "validate token w1 = (q, w2)" by fastforce
  obtain t1 w3 where t1: "instant_now x w2 = (t1, w3)" by fastforce
  obtain t2 w4 where t2: "instant_now x w3 = (t2, w4)" by fastforce
  show ?thesis
  proof (cases g)
    case False
    then show ?thesis using assms(1,2) t g
      by (intro exI [of _ "[AuthStart i t]"]) (auto simp: authenticate_token_def br_allow_def)
  next
    case True
    have "answer_ok q" using assms(3) [of w1] q by simp
    moreover have "auth_report bc q t1 t2 b1 = (r, b')"
      using assms(2) True t g q t1 t2
      by (auto simp: authenticate_token_def br_allow_def br_success_def br_failure_def split: sum.splits app_error.splits)
    ultimately show ?thesis using assms(1) True g
      by (intro exI [of _ "[AuthStart i t, AuthReply i q t1 t2]"]) auto
  qed
qed

inductive auth_reach :: "circuit_breaker_config \<Rightarrow> auth_gate \<Rightarrow> bool" for bc where
  auth_init: "auth_reach bc auth_begin"
| auth_next: "auth_reach bc s \<Longrightarrow> act_ok a \<Longrightarrow> auth_step bc a s = Some s' \<Longrightarrow> auth_reach bc s'"

lemma auth_reach_run: "auth_reach bc s \<Longrightarrow> list_all act_ok as \<Longrightarrow> auth_run bc as s = Some s' \<Longrightarrow> auth_reach bc s'"
  by (induction as arbitrary: s) (auto split: option.splits intro: auth_next)

text \<open>The invariant: the breaker is well formed, and a taken probe slot belongs to a request that awaits
  its answer, or was dropped.\<close>

definition slot_owned :: "auth_gate \<Rightarrow> bool" where
  "slot_owned s \<longleftrightarrow> probe_in_flight (ag_breaker s) \<longrightarrow> (\<exists>i. ag_tasks s i = AuthWaiting) \<or> (\<exists>i. ag_tasks s i = AuthGone)"

lemma report_frees:
  "answer_ok r \<Longrightarrow> auth_report bc r t t' b = (a, b') \<Longrightarrow> \<not> probe_in_flight b'"
  by (cases "(bc, r, t, t', b)" rule: auth_report.cases) (auto simp: success_frees failure_frees)

lemma report_inv: "cb_inv bc b \<Longrightarrow> auth_report bc r t t' b = (a, b') \<Longrightarrow> cb_inv bc b'"
  by (cases "(bc, r, t, t', b)" rule: auth_report.cases) (auto intro: inv_intros)

lemma auth_reach_owned: "auth_reach bc s \<Longrightarrow> cb_inv bc (ag_breaker s) \<and> slot_owned s"
proof (induction rule: auth_reach.induct)
  case auth_init
  show ?case by (simp add: auth_begin_def slot_owned_def cb_new_def [THEN arg_cong [of _ _ probe_in_flight]])
next
  case (auth_next s a s')
  show ?case
  proof (cases a)
    case (AuthStart i t)
    obtain g b where g: "allow_request bc t (ag_breaker s) = (g, b)" by fastforce
    have i: "ag_tasks s i = AuthIdle" using auth_next.hyps(3) AuthStart by (auto split: auth_task.splits)
    have s': "s' = \<lparr>ag_breaker = b,
        ag_tasks = (ag_tasks s)(i := if g then AuthWaiting else AuthAnswered (Inl ServiceUnavailable))\<rparr>"
      using auth_next.hyps(3) AuthStart i g by simp
    have inv: "cb_inv bc b" using cb_inv_allow [of bc "ag_breaker s" t] auth_next.IH g by simp
    have "slot_owned s'"
    proof (cases g)
      case True
      then show ?thesis by (auto simp: s' slot_owned_def)
    next
      case False
      then have b: "b = ag_breaker s" using g by (auto dest: allow_false_same)
      have keep: "ag_tasks s' j = ag_tasks s j" if "ag_tasks s j \<noteq> AuthIdle" for j
        using that i by (auto simp: s')
      have "(\<exists>j. ag_tasks s' j = AuthWaiting) \<or> (\<exists>j. ag_tasks s' j = AuthGone)" if pr: "probe_in_flight b"
      proof -
        obtain j where "ag_tasks s j = AuthWaiting \<or> ag_tasks s j = AuthGone"
          using auth_next.IH pr b unfolding slot_owned_def by blast
        then show ?thesis using keep [of j] by fastforce
      qed
      then show ?thesis by (simp add: slot_owned_def s')
    qed
    with inv show ?thesis by (simp add: s')
  next
    case (AuthReply i r t t')
    obtain q b where q: "auth_report bc r t t' (ag_breaker s) = (q, b)" by fastforce
    have "ag_breaker s' = b" using auth_next.hyps(3) AuthReply q by (auto split: auth_task.splits)
    then show ?thesis
      using report_frees [OF _ q] report_inv [OF _ q] auth_next.IH auth_next.hyps(2) AuthReply by (simp add: slot_owned_def)
  next
    case (AuthDrop i)
    then show ?thesis using auth_next by (auto simp: slot_owned_def split: auth_task.splits)
  qed
qed

text \<open>Nobody awaits and the slot is taken: nobody is let through any more.\<close>

definition auth_dead :: "circuit_breaker_config \<Rightarrow> auth_gate \<Rightarrow> bool" where
  "auth_dead bc s \<longleftrightarrow> cb_inv bc (ag_breaker s) \<and> probe_in_flight (ag_breaker s) \<and> (\<forall>i. ag_tasks s i \<noteq> AuthWaiting)"

lemma dead_step:
  assumes d: "auth_dead bc s" and run: "auth_step bc a s = Some s'"
  shows "\<exists>i t. a = AuthStart i t \<and> ag_tasks s i = AuthIdle
     \<and> s' = s\<lparr>ag_tasks := (ag_tasks s)(i := AuthAnswered (Inl ServiceUnavailable))\<rparr>"
proof (cases a)
  case (AuthStart i t)
  have "cb_state (ag_breaker s) = HalfOpen"
    using d by (cases "cb_state (ag_breaker s)") (auto simp: auth_dead_def cb_inv_def)
  then have "allow_request bc t (ag_breaker s) = (False, ag_breaker s)"
    using allow_busy [of "ag_breaker s" bc t] d by (simp add: auth_dead_def)
  then show ?thesis using run AuthStart by (auto split: auth_task.splits)
qed (use d run in \<open>auto simp: auth_dead_def split: auth_task.splits\<close>)

lemma dead_run:
  "auth_dead bc s \<Longrightarrow> auth_run bc as s = Some s' \<Longrightarrow>
   ag_breaker s' = ag_breaker s \<and> (\<forall>i. ag_tasks s' i = ag_tasks s i
     \<or> (ag_tasks s i = AuthIdle \<and> ag_tasks s' i = AuthAnswered (Inl ServiceUnavailable)))"
proof (induction as arbitrary: s)
  case (Cons a as)
  then obtain s1 where s1: "auth_step bc a s = Some s1" "auth_run bc as s1 = Some s'" by (auto split: option.splits)
  obtain i where i: "ag_tasks s i = AuthIdle"
      "s1 = s\<lparr>ag_tasks := (ag_tasks s)(i := AuthAnswered (Inl ServiceUnavailable))\<rparr>"
    using dead_step [OF Cons.prems(1) s1(1)] by blast
  have "auth_dead bc s1" using Cons.prems(1) i by (auto simp: auth_dead_def)
  note ih = Cons.IH [OF this s1(2)]
  have "ag_tasks s' j = ag_tasks s j \<or> (ag_tasks s j = AuthIdle \<and> ag_tasks s' j = AuthAnswered (Inl ServiceUnavailable))" for j
    using spec [OF conjunct2 [OF ih], of j] i by (cases "j = i") auto
  then show ?case using ih i by simp
qed simp

text \<open>C33. A request that goes away while it holds the probe of the profile breaker takes the breaker with it.
  In every interleaving of requests, a taken probe slot has a request that awaits the profile service, or
  one that was dropped there: without dropped requests the breaker is never stuck. But when the only
  request that awaits is dropped, the slot stays taken and nobody awaits; and from then on the breaker
  never changes again and every later request is refused with "authentication service unavailable",
  however long one waits and however healthy the service is.\<close>

theorem lost_probe_locks_out:
  assumes "auth_reach bc s" "probe_in_flight (ag_breaker s)"
  shows "((\<exists>i. ag_tasks s i = AuthWaiting) \<or> (\<exists>i. ag_tasks s i = AuthGone))
       \<and> ((\<forall>j. ag_tasks s j = AuthWaiting \<longleftrightarrow> j = i) \<longrightarrow>
            (\<exists>s1. auth_step bc (AuthDrop i) s = Some s1 \<and> probe_in_flight (ag_breaker s1)
               \<and> (\<forall>j. ag_tasks s1 j \<noteq> AuthWaiting)))
       \<and> ((\<forall>i. ag_tasks s i \<noteq> AuthWaiting) \<longrightarrow> auth_run bc as s = Some s' \<longrightarrow>
            ag_breaker s' = ag_breaker s
            \<and> (\<forall>i. ag_tasks s' i = ag_tasks s i
                 \<or> (ag_tasks s i = AuthIdle \<and> ag_tasks s' i = AuthAnswered (Inl ServiceUnavailable))))"
proof (intro conjI impI)
  show "(\<exists>i. ag_tasks s i = AuthWaiting) \<or> (\<exists>i. ag_tasks s i = AuthGone)"
    using auth_reach_owned [OF assms(1)] assms(2) by (simp add: slot_owned_def)
next
  assume only: "\<forall>j. ag_tasks s j = AuthWaiting \<longleftrightarrow> j = i"
  then have "ag_tasks s i = AuthWaiting" by blast
  then have "auth_step bc (AuthDrop i) s = Some (s\<lparr>ag_tasks := (ag_tasks s)(i := AuthGone)\<rparr>)" by simp
  then show "\<exists>s1. auth_step bc (AuthDrop i) s = Some s1 \<and> probe_in_flight (ag_breaker s1)
      \<and> (\<forall>j. ag_tasks s1 j \<noteq> AuthWaiting)"
    using only assms(2) by auto
next
  assume "\<forall>i. ag_tasks s i \<noteq> AuthWaiting" and run: "auth_run bc as s = Some s'"
  then have dead: "auth_dead bc s" using auth_reach_owned [OF assms(1)] assms(2) by (simp add: auth_dead_def)
  show "ag_breaker s' = ag_breaker s" using dead_run [OF dead run] by blast
  show "\<forall>i. ag_tasks s' i = ag_tasks s i
      \<or> (ag_tasks s i = AuthIdle \<and> ag_tasks s' i = AuthAnswered (Inl ServiceUnavailable))"
    using dead_run [OF dead run] by blast
qed

text \<open>The service fails twice and the breaker opens; later a request is let through as the probe and its
  client goes away. A request thirty years later is refused.\<close>

theorem lost_probe_locks_out_witness:
  "\<exists>s s'. auth_run cb_small
       [AuthStart 0 0, AuthReply 0 (Inl (Internal [])) 0 0, AuthStart 1 1, AuthReply 1 (Inl (Internal [])) 1 1,
        AuthStart 2 20, AuthDrop 2] auth_begin = Some s
     \<and> cb_state (ag_breaker s) = HalfOpen \<and> ag_tasks s 2 = AuthGone
     \<and> auth_run cb_small [AuthStart 3 (10 ^ 18)] s = Some s' \<and> ag_breaker s' = ag_breaker s
     \<and> ag_tasks s' 3 = AuthAnswered (Inl ServiceUnavailable)"
proof -
  let ?as = "[AuthStart 0 0, AuthReply 0 (Inl (Internal [])) 0 0, AuthStart 1 1, AuthReply 1 (Inl (Internal [])) 1 1,
        AuthStart 2 20, AuthDrop 2]"
  define s1 where "s1 = \<lparr>ag_breaker = cb_small_open, ag_tasks = (\<lambda>_. AuthIdle)
      (0 := AuthAnswered (Inl ServiceUnavailable), 1 := AuthAnswered (Inl ServiceUnavailable))\<rparr>"
  define s where "s = \<lparr>ag_breaker = cb_small_open\<lparr>cb_state := HalfOpen, probe_in_flight := True\<rparr>,
      ag_tasks = (ag_tasks s1)(2 := AuthGone)\<rparr>"
  have s1: "auth_run cb_small (take 4 ?as) auth_begin = Some s1"
    by (simp add: s1_def auth_begin_def cb_new_def cb_small_def cb_small_open_def cb_op_defs failure_rate_exceeded_def
        word_le_nat_alt)
  have s: "auth_run cb_small (drop 4 ?as) s1 = Some s"
    by (simp add: s1_def s_def cb_small_def cb_small_open_def cb_op_defs elapsed_def)
  have run: "auth_run cb_small ?as auth_begin = Some s" using s1 s by (auto split: option.splits)
  have r: "auth_reach cb_small s"
    by (rule auth_reach_run [OF auth_init _ run]) simp
  have p: "probe_in_flight (ag_breaker s)" "cb_state (ag_breaker s) = HalfOpen" "ag_tasks s 2 = AuthGone"
    "ag_tasks s 3 = AuthIdle" by (simp_all add: s_def s1_def)
  obtain g b where g: "allow_request cb_small (10 ^ 18) (ag_breaker s) = (g, b)" by fastforce
  obtain s' where s': "auth_run cb_small [AuthStart 3 (10 ^ 18)] s = Some s'" "ag_tasks s' 3 \<noteq> AuthIdle"
    using g p(4) by simp
  have "\<forall>i. ag_tasks s i \<noteq> AuthWaiting" by (simp add: s_def s1_def)
  then have "ag_breaker s' = ag_breaker s \<and> (\<forall>i. ag_tasks s' i = ag_tasks s i
      \<or> (ag_tasks s i = AuthIdle \<and> ag_tasks s' i = AuthAnswered (Inl ServiceUnavailable)))"
    using lost_probe_locks_out [OF r p(1), where as = "[AuthStart 3 (10 ^ 18)]" and s' = s'] s'(1) by blast
  then show ?thesis using run s' p by metis
qed

text \<open>The two transports agree on who is refused: a failure is 401 over HTTP exactly when it is
  \<open>UNAUTHENTICATED\<close> over gRPC, and 503 exactly when it is \<open>UNAVAILABLE\<close>; no failure is anything else.\<close>

theorem auth_failures_agree:
  "(rp_status (auth_error_response wrap f) = 401 \<longleftrightarrow> fst (auth_failure_to_status f) = GUnauthenticated)
   \<and> (rp_status (auth_error_response wrap f) = 503 \<longleftrightarrow> fst (auth_failure_to_status f) = GUnavailable)
   \<and> rp_status (auth_error_response wrap f) \<in> {401, 503}"
  by (cases f) (simp_all add: auth_error_response_def api_http_status_def api_error_new_def Let_def)

text \<open>Every way \<open>authenticate_token\<close> can end: an accepted or rejected token counts as a success of
  the profile service and a failing service as a failure; a refusal by the breaker never reaches the
  validator and leaves the state as the breaker left it.\<close>

theorem authenticate_outcomes:
  "(case br_allow c s of
      (False, s1) \<Rightarrow> authenticate_token c validate token s = (Inl ServiceUnavailable, s1)
    | (True, b, w) \<Rightarrow>
        (case validate token w of
           (Inr u, w1) \<Rightarrow> authenticate_token c validate token s = (Inr u, br_success c (b, w1))
         | (Inl e, w1) \<Rightarrow>
             fst (authenticate_token c validate token s)
               = Inl (if app_error_code e = CUnauthorized then InvalidToken else ServiceUnavailable)
             \<and> snd (authenticate_token c validate token s)
               = (if app_error_code e = CUnauthorized then br_success c (b, w1)
                  else if app_error_code e = CDependencyUnavailable \<or> (\<exists>m. e = Internal m)
                  then br_failure c (b, w1) else (b, w1))))"
proof -
  obtain g b w where a: "br_allow c s = (g, b, w)" by (metis prod_cases3)
  obtain q w1 where v: "validate token w = (q, w1)" by fastforce
  show ?thesis
  proof (cases q)
    case (Inl e)
    then show ?thesis using a v by (cases g; cases e) (simp_all add: authenticate_token_def)
  next
    case (Inr u)
    then show ?thesis using a v by (cases g) (simp_all add: authenticate_token_def)
  qed
qed

end
