(* ===== verification/App.thy ===== *)
theory App
  imports Auth Like_Count_Cache
begin

text \<open>
  \<open>social-api/src/state.rs\<close>: \<open>AppState\<close>, what the handlers of both transports share, and how
  \<open>AppState::new\<close> puts it together: two circuit breakers and, for each upstream, the gRPC client when
  that transport is configured and connects, the HTTP client otherwise.
\<close>

type_synonym 'w content_validator = "string \<Rightarrow> uuid \<Rightarrow> 'w \<Rightarrow> (app_error + validation_outcome) \<times> 'w"

text \<open>The immutable part. The mutable part is threaded: the breakers, the database, the world.\<close>

record 'w app =
  ap_ext :: "'w ext"
  ap_codec :: codec
  ap_config :: config
  ap_content_breaker :: circuit_breaker_config
  ap_profile_breaker :: circuit_breaker_config
  ap_content_validator :: "'w content_validator"
  ap_token_validator :: "'w token_validator"

definition choose_token_validator :: "'w client_env \<Rightarrow> bool \<Rightarrow> 'w token_validator" where
  "choose_token_validator e up =
     (if use_grpc_transport (snd (snd e)) \<and> up then grpc_token_validator e else http_token_validator e)"

definition choose_content_validator :: "'w client_env \<Rightarrow> bool \<Rightarrow> 'w content_validator" where
  "choose_content_validator e up =
     (if use_grpc_transport (snd (snd e)) \<and> up then grpc_validator e else http_validator e)"

text \<open>The two flags say whether the gRPC channels could be opened.\<close>

definition app_new :: "'w ext \<Rightarrow> codec \<Rightarrow> config \<Rightarrow> bool \<Rightarrow> bool \<Rightarrow> 'w app \<times> inner \<times> inner" where
  "app_new x cx cfg profile_up content_up =
     (case build_circuit_breaker cfg ''profile_api'' of (pb, ps) \<Rightarrow>
        (case build_circuit_breaker cfg ''content_api'' of (cb, cs) \<Rightarrow>
           (\<lparr>ap_ext = x, ap_codec = cx, ap_config = cfg, ap_content_breaker = cb, ap_profile_breaker = pb,
             ap_content_validator = choose_content_validator (x, cx, cfg) content_up,
             ap_token_validator = choose_token_validator (x, cx, cfg) profile_up\<rparr>, cs, ps)))"

text \<open>Whichever content client was chosen, the contract of its environment.\<close>

definition content_env ::
  "'w client_env \<Rightarrow> bool \<Rightarrow> ('w \<Rightarrow> string \<Rightarrow> string \<Rightarrow> bool) \<Rightarrow> (string \<Rightarrow> uuid \<Rightarrow> bool) \<Rightarrow> bool" where
  "content_env e up H truth =
     (if use_grpc_transport (snd (snd e)) \<and> up then grpc_content_env e H truth
      else http_content_env e H truth)"

lemma chosen_content:
  "use_grpc_transport cfg \<and> up \<Longrightarrow> choose_content_validator (x, cx, cfg) up = grpc_validator (x, cx, cfg)
      \<and> content_env (x, cx, cfg) up = grpc_content_env (x, cx, cfg)"
  "\<not> (use_grpc_transport cfg \<and> up) \<Longrightarrow> choose_content_validator (x, cx, cfg) up = http_validator (x, cx, cfg)
      \<and> content_env (x, cx, cfg) up = http_content_env (x, cx, cfg)"
  by (auto simp: choose_content_validator_def content_env_def fun_eq_iff)

interpretation app_content: content_validation
  "\<lambda>e. choose_content_validator e up" "\<lambda>e. content_env e up" for up
proof
  fix x :: "'a ext" and cx cfg H truth w ct cid r w'
  assume a: "content_env (x, cx, cfg) up H truth" "entries H (cv_entry cx truth) w"
    "choose_content_validator (x, cx, cfg) up ct cid w = (r, w')"
  show "entries H (cv_entry cx truth) w' \<and> (\<forall>out. r = Inr out \<longrightarrow> outcome_valid out = truth ct cid)"
  proof (cases "use_grpc_transport cfg \<and> up")
    case True
    from a [unfolded chosen_content(1) [OF True, THEN conjunct1] chosen_content(1) [OF True, THEN conjunct2]]
    show ?thesis by (rule grpc_content.verdict_law)
  next
    case False
    from a [unfolded chosen_content(2) [OF False, THEN conjunct1] chosen_content(2) [OF False, THEN conjunct2]]
    show ?thesis by (rule http_content.verdict_law)
  qed
next
  fix x :: "'a ext" and cx cfg ct cid w e w'
  assume a: "choose_content_validator (x, cx, cfg) up ct cid w = (Inl e, w')"
  show "e = content_unavailable \<or> e = ContentTypeUnknown ct"
  proof (cases "use_grpc_transport cfg \<and> up")
    case True
    from a [unfolded chosen_content(1) [OF True, THEN conjunct1]] show ?thesis by (rule grpc_content.error_law)
  next
    case False
    from a [unfolded chosen_content(2) [OF False, THEN conjunct1]] show ?thesis by (rule http_content.error_law)
  qed
next
  fix x :: "'a ext" and cx cfg ct cid w r w' and H :: "'a \<Rightarrow> string \<Rightarrow> string \<Rightarrow> bool"
  assume ok: "store_ok x H" and a: "choose_content_validator (x, cx, cfg) up ct cid w = (r, w')"
  show "adds_only H (verdict_entry cx ct cid r) w w'"
  proof (cases "use_grpc_transport cfg \<and> up")
    case True
    from a [unfolded chosen_content(1) [OF True, THEN conjunct1]] show ?thesis by (rule grpc_content.frame_law [OF ok])
  next
    case False
    from a [unfolded chosen_content(2) [OF False, THEN conjunct1]] show ?thesis by (rule http_content.frame_law [OF ok])
  qed
qed

end
