(* ===== verification/Like_Commands.thy ===== *)
theory Like_Commands
  imports App
begin

text \<open>
  \<open>social-api/src/services/like_commands.rs\<close> and \<open>like_events.rs\<close>: \<open>LikeCommandService\<close>. A command
  validates the content behind the circuit breaker, runs the transaction, writes the caches and
  publishes an event. Its state is the content breaker, the writer database and the world.
\<close>

type_synonym 'w cmd_state = "inner \<times> db \<times> 'w"

section \<open>Events\<close>

definition event_channel :: "codec \<Rightarrow> string \<Rightarrow> uuid \<Rightarrow> string" where
  "event_channel cx ct cid = ''sse:'' @ ct @ '':'' @ uuid_show cx cid"

definition publish_event :: "'w ext \<Rightarrow> codec \<Rightarrow> like_event \<Rightarrow> string \<Rightarrow> uuid \<Rightarrow> 'w \<Rightarrow> 'w" where
  "publish_event x cx ev ct cid w =
     (case event_to_json cx ev of
        Some json \<Rightarrow> cm_publish x (event_channel cx ct cid) json w
      | None \<Rightarrow> w)"

section \<open>Caches\<close>

definition status_cache_key :: "codec \<Rightarrow> uuid \<Rightarrow> string \<Rightarrow> uuid \<Rightarrow> string" where
  "status_cache_key cx user ct cid = ''ls:'' @ uuid_show cx user @ '':'' @ ct @ '':'' @ uuid_show cx cid"

definition status_value :: "codec \<Rightarrow> datetime option \<Rightarrow> string" where
  "status_value cx liked_at = (case liked_at of Some ts \<Rightarrow> rfc3339_show cx ts | None \<Rightarrow> [])"

definition update_status_cache ::
  "'w app \<Rightarrow> uuid \<Rightarrow> string \<Rightarrow> uuid \<Rightarrow> datetime option \<Rightarrow> 'w \<Rightarrow> 'w" where
  "update_status_cache a user ct cid liked_at w =
     cm_set (ap_ext a) (status_cache_key (ap_codec a) user ct cid) (status_value (ap_codec a) liked_at)
       (cache_ttl_like_status_secs (ap_config a)) w"

definition likes_page_key :: "codec \<Rightarrow> uuid \<Rightarrow> string \<Rightarrow> string" where
  "likes_page_key cx user filt = ''ul:'' @ uuid_show cx user @ '':'' @ filt"

definition invalidate_user_likes :: "'w app \<Rightarrow> uuid \<Rightarrow> string \<Rightarrow> 'w \<Rightarrow> 'w" where
  "invalidate_user_likes a user ct w =
     (let cx = ap_codec a;
          w = cm_invalidate_l1_prefix (ap_ext a) (''ul:'' @ uuid_show cx user @ '':'') w in
      cm_del_many (ap_ext a) [likes_page_key cx user ''_'', likes_page_key cx user ct] w)"

abbreviation app_write_count :: "'w app \<Rightarrow> string \<Rightarrow> uuid \<Rightarrow> int \<Rightarrow> 'w \<Rightarrow> 'w" where
  "app_write_count a \<equiv> write_count (ap_ext a) (ap_codec a) (ap_config a)"

abbreviation app_publish :: "'w app \<Rightarrow> like_event \<Rightarrow> string \<Rightarrow> uuid \<Rightarrow> 'w \<Rightarrow> 'w" where
  "app_publish a \<equiv> publish_event (ap_ext a) (ap_codec a)"

section \<open>Validation\<close>

text \<open>A verdict from the cache does not signal the breaker.\<close>

definition verdict :: "codec \<Rightarrow> string \<Rightarrow> uuid \<Rightarrow> bool \<Rightarrow> app_error + unit" where
  "verdict cx ct cid valid = (if \<not> valid then Inl (ContentNotFound ct (uuid_show cx cid)) else Inr ())"

definition validate_content :: "'w app \<Rightarrow> string \<Rightarrow> uuid \<Rightarrow> 'w gated \<Rightarrow> (app_error + unit) \<times> 'w gated" where
  "validate_content a ct cid s =
     (let c = (ap_ext a, ap_content_breaker a) in
      case br_allow c s of
        (False, s) \<Rightarrow> (Inl content_unavailable, s)
      | (True, b, w) \<Rightarrow>
          (case ap_content_validator a ct cid w of (r, w) \<Rightarrow>
            (case r of
               Inr (Remote valid) \<Rightarrow> (verdict (ap_codec a) ct cid valid, br_success c (b, w))
             | Inr (Cached valid) \<Rightarrow> (verdict (ap_codec a) ct cid valid, (b, w))
             | Inl e \<Rightarrow> (Inl e, br_failure c (b, w)))))"

section \<open>Commands\<close>

text \<open>What follows a transaction: the response and the effects on the world.\<close>

definition liked_response ::
  "'w app \<Rightarrow> uuid \<Rightarrow> string \<Rightarrow> uuid \<Rightarrow> insert_like_result \<Rightarrow> 'w \<Rightarrow> like_action_response \<times> 'w" where
  "liked_response a user ct cid res w =
     (case res of
        Inserted row n \<Rightarrow>
          (let w = app_write_count a ct cid n w;
               w = update_status_cache a user ct cid (Some (row_created row)) w;
               w = invalidate_user_likes a user ct w;
               w = app_publish a (Liked user n (row_created row)) ct cid w in
           (\<lparr>lar_liked = True, lar_already_existed = Some False, lar_was_liked = None, lar_count = n,
             lar_liked_at = Some (row_created row)\<rparr>, w))
      | AlreadyExisted row n \<Rightarrow>
          (let w = app_write_count a ct cid n w;
               w = update_status_cache a user ct cid (Some (row_created row)) w in
           (\<lparr>lar_liked = True, lar_already_existed = Some True, lar_was_liked = None, lar_count = n,
             lar_liked_at = Some (row_created row)\<rparr>, w))
      | ConcurrentlyRemoved n \<Rightarrow>
          (\<lparr>lar_liked = True, lar_already_existed = Some True, lar_was_liked = None, lar_count = n,
            lar_liked_at = None\<rparr>, w))"

definition unliked_response ::
  "'w app \<Rightarrow> uuid \<Rightarrow> string \<Rightarrow> uuid \<Rightarrow> delete_like_result \<Rightarrow> 'w \<Rightarrow> like_action_response \<times> 'w" where
  "unliked_response a user ct cid res w =
     (let n = dl_count res;
          w = app_write_count a ct cid n w;
          w = update_status_cache a user ct cid None w;
          w = invalidate_user_likes a user ct w;
          w = (if was_liked res then
                 (case utc_now (ap_ext a) w of (t, w) \<Rightarrow> app_publish a (Unliked user n t) ct cid w)
               else w) in
      (\<lparr>lar_liked = False, lar_already_existed = None, lar_was_liked = Some (was_liked res), lar_count = n,
        lar_liked_at = None\<rparr>, w))"

definition like_command ::
  "'w app \<Rightarrow> uuid \<Rightarrow> string \<Rightarrow> uuid \<Rightarrow> 'w cmd_state \<Rightarrow> (app_error + like_action_response) \<times> 'w cmd_state" where
  "like_command a user ct cid = (\<lambda>(b, d, w).
     (case validate_content a ct cid (b, w) of
        (Inl e, b, w) \<Rightarrow> (Inl e, b, d, w)
      | (Inr _, b, w) \<Rightarrow>
          (case insert_like (ap_ext a) user ct cid (d, w) of
             (Inl e, d, w) \<Rightarrow> (Inl (map_db_error e), b, d, w)
           | (Inr res, d, w) \<Rightarrow>
               (case liked_response a user ct cid res w of (resp, w) \<Rightarrow> (Inr resp, b, d, w)))))"

definition unlike_command ::
  "'w app \<Rightarrow> uuid \<Rightarrow> string \<Rightarrow> uuid \<Rightarrow> 'w cmd_state \<Rightarrow> (app_error + like_action_response) \<times> 'w cmd_state" where
  "unlike_command a user ct cid = (\<lambda>(b, d, w).
     (case validate_content a ct cid (b, w) of
        (Inl e, b, w) \<Rightarrow> (Inl e, b, d, w)
      | (Inr _, b, w) \<Rightarrow>
          (case delete_like (ap_ext a) user ct cid (d, w) of
             (Inl e, d, w) \<Rightarrow> (Inl (map_db_error e), b, d, w)
           | (Inr res, d, w) \<Rightarrow>
               (case unliked_response a user ct cid res w of (resp, w) \<Rightarrow> (Inr resp, b, d, w)))))"

section \<open>Validation is sound\<close>

lemma br_step_entries:
  assumes ok: "store_ok x H" and P: "entries H P w"
  shows "br_allow (x, bc) (b, w) = (g, b', w') \<Longrightarrow> entries H P w'"
    and "br_success (x, bc) (b, w) = (b', w') \<Longrightarrow> entries H P w'"
    and "br_failure (x, bc) (b, w) = (b', w') \<Longrightarrow> entries H P w'"
proof -
  have i: "entries H P w1" if "instant_now x w0 = (t, w1)" "entries H P w0" for t w0 w1
    using store_step_entries(14) [OF ok that] .
  show "br_allow (x, bc) (b, w) = (g, b', w') \<Longrightarrow> entries H P w'"
    "br_success (x, bc) (b, w) = (b', w') \<Longrightarrow> entries H P w'"
    using i [OF _ P] by (auto simp: br_allow_def br_success_def split: prod.splits)
  show "br_failure (x, bc) (b, w) = (b', w') \<Longrightarrow> entries H P w'"
    using i [OF _ i [OF _ P]] by (auto simp: br_failure_def split: prod.splits)
qed

definition true_verdict :: "codec \<Rightarrow> (string \<Rightarrow> uuid \<Rightarrow> bool) \<Rightarrow> string \<Rightarrow> uuid \<Rightarrow> (string \<times> string) set" where
  "true_verdict cx truth ct cid = {(cv_cache_key cx ct cid, if truth ct cid then ''1'' else ''0'')}"

context content_validation
begin

text \<open>A validation adds nothing to the cache but the verdict of the content service.\<close>

lemma validate_content_frame:
  assumes env: "env_ok (x, cx, cfg) H truth" and ok: "store_ok x H"
    and a: "ap_ext a = x" "ap_codec a = cx" "ap_content_validator a = validate (x, cx, cfg)"
    and P: "entries H (cv_entry cx truth) w"
    and run: "validate_content a ct cid (b, w) = (r, b', w')"
  shows "adds_only H (true_verdict cx truth ct cid) w w'"
proof -
  let ?c = "(x, ap_content_breaker a)" and ?Q = "\<lambda>k v. H w k v \<or> (k, v) \<in> true_verdict cx truth ct cid"
  have Q: "entries H ?Q w" by (simp add: entries_def)
  obtain g b1 w1 where g: "br_allow ?c (b, w) = (g, b1, w1)" by (metis prod_cases3)
  have P1: "entries H (cv_entry cx truth) w1" by (rule br_step_entries(1) [OF ok P g])
  have Q1: "entries H ?Q w1" by (rule br_step_entries(1) [OF ok Q g])
  show ?thesis
  proof (cases g)
    case False
    then show ?thesis using run g a Q1 by (auto simp: validate_content_def Let_def adds_only_entries)
  next
    case True
    obtain q w2 where v: "validate (x, cx, cfg) ct cid w1 = (q, w2)" by fastforce
    have "verdict_entry cx ct cid q \<subseteq> true_verdict cx truth ct cid"
      using verdict_law [OF env P1 v]
      by (cases q; cases "projr q") (auto simp: verdict_entry_def true_verdict_def)
    then have "adds_only H (true_verdict cx truth ct cid) w1 w2" using adds_mono [OF frame_law [OF ok v]] by blast
    then have Q2: "entries H ?Q w2" using Q1 unfolding adds_only_def entries_def by blast
    obtain bs ws where s: "br_success ?c (b1, w2) = (bs, ws)" by fastforce
    obtain bf wf where f: "br_failure ?c (b1, w2) = (bf, wf)" by fastforce
    show ?thesis
      using run g True a v s f br_step_entries(2) [OF ok Q2 s] br_step_entries(3) [OF ok Q2 f] Q2
      by (auto simp: validate_content_def Let_def adds_only_entries split: sum.splits validation_outcome.splits)
  qed
qed

text \<open>Whatever validator is behind it, a content that passes exists, one that is not found does not.\<close>

lemma validate_content_sound:
  assumes env: "env_ok (x, cx, cfg) H truth" and ok: "store_ok x H"
    and a: "ap_ext a = x" "ap_codec a = cx" "ap_content_validator a = validate (x, cx, cfg)"
    and P: "entries H (cv_entry cx truth) w"
    and run: "validate_content a ct cid (b, w) = (r, b', w')"
  shows "entries H (cv_entry cx truth) w'
       \<and> (case r of
            Inr _ \<Rightarrow> truth ct cid
          | Inl e \<Rightarrow> e = content_unavailable \<or> e = ContentTypeUnknown ct
              \<or> (e = ContentNotFound ct (uuid_show cx cid) \<and> \<not> truth ct cid))"
proof -
  let ?c = "(x, ap_content_breaker a)"
  obtain g b1 w1 where g: "br_allow ?c (b, w) = (g, b1, w1)" by (metis prod_cases3)
  have P1: "entries H (cv_entry cx truth) w1" by (rule br_step_entries(1) [OF ok P g])
  show ?thesis
  proof (cases g)
    case False
    then show ?thesis using run g a P1 by (auto simp: validate_content_def Let_def)
  next
    case True
    obtain q w2 where v: "validate (x, cx, cfg) ct cid w1 = (q, w2)" by fastforce
    note l = verdict_law [OF env P1 v]
    have e: "q = Inl e \<Longrightarrow> e = content_unavailable \<or> e = ContentTypeUnknown ct" for e
      using error_law v by blast
    have P2: "entries H (cv_entry cx truth) w2" using l by simp
    obtain bs ws where s: "br_success ?c (b1, w2) = (bs, ws)" by fastforce
    obtain bf wf where f: "br_failure ?c (b1, w2) = (bf, wf)" by fastforce
    note Ps = br_step_entries(2) [OF ok P2 s] and Pf = br_step_entries(3) [OF ok P2 f]
    show ?thesis
      using run g True a v s f Ps Pf P2 l e
      by (auto simp: validate_content_def Let_def verdict_def split: sum.splits validation_outcome.splits if_splits)
  qed
qed

end

section \<open>What the commands leave in the cache\<close>

lemma status_cache_key_take [simp]: "take 3 (status_cache_key cx user ct cid) = ''ls:''"
  by (simp add: status_cache_key_def)

lemma count_cache_key_take [simp]: "take 3 (count_cache_key cx ct cid) = ''lc:''"
  by (simp add: count_cache_key_def)

text \<open>A property of entries that says nothing of counts and statuses survives what a command does.\<close>

definition cmd_free :: "(string \<Rightarrow> string \<Rightarrow> bool) \<Rightarrow> bool" where
  "cmd_free P \<longleftrightarrow> (\<forall>k v. take 3 k = ''lc:'' \<or> take 3 k = ''ls:'' \<longrightarrow> P k v)"

lemma cmd_free_cv: "cmd_free (cv_entry cx truth)"
  by (auto simp: cmd_free_def intro!: cv_entry_other)

lemma cmd_effects:
  assumes ok: "store_ok (ap_ext a) H" and free: "cmd_free P" and P: "entries H P w"
  shows "entries H P (app_write_count a ct cid n w)"
    and "entries H P (update_status_cache a user ct cid la w)"
    and "entries H P (invalidate_user_likes a user ct w)"
    and "entries H P (app_publish a ev ct cid w)"
  using free
  by (auto simp: write_count_def update_status_cache_def invalidate_user_likes_def publish_event_def Let_def
      cmd_free_def intro!: cm.put_entry [OF ok P] cm.del_entries [OF ok] other_entries [OF ok] P split: option.splits)

lemma liked_response_entries:
  assumes ok: "store_ok (ap_ext a) H" and free: "cmd_free P" and P: "entries H P w"
    and run: "liked_response a user ct cid res w = (resp, w')"
  shows "entries H P w'"
  using run cmd_effects [OF ok free] P
  by (auto simp: liked_response_def Let_def split: insert_like_result.splits)

lemma unliked_response_entries:
  assumes ok: "store_ok (ap_ext a) H" and free: "cmd_free P" and P: "entries H P w"
    and run: "unliked_response a user ct cid res w = (resp, w')"
  shows "entries H P w'"
  using run cmd_effects [OF ok free] P store_step_entries(12) [OF ok]
  by (auto simp: unliked_response_def Let_def split: if_splits prod.splits)

text \<open>The entries a command may add to the cache after its transaction: the count it reports under the key of
  the item, and the time of the like, or that there is none, under the status key of the user. When the
  like was concurrently removed it adds none.\<close>

definition command_entries ::
  "codec \<Rightarrow> uuid \<Rightarrow> string \<Rightarrow> uuid \<Rightarrow> app_error + like_action_response \<Rightarrow> (string \<times> string) set" where
  "command_entries cx user ct cid r =
     (case r of
        Inl _ \<Rightarrow> {}
      | Inr resp \<Rightarrow>
          (if lar_liked resp \<and> lar_liked_at resp = None then {}
           else {(count_cache_key cx ct cid, show_int (lar_count resp)),
                 (status_cache_key cx user ct cid, status_value cx (lar_liked_at resp))}))"

lemma effects_keep:
  assumes ok: "store_ok (ap_ext a) H" and P: "entries H P w"
  shows "P (count_cache_key (ap_codec a) ct cid) (show_int n) \<Longrightarrow> entries H P (app_write_count a ct cid n w)"
    and "P (status_cache_key (ap_codec a) user ct cid) (status_value (ap_codec a) la) \<Longrightarrow>
      entries H P (update_status_cache a user ct cid la w)"
    and "entries H P (invalidate_user_likes a user ct w)"
    and "entries H P (app_publish a ev ct cid w)"
  by (auto simp: write_count_def update_status_cache_def invalidate_user_likes_def publish_event_def Let_def
      intro!: cm.put_entry [OF ok P] cm.del_entries [OF ok] other_entries [OF ok] P split: option.splits)

lemma liked_response_frame:
  assumes ok: "store_ok (ap_ext a) H" and run: "liked_response a user ct cid res w = (resp, w')"
  shows "adds_only H (command_entries (ap_codec a) user ct cid (Inr resp)) w w'"
  unfolding adds_only_entries
proof -
  let ?P = "\<lambda>k v. H w k v \<or> (k, v) \<in> command_entries (ap_codec a) user ct cid (Inr resp)"
  have P: "entries H ?P w" by (simp add: entries_def)
  have two: "entries H ?P (update_status_cache a user ct cid (lar_liked_at resp) (app_write_count a ct cid (lar_count resp) w))"
    if "lar_liked_at resp \<noteq> None"
    by (rule effects_keep(2) [OF ok effects_keep(1) [OF ok P]]) (use that in \<open>auto simp: command_entries_def\<close>)
  note all = effects_keep(4) [OF ok effects_keep(3) [OF ok two]]
  show "entries H ?P w'"
  proof (cases res)
    case (Inserted row n)
    then have "lar_count resp = n" "lar_liked_at resp = Some (row_created row)"
      "w' = app_publish a (Liked user n (row_created row)) ct cid (invalidate_user_likes a user ct
         (update_status_cache a user ct cid (lar_liked_at resp) (app_write_count a ct cid (lar_count resp) w)))"
      using run by (auto simp: liked_response_def Let_def)
    then show ?thesis using all by simp
  next
    case (AlreadyExisted row n)
    then have "lar_count resp = n" "lar_liked_at resp = Some (row_created row)"
      "w' = update_status_cache a user ct cid (lar_liked_at resp) (app_write_count a ct cid (lar_count resp) w)"
      using run by (auto simp: liked_response_def Let_def)
    then show ?thesis using two by simp
  next
    case (ConcurrentlyRemoved n)
    then show ?thesis using run P by (auto simp: liked_response_def)
  qed
qed

lemma unliked_response_frame:
  assumes ok: "store_ok (ap_ext a) H" and run: "unliked_response a user ct cid res w = (resp, w')"
  shows "adds_only H (command_entries (ap_codec a) user ct cid (Inr resp)) w w'"
  unfolding adds_only_entries
proof -
  let ?P = "\<lambda>k v. H w k v \<or> (k, v) \<in> command_entries (ap_codec a) user ct cid (Inr resp)"
  have P: "entries H ?P w" by (simp add: entries_def)
  let ?w3 = "invalidate_user_likes a user ct (update_status_cache a user ct cid None (app_write_count a ct cid (dl_count res) w))"
  have r: "lar_count resp = dl_count res" "lar_liked_at resp = None" "\<not> lar_liked resp"
    using run by (auto simp: unliked_response_def Let_def split: if_splits prod.splits)
  have P3: "entries H ?P ?w3"
    by (rule effects_keep(3) [OF ok effects_keep(2) [OF ok effects_keep(1) [OF ok P]]]) (simp_all add: command_entries_def r)
  have P4: "entries H ?P w4" if "utc_now (ap_ext a) ?w3 = (t, w4)" for t w4
    by (rule store_step_entries(12) [OF ok that P3])
  obtain t w4 where t: "utc_now (ap_ext a) ?w3 = (t, w4)" by fastforce
  have "w' = ?w3 \<or> (\<exists>ev. w' = app_publish a ev ct cid w4)"
    using run t by (auto simp: unliked_response_def Let_def split: if_splits)
  then show "entries H ?P w'" using P3 effects_keep(4) [OF ok P4 [OF t]] by auto
qed

text \<open>The statements of the database touch no cache.\<close>

lemma sql_read_shrinks:
  assumes ok: "store_ok x H" and run: "sql_read x q (d, w) = (r, d', w')"
  shows "shrinks H w w'"
  using run store_shrinks(18) [OF ok] by (auto simp: sql_read_def split: prod.splits option.splits)

lemma sql_meanwhile_shrinks:
  assumes ok: "store_ok x H" and run: "sql_meanwhile x (d, w) = (d', w')"
  shows "shrinks H w w'"
  using run store_shrinks(20) [OF ok] by (auto simp: sql_meanwhile_def split: prod.splits)

lemma sql_commit_shrinks:
  assumes ok: "store_ok x H" and run: "sql_commit x d0 d1 v w = (r, d', w')"
  shows "shrinks H w w'"
  using run store_shrinks(19) [OF ok] by (auto simp: sql_commit_def split: prod.splits option.splits)

lemma insert_existing_shrinks:
  assumes ok: "store_ok x H" and run: "insert_existing x user c (d, w) = (r, d', w')"
  shows "shrinks H w w'"
proof -
  note tr = shrinks_trans [OF _ sql_read_shrinks [OF ok]] shrinks_trans [OF _ sql_commit_shrinks [OF ok]]
    shrinks_trans [OF _ sql_meanwhile_shrinks [OF ok]]
  obtain d1 w1 where 1: "sql_meanwhile x (d, w) = (d1, w1)" by fastforce
  obtain q d2 w2 where 2: "sql_read x (\<lambda>d. (sql_find_like user c d, sql_count c d)) (d1, w1) = (q, d2, w2)"
    by (metis prod_cases3)
  obtain k d3 w3 where 3: "sql_commit x d2 d2 () w2 = (k, d3, w3)" by (metis prod_cases3)
  obtain d4 w4 where 4: "sql_meanwhile x (d3, w3) = (d4, w4)" by fastforce
  obtain q' d5 w5 where 5: "sql_read x (sql_count c) (d4, w4) = (q', d5, w5)" by (metis prod_cases3)
  have s1: "shrinks H w w1" by (rule sql_meanwhile_shrinks [OF ok 1])
  have s2: "shrinks H w w2" by (rule tr(1) [OF s1 2])
  have s3: "shrinks H w w3" by (rule tr(2) [OF s2 3])
  have s5: "shrinks H w w5" by (rule tr(1) [OF tr(3) [OF s3 4] 5])
  show ?thesis
    using run 1 2 3 4 5 s2 s3 s5 by (auto simp: insert_existing_def split: sum.splits prod.splits option.splits)
qed

lemma insert_like_shrinks:
  assumes ok: "store_ok x H" and run: "insert_like x user ct cid (d, w) = (r, d', w')"
  shows "shrinks H w w'"
proof -
  obtain f1 w1 where 1: "db_fault x w = (f1, w1)" by fastforce
  obtain now w2 where 2: "db_now x w1 = (now, w2)" by fastforce
  obtain f3 w3 where 3: "db_fault x w2 = (f3, w3)" by fastforce
  obtain o1 d1 where i: "sql_insert_like user (ct, cid) now d = (o1, d1)" by fastforce
  obtain f4 w4 where 4: "db_fault x w3 = (f4, w4)" by fastforce
  obtain n d2 where u: "sql_upsert_count (ct, cid) d1 = (n, d2)" by fastforce
  have s1: "shrinks H w w1" using store_shrinks(18) [OF ok 1] .
  have s2: "shrinks H w w2" by (rule shrinks_trans [OF s1 store_shrinks(21) [OF ok 2]])
  have s3: "shrinks H w w3" by (rule shrinks_trans [OF s2 store_shrinks(18) [OF ok 3]])
  have s4: "shrinks H w w4" by (rule shrinks_trans [OF s3 store_shrinks(18) [OF ok 4]])
  have s5: "sql_commit x (burn_seq d) d2 v w4 = (r, d', w') \<Longrightarrow> shrinks H w w'" for v
    by (rule shrinks_trans [OF s4 sql_commit_shrinks [OF ok]])
  have s6: "insert_existing x user (ct, cid) (d1, w3) = (r, d', w') \<Longrightarrow> shrinks H w w'"
    by (rule shrinks_trans [OF s3 insert_existing_shrinks [OF ok]])
  show ?thesis
    using run 1 2 3 4 i u s1 s2 s3 s4 s5 s6
    by (cases f1; cases f3; cases f4; cases o1) (auto simp: insert_like_def split: if_splits)
qed

lemma delete_like_shrinks:
  assumes ok: "store_ok x H" and run: "delete_like x user ct cid (d, w) = (r, d', w')"
  shows "shrinks H w w'"
proof -
  obtain f1 w1 where 1: "db_fault x w = (f1, w1)" by fastforce
  obtain f2 w2 where 2: "db_fault x w1 = (f2, w2)" by fastforce
  obtain f3 w3 where 3: "db_fault x w2 = (f3, w3)" by fastforce
  obtain n d1 where i: "sql_delete_like user (ct, cid) d = (n, d1)" by fastforce
  obtain m d2 where u: "sql_decrement_count (ct, cid) d1 = (m, d2)" by fastforce
  obtain dm wm where 4: "sql_meanwhile x (d1, w2) = (dm, wm)" by fastforce
  obtain q d5 w5 where 5: "sql_read x (sql_count (ct, cid)) (dm, wm) = (q, d5, w5)" by (metis prod_cases3)
  have s1: "shrinks H w w1" using store_shrinks(18) [OF ok 1] .
  have s2: "shrinks H w w2" by (rule shrinks_trans [OF s1 store_shrinks(18) [OF ok 2]])
  have s3: "shrinks H w w3" by (rule shrinks_trans [OF s2 store_shrinks(18) [OF ok 3]])
  have s5: "shrinks H w w5"
    by (rule shrinks_trans [OF shrinks_trans [OF s2 sql_meanwhile_shrinks [OF ok 4]] sql_read_shrinks [OF ok 5]])
  have c3: "sql_commit x da db v w3 = (r, d', w') \<Longrightarrow> shrinks H w w'" for da db v
    by (rule shrinks_trans [OF s3 sql_commit_shrinks [OF ok]])
  have c5: "sql_commit x da db v w5 = (r, d', w') \<Longrightarrow> shrinks H w w'" for da db v
    by (rule shrinks_trans [OF s5 sql_commit_shrinks [OF ok]])
  show ?thesis
    using run 1 2 3 4 5 i u s1 s2 s3 s5 c3 c5
    by (cases f1; cases f2; cases f3; cases q) (auto simp: delete_like_def delete_absent_def split: if_splits)
qed

lemma write_entries:
  assumes ok: "store_ok x H" and P: "entries H P w"
  shows "insert_like x user ct cid (d, w) = (r, d', w') \<Longrightarrow> entries H P w'"
    and "delete_like x user ct cid (d, w) = (q, d', w') \<Longrightarrow> entries H P w'"
  using insert_like_shrinks [OF ok] delete_like_shrinks [OF ok] P by (blast intro: entries_shrinks)+

section \<open>Properties\<close>

text \<open>The outcome of a command, the transaction and the validation together.\<close>

definition failed_early :: "codec \<Rightarrow> (string \<Rightarrow> uuid \<Rightarrow> bool) \<Rightarrow> string \<Rightarrow> uuid \<Rightarrow> app_error \<Rightarrow> bool" where
  "failed_early cx truth ct cid e \<longleftrightarrow> e = content_unavailable \<or> e = ContentTypeUnknown ct
     \<or> (e = ContentNotFound ct (uuid_show cx cid) \<and> \<not> truth ct cid)"

context content_validation
begin

lemma like_command_sound:
  assumes env: "env_ok (x, cx, cfg) H truth" and ok: "store_ok x H" and oth: "others_ok x"
    and a: "ap_ext a = x" "ap_codec a = cx" "ap_content_validator a = validate (x, cx, cfg)"
    and P: "entries H (cv_entry cx truth) w" and inv: "db_inv d"
    and run: "like_command a user ct cid (b, d, w) = (r, b', d', w')"
  shows "entries H (cv_entry cx truth) w' \<and> db_inv d'
       \<and> (case r of
            Inr resp \<Rightarrow> truth ct cid \<and> lar_liked resp \<and> lar_count resp = int (rows_of (ct, cid) d')
              \<and> lar_already_existed resp = Some (liked user (ct, cid) d)
              \<and> (lar_liked_at resp \<noteq> None \<longrightarrow>
                   lar_liked_at resp = map_option lk_created (sql_find_like user (ct, cid) d'))
          | Inl e \<Rightarrow> (d' = d \<and> failed_early cx truth ct cid e) \<or> (\<exists>m. e = Database m))"
proof -
  obtain q b1 w1 where v: "validate_content a ct cid (b, w) = (q, b1, w1)" by (metis prod_cases3)
  note vs = validate_content_sound [OF env ok a P v]
  obtain i d2 w2 where i: "insert_like x user ct cid (d, w1) = (i, d2, w2)" by (metis prod_cases3)
  note out = insert_like_outcome [OF oth inv i]
  have P2: "entries H (cv_entry cx truth) w2" using write_entries(1) [OF ok _ i] vs by blast
  show ?thesis
  proof (cases q)
    case (Inl e)
    then show ?thesis using run v vs inv by (auto simp: like_command_def failed_early_def)
  next
    case Inr
    show ?thesis
    proof (cases i)
      case (Inl e)
      then show ?thesis using run v Inr i a P2 out
        by (auto simp: like_command_def map_db_error_def insert_outcome_def)
    next
      case (Inr res)
      obtain resp w3 where l: "liked_response a user ct cid res w2 = (resp, w3)" by fastforce
      have P3: "entries H (cv_entry cx truth) w3"
        using liked_response_entries [OF _ cmd_free_cv P2 l] ok a by simp
      have "r = Inr resp \<and> d' = d2 \<and> w' = w3"
        using run v i l Inr \<open>q = Inr _\<close> a by (simp add: like_command_def)
      moreover have "\<exists>q. sql_find_like user (ct, cid) d2 = Some q \<and> row = row_of q" if "res = Inserted row n" for row n
      proof (rule insert_like_row)
        show "insert_like x user ct cid (d, w1) = (Inr (Inserted row n), d2, w2)" using i Inr that by simp
        show "\<not> liked user (ct, cid) d" using out Inr that by (simp add: insert_outcome_def)
      qed
      ultimately show ?thesis
        using l out Inr P3 vs \<open>q = Inr _\<close>
        by (cases res) (auto simp: liked_response_def insert_outcome_def Let_def row_of_def)
    qed
  qed
qed

lemma like_command_frame:
  assumes env: "env_ok (x, cx, cfg) H truth" and ok: "store_ok x H"
    and a: "ap_ext a = x" "ap_codec a = cx" "ap_content_validator a = validate (x, cx, cfg)"
    and P: "entries H (cv_entry cx truth) w"
    and run: "like_command a user ct cid (b, d, w) = (r, b', d', w')"
  shows "adds_only H (true_verdict cx truth ct cid \<union> command_entries cx user ct cid r) w w'"
proof -
  let ?E = "true_verdict cx truth ct cid \<union> command_entries cx user ct cid r"
  obtain q b1 w1 where v: "validate_content a ct cid (b, w) = (q, b1, w1)" by (metis prod_cases3)
  have 1: "adds_only H ?E w w1" by (rule adds_mono [OF validate_content_frame [OF env ok a P v]]) simp
  obtain i d2 w2 where i: "insert_like x user ct cid (d, w1) = (i, d2, w2)" by (metis prod_cases3)
  have 2: "adds_only H ?E w w2" by (rule adds_before [OF 1 insert_like_shrinks [OF ok i]])
  show ?thesis
  proof (cases q)
    case (Inl e)
    then show ?thesis using run v 1 by (auto simp: like_command_def)
  next
    case Inr
    show ?thesis
    proof (cases i)
      case (Inl e)
      then show ?thesis using run v Inr i a 2 by (auto simp: like_command_def)
    next
      case (Inr res)
      obtain resp w3 where l: "liked_response a user ct cid res w2 = (resp, w3)" by fastforce
      have e: "r = Inr resp \<and> w' = w3" using run v i l Inr \<open>q = Inr _\<close> a by (simp add: like_command_def)
      have "adds_only H (command_entries cx user ct cid (Inr resp)) w2 w3"
        using liked_response_frame [OF _ l] ok a by simp
      then have "adds_only H ?E w2 w3" using e by (auto intro: adds_mono)
      then show ?thesis using adds_trans [OF 2] e by blast
    qed
  qed
qed

lemma unlike_command_frame:
  assumes env: "env_ok (x, cx, cfg) H truth" and ok: "store_ok x H"
    and a: "ap_ext a = x" "ap_codec a = cx" "ap_content_validator a = validate (x, cx, cfg)"
    and P: "entries H (cv_entry cx truth) w"
    and run: "unlike_command a user ct cid (b, d, w) = (r, b', d', w')"
  shows "adds_only H (true_verdict cx truth ct cid \<union> command_entries cx user ct cid r) w w'"
proof -
  let ?E = "true_verdict cx truth ct cid \<union> command_entries cx user ct cid r"
  obtain q b1 w1 where v: "validate_content a ct cid (b, w) = (q, b1, w1)" by (metis prod_cases3)
  have 1: "adds_only H ?E w w1" by (rule adds_mono [OF validate_content_frame [OF env ok a P v]]) simp
  obtain i d2 w2 where i: "delete_like x user ct cid (d, w1) = (i, d2, w2)" by (metis prod_cases3)
  have 2: "adds_only H ?E w w2" by (rule adds_before [OF 1 delete_like_shrinks [OF ok i]])
  show ?thesis
  proof (cases q)
    case (Inl e)
    then show ?thesis using run v 1 by (auto simp: unlike_command_def)
  next
    case Inr
    show ?thesis
    proof (cases i)
      case (Inl e)
      then show ?thesis using run v Inr i a 2 by (auto simp: unlike_command_def)
    next
      case (Inr res)
      obtain resp w3 where l: "unliked_response a user ct cid res w2 = (resp, w3)" by fastforce
      have e: "r = Inr resp \<and> w' = w3" using run v i l Inr \<open>q = Inr _\<close> a by (simp add: unlike_command_def)
      have "adds_only H (command_entries cx user ct cid (Inr resp)) w2 w3"
        using unliked_response_frame [OF _ l] ok a by simp
      then have "adds_only H ?E w2 w3" using e by (auto intro: adds_mono)
      then show ?thesis using adds_trans [OF 2] e by blast
    qed
  qed
qed

lemma unlike_command_sound:
  assumes env: "env_ok (x, cx, cfg) H truth" and ok: "store_ok x H" and oth: "others_ok x"
    and a: "ap_ext a = x" "ap_codec a = cx" "ap_content_validator a = validate (x, cx, cfg)"
    and P: "entries H (cv_entry cx truth) w" and inv: "db_inv d"
    and run: "unlike_command a user ct cid (b, d, w) = (r, b', d', w')"
  shows "entries H (cv_entry cx truth) w' \<and> db_inv d'
       \<and> (case r of
            Inr resp \<Rightarrow> truth ct cid \<and> \<not> lar_liked resp \<and> lar_count resp = int (rows_of (ct, cid) d')
              \<and> lar_liked_at resp = None \<and> lar_was_liked resp = Some (liked user (ct, cid) d)
              \<and> (liked user (ct, cid) d \<longrightarrow> \<not> liked user (ct, cid) d')
          | Inl e \<Rightarrow> (d' = d \<and> failed_early cx truth ct cid e) \<or> (\<exists>m. e = Database m))"
proof -
  obtain q b1 w1 where v: "validate_content a ct cid (b, w) = (q, b1, w1)" by (metis prod_cases3)
  note vs = validate_content_sound [OF env ok a P v]
  obtain i d2 w2 where i: "delete_like x user ct cid (d, w1) = (i, d2, w2)" by (metis prod_cases3)
  note out = delete_like_outcome [OF oth inv i]
  have P2: "entries H (cv_entry cx truth) w2" using write_entries(2) [OF ok _ i] vs by blast
  show ?thesis
  proof (cases q)
    case (Inl e)
    then show ?thesis using run v vs inv by (auto simp: unlike_command_def failed_early_def)
  next
    case Inr
    show ?thesis
    proof (cases i)
      case (Inl e)
      then show ?thesis using run v Inr i a P2 out
        by (auto simp: unlike_command_def map_db_error_def delete_outcome_def)
    next
      case (Inr res)
      obtain resp w3 where l: "unliked_response a user ct cid res w2 = (resp, w3)" by fastforce
      have P3: "entries H (cv_entry cx truth) w3"
        using unliked_response_entries [OF _ cmd_free_cv P2 l] ok a by simp
      have "r = Inr resp \<and> d' = d2 \<and> w' = w3"
        using run v i l Inr \<open>q = Inr _\<close> a by (simp add: unlike_command_def)
      moreover have "\<not> lar_liked resp \<and> lar_liked_at resp = None \<and> lar_count resp = dl_count res \<and> lar_was_liked resp = Some (was_liked res)"
        using l by (auto simp: unliked_response_def Let_def split: if_splits prod.splits)
      ultimately show ?thesis
        using out Inr P3 vs \<open>q = Inr _\<close> by (auto simp: delete_outcome_def)
    qed
  qed
qed

end

lemma app_new_fields:
  "ap_ext (fst (app_new x cx cfg pu cu)) = x" "ap_codec (fst (app_new x cx cfg pu cu)) = cx"
  "ap_config (fst (app_new x cx cfg pu cu)) = cfg"
  "ap_content_validator (fst (app_new x cx cfg pu cu)) = choose_content_validator (x, cx, cfg) cu"
  "ap_token_validator (fst (app_new x cx cfg pu cu)) = choose_token_validator (x, cx, cfg) pu"
  by (simp_all add: app_new_def build_circuit_breaker_def)

lemma content_env_store: "content_env (x, cx, cfg) up H truth \<Longrightarrow> store_ok x H \<and> uuid_codec_ok cx"
  by (auto simp: content_env_def split: if_splits)

text \<open>The application the witnesses run: every content exists, as the HTTP service says.\<close>

definition yes_http :: "http_request \<Rightarrow> string + http_response" where
  "yes_http r = Inr \<lparr>hs_status = 200, hs_json = Inl []\<rparr>"

abbreviation sample_yes :: "sample ext" where
  "sample_yes \<equiv> sample_ext yes_http no_content no_token"

definition sample_app :: "sample app" where
  "sample_app = fst (app_new sample_yes sample_codec cfg_small False False)"

lemma sample_content_env: "content_env (sample_yes, sample_codec, cfg_small) False sample_holds (\<lambda>_ _. True)"
  using sample_store_ok by (simp add: content_env_def) (simp add: sample_ext_def yes_http_def is_success_def)

lemma sample_entries: "entries sample_holds P sample_start"
  by (simp add: entries_def sample_holds_def sample_start_def)

lemma sample_validates:
  "\<exists>b w. validate_content sample_app ''post'' cid (cb_new, sample_start) = (Inr (), b, w)"
proof -
  have "content_api_url cfg_small ''post'' = Some ''http://c''"
    by (simp add: content_api_url_def cfg_small_def config_of_def Let_def)
  then have "\<exists>w. http_content_validate sample_yes sample_codec cfg_small ''post'' cid sample_start = (Inr (Remote True), w)"
    by (simp add: http_content_validate_def cm_get_def sample_ext_def sample_start_def yes_http_def is_success_def Let_def)
  moreover have "br_allow (sample_yes, c) (cb_new, sample_start) = (True, cb_new, sample_start)" for c
    by (simp add: br_allow_def allow_request_def cb_new_def sample_ext_def)
  ultimately show ?thesis
    by (auto simp: validate_content_def sample_app_def app_new_fields choose_content_validator_def verdict_def Let_def
        br_success_def split: prod.splits)
qed


lemma sample_unlike_runs:
  "db_inv d \<Longrightarrow> \<exists>resp b' d' w'. unlike_command sample_app user ''post'' cid (cb_new, d, sample_start) = (Inr resp, b', d', w')"
proof -
  assume inv: "db_inv d"
  obtain b w where v: "validate_content sample_app ''post'' cid (cb_new, sample_start) = (Inr (), b, w)"
    using sample_validates by blast
  from quiet_delete [OF sample_quiet [of yes_http no_content no_token] inv, of user "''post''" cid w] v show ?thesis
    by (force simp: unlike_command_def sample_app_def app_new_fields split: prod.splits)
qed



text \<open>C7. Unliking, end to end: a successful unlike reports whether the like existed and the exact number
  of likes left, and the user does not like the item any more; a failure before the transaction
  leaves the database as it was. It adds nothing to the cache but the true verdict on the content and,
  when it succeeds, that exact count under the key of the item and "not liked" under the status key
  of the user.\<close>

theorem unlike_end_to_end:
  assumes "content_env (x, cx, cfg) cu H truth" "others_ok x" "entries H (cv_entry cx truth) w" "db_inv d"
    and "unlike_command (fst (app_new x cx cfg pu cu)) user ct cid (b, d, w) = (r, b', d', w')"
  shows "entries H (cv_entry cx truth) w' \<and> db_inv d'
       \<and> adds_only H (true_verdict cx truth ct cid \<union> command_entries cx user ct cid r) w w'
       \<and> (case r of
            Inr resp \<Rightarrow> truth ct cid \<and> \<not> lar_liked resp \<and> lar_count resp = int (rows_of (ct, cid) d')
              \<and> lar_liked_at resp = None \<and> lar_was_liked resp = Some (liked user (ct, cid) d)
              \<and> (liked user (ct, cid) d \<longrightarrow> \<not> liked user (ct, cid) d')
          | Inl e \<Rightarrow> (d' = d \<and> failed_early cx truth ct cid e) \<or> (\<exists>m. e = Database m))"
  using app_content.unlike_command_sound [OF assms(1) _ assms(2) app_new_fields(1,2,4) assms(3-5)]
    app_content.unlike_command_frame [OF assms(1) _ app_new_fields(1,2,4) assms(3,5)]
    content_env_store [OF assms(1)] by blast

theorem unlike_end_to_end_witness:
  "lar_was_liked (projr (fst (unlike_command sample_app 2 ''post'' 8 (cb_new, db_small, sample_start)))) = Some False"
proof -
  obtain resp b' d' w' where r: "unlike_command sample_app 2 ''post'' 8 (cb_new, db_small, sample_start) = (Inr resp, b', d', w')"
    using sample_unlike_runs [OF db_small_inv] by blast
  have "\<not> liked 2 (''post'', 8) db_small"
    by (simp add: liked_ex db_small_def like_key_def like_content_def)
  with unlike_end_to_end [OF sample_content_env sample_others_ok sample_entries db_small_inv r [unfolded sample_app_def]]
  show ?thesis using r by simp
qed

section \<open>The probe that is never reported\<close>

datatype command = CLike uuid string uuid | CUnlike uuid string uuid

fun run_command :: "'w app \<Rightarrow> command \<Rightarrow> 'w cmd_state \<Rightarrow> (app_error + like_action_response) \<times> 'w cmd_state" where
  "run_command a (CLike user ct cid) s = like_command a user ct cid s"
| "run_command a (CUnlike user ct cid) s = unlike_command a user ct cid s"

fun run_commands ::
  "'w app \<Rightarrow> command list \<Rightarrow> 'w cmd_state \<Rightarrow> (app_error + like_action_response) list \<times> 'w cmd_state" where
  "run_commands a [] s = ([], s)"
| "run_commands a (c # cs) s =
     (case run_command a c s of (r, s) \<Rightarrow> (case run_commands a cs s of (rs, s) \<Rightarrow> (r # rs, s)))"

lemma busy_refuses:
  assumes "cb_state b = HalfOpen" "probe_in_flight b"
  shows "\<exists>w'. validate_content a ct cid (b, w) = (Inl content_unavailable, b, w')"
  using allow_busy [OF assms] by (auto simp: validate_content_def br_allow_def Let_def split: prod.splits)

lemma busy_command:
  assumes "cb_state b = HalfOpen" "probe_in_flight b"
  shows "\<exists>w'. run_command a c (b, d, w) = (Inl content_unavailable, b, d, w')"
proof (cases c)
  case (CLike user ct cid)
  then show ?thesis using busy_refuses [OF assms, of a ct cid w] by (auto simp: like_command_def)
next
  case (CUnlike user ct cid)
  then show ?thesis using busy_refuses [OF assms, of a ct cid w] by (auto simp: unlike_command_def)
qed

lemma busy_commands:
  assumes "cb_state b = HalfOpen" "probe_in_flight b"
  shows "\<exists>w'. run_commands a cs (b, d, w) = (replicate (length cs) (Inl content_unavailable), b, d, w')"
proof (induction cs arbitrary: w)
  case (Cons c cs)
  obtain w1 where c: "run_command a c (b, d, w) = (Inl content_unavailable, b, d, w1)"
    using busy_command [OF assms, of a c d w] by auto
  with Cons [of w1] show ?case by auto
qed simp

text \<open>C30. The service can lock itself out for good. When the breaker of the content service is not closed
  and lets a request through as its probe, and the verdict then comes from the cache, no outcome is
  ever recorded: from then on every like and unlike fails with \<open>DEPENDENCY_UNAVAILABLE\<close> and no row is
  written, however long one waits and however healthy the content service is.\<close>

theorem cached_verdict_wedges:
  assumes "cb_state b \<noteq> Closed"
    and "br_allow (ap_ext a, ap_content_breaker a) (b, w) = (True, b1, w1)"
    and "ap_content_validator a ct cid w1 = (Inr (Cached v), w2)"
  shows "snd (validate_content a ct cid (b, w)) = (b1, w2)
       \<and> fst (run_commands a cs (b1, d, w3)) = replicate (length cs) (Inl content_unavailable)
       \<and> fst (snd (snd (run_commands a cs (b1, d, w3)))) = d"
proof -
  obtain t where t: "allow_request (ap_content_breaker a) t b = (True, b1)"
    using assms(2) by (auto simp: br_allow_def split: prod.splits)
  note h = allow_grant_half_open [OF assms(1) t]
  have "snd (validate_content a ct cid (b, w)) = (b1, w2)"
    using assms(2,3) by (simp add: validate_content_def Let_def)
  with busy_commands [of b1 a cs d w3] h show ?thesis by auto
qed

text \<open>A world in which the verdict of the post 7 is cached, long after the breaker opened.\<close>

definition cached_world :: sample where
  "cached_world = sample_start\<lparr>sm_kv := [(''cv:post:7'', ''1'')], sm_clock := 10 ^ 12\<rparr>"

theorem cached_verdict_wedges_witness:
  "fst (run_commands sample_app [CLike 1 ''post'' 9, CUnlike 1 ''post'' 7]
      (cb_small_open\<lparr>cb_state := HalfOpen, probe_in_flight := True\<rparr>, db_small, sample_start\<lparr>sm_clock := 10 ^ 20\<rparr>))
     = [Inl content_unavailable, Inl content_unavailable]"
proof -
  let ?b = "cb_small_open\<lparr>cb_state := HalfOpen, probe_in_flight := True\<rparr>"
  have bc: "recovery_timeout (ap_content_breaker sample_app) = nanos 30"
    by (simp add: sample_app_def app_new_def build_circuit_breaker_def cfg_small_def config_of_def Let_def
        env_small_def env_or_default_def env_var_def)
  have ext: "ap_ext sample_app = sample_yes" by (simp add: sample_app_def app_new_fields)
  have a: "br_allow (ap_ext sample_app, ap_content_breaker sample_app) (cb_small_open, cached_world) = (True, ?b, cached_world)"
    unfolding ext by (simp add: br_allow_def allow_request_def cb_small_open_def bc nanos_def elapsed_def cached_world_def
        cb_op_defs) (simp add: sample_ext_def do_transition_def)
  have key: "cv_cache_key sample_codec ''post'' 7 = ''cv:post:7''"
    by (simp add: cv_cache_key_def sample_codec_def) (simp add: show_nat.simps digit_def char_of_def bit_Suc_0_iff)
  have v: "ap_content_validator sample_app ''post'' 7 cached_world = (Inr (Cached True), cached_world)"
    by (simp add: sample_app_def app_new_fields choose_content_validator_def http_content_validate_def key Let_def
        content_api_url_def cfg_small_def config_of_def cm_get_def)
      (simp add: sample_ext_def cached_world_def sample_start_def)
  from cached_verdict_wedges [OF cb_small_open_not_closed a v, of "[CLike 1 ''post'' 9, CUnlike 1 ''post'' 7]" db_small
      "sample_start\<lparr>sm_clock := 10 ^ 20\<rparr>"]
  show ?thesis by (simp add: numeral_2_eq_2)
qed

end
