(* ===== verification/Like_Queries.thy ===== *)
theory Like_Queries
  imports Like_Commands "HOL-Library.Log_Nat"
begin

text \<open>
  \<open>social-api/src/services/like_queries.rs\<close>: \<open>LikeQueryService\<close>, every read of the service: counts,
  like statuses singly and in batches, the pages of a user's likes, and the leaderboards. A query
  runs on the reader database and the world. The answers come from the cache where it has them, from
  the database otherwise; a query that reads the database fills the cache, the leaderboard apart.
\<close>

type_synonym 'w query_state = "db \<times> 'w"

section \<open>Counts and statuses\<close>

definition count_query ::
  "'w app \<Rightarrow> string \<Rightarrow> uuid \<Rightarrow> 'w query_state \<Rightarrow> (app_error + like_count_response) \<times> 'w query_state" where
  "count_query a ct cid s =
     (case get_count_value (ap_ext a) (ap_codec a) (ap_config a) ct cid s of
        (Inl e, s) \<Rightarrow> (Inl e, s)
      | (Inr n, s) \<Rightarrow> (Inr \<lparr>lcr_type = ct, lcr_content = cid, lcr_count = n\<rparr>, s))"

definition batch_counts_query ::
  "'w app \<Rightarrow> content_key list \<Rightarrow> 'w query_state \<Rightarrow> (app_error + batch_count_result list) \<times> 'w query_state" where
  "batch_counts_query a items s = batch_counts (ap_ext a) (ap_codec a) (ap_config a) items s"

definition status_of :: "datetime option \<Rightarrow> like_status_response" where
  "status_of la = \<lparr>lsr_liked = (la \<noteq> None), lsr_liked_at = la\<rparr>"

text \<open>An entry that is no timestamp reads as "not liked".\<close>

definition parse_status_cache_value :: "codec \<Rightarrow> string \<Rightarrow> like_status_response" where
  "parse_status_cache_value cx v =
     (if v = [] then \<lparr>lsr_liked = False, lsr_liked_at = None\<rparr>
      else (case rfc3339_parse cx v of
          Some ts \<Rightarrow> \<lparr>lsr_liked = True, lsr_liked_at = Some ts\<rparr>
        | None \<Rightarrow> \<lparr>lsr_liked = False, lsr_liked_at = None\<rparr>))"

definition status_query ::
  "'w app \<Rightarrow> uuid \<Rightarrow> string \<Rightarrow> uuid \<Rightarrow> 'w query_state \<Rightarrow> (app_error + like_status_response) \<times> 'w query_state" where
  "status_query a user ct cid = (\<lambda>(d, w).
     (case cm_get (ap_ext a) (status_cache_key (ap_codec a) user ct cid) w of
        (Some cached, w) \<Rightarrow> (Inr (parse_status_cache_value (ap_codec a) cached), d, w)
      | (None, w) \<Rightarrow>
          (case get_like_status (ap_ext a) user ct cid (d, w) of
             (Inl e, s) \<Rightarrow> (Inl (map_db_error e), s)
           | (Inr liked_at, d, w) \<Rightarrow>
               (Inr (status_of liked_at), d, update_status_cache a user ct cid liked_at w))))"

text \<open>The batch: rows from the cache where it has them, the positions of the others; then one query and
  one pipelined write for those.\<close>

definition status_row :: "content_key \<Rightarrow> like_status_response \<Rightarrow> batch_status_result" where
  "status_row c st = \<lparr>bsr_type = fst c, bsr_content = snd c, bsr_liked = lsr_liked st, bsr_liked_at = lsr_liked_at st\<rparr>"

fun scan_statuses ::
  "codec \<Rightarrow> string option list \<Rightarrow> nat \<Rightarrow> content_key list \<Rightarrow> batch_status_result list \<times> nat list" where
  "scan_statuses cx vs i [] = ([], [])"
| "scan_statuses cx vs i (c # items) =
     (case scan_statuses cx vs (Suc i) items of (rs, missing) \<Rightarrow>
       (case cached_at vs i of
          Some v \<Rightarrow> (status_row c (parse_status_cache_value cx v) # rs, missing)
        | None \<Rightarrow> (status_row c (status_of None) # rs, i # missing)))"

text \<open>\<open>db_map.get(..).and_then(|ts| *ts)\<close> on the rows collected into a map.\<close>

definition row_status :: "(content_key \<times> datetime option) list \<Rightarrow> content_key \<Rightarrow> datetime option" where
  "row_status rows c = (case map_of (rev rows) c of None \<Rightarrow> None | Some la \<Rightarrow> la)"

fun fill_statuses ::
  "content_key list \<Rightarrow> (content_key \<times> datetime option) list \<Rightarrow> nat list \<Rightarrow> batch_status_result list
     \<Rightarrow> batch_status_result list" where
  "fill_statuses items rows [] rs = rs"
| "fill_statuses items rows (i # missing) rs =
     (let la = row_status rows (items ! i) in
      fill_statuses items rows missing (rs[i := (rs ! i)\<lparr>bsr_liked := la \<noteq> None, bsr_liked_at := la\<rparr>]))"

definition status_entries ::
  "'w app \<Rightarrow> uuid \<Rightarrow> content_key list \<Rightarrow> (content_key \<times> datetime option) list \<Rightarrow> nat list
     \<Rightarrow> (string \<times> string \<times> nat) list" where
  "status_entries a user items rows missing =
     map (\<lambda>i. (status_cache_key (ap_codec a) user (fst (items ! i)) (snd (items ! i)),
               status_value (ap_codec a) (row_status rows (items ! i)),
               cache_ttl_like_status_secs (ap_config a))) missing"

definition batch_statuses_query ::
  "'w app \<Rightarrow> uuid \<Rightarrow> content_key list \<Rightarrow> 'w query_state \<Rightarrow> (app_error + batch_status_result list) \<times> 'w query_state" where
  "batch_statuses_query a user items = (\<lambda>(d, w).
     (if length items > 100 then (Inl (BatchTooLarge (length items) 100), d, w)
      else (case cm_mget (ap_ext a) (map (\<lambda>c. status_cache_key (ap_codec a) user (fst c) (snd c)) items) w of
        (vs, w) \<Rightarrow>
          (case scan_statuses (ap_codec a) vs 0 items of (rs, missing) \<Rightarrow>
            (if missing = [] then (Inr rs, d, w)
             else (case batch_get_statuses (ap_ext a) user (map ((!) items) missing) (d, w) of
                 (Inl e, s) \<Rightarrow> (Inl (map_db_error e), s)
               | (Inr rows, d, w) \<Rightarrow>
                   (Inr (fill_statuses items rows missing rs), d,
                    cm_set_many (ap_ext a) (status_entries a user items rows missing) w)))))))"

section \<open>Pages of likes\<close>

definition item_of_row :: "like_row \<Rightarrow> user_like_item" where
  "item_of_row r = \<lparr>uli_type = row_type r, uli_content = row_content r, uli_liked_at = row_created r\<rparr>"

text \<open>The cursor after the first \<open>n\<close> rows, if there are any.\<close>

definition cursor_after :: "codec \<Rightarrow> like_row list \<Rightarrow> nat \<Rightarrow> string option" where
  "cursor_after cx rows n =
     (if n = 0 then None
      else Some (cursor_encode cx (cursor_new (row_created (rows ! (n - 1))) (row_id (rows ! (n - 1))))))"

definition build_paginated_response :: "codec \<Rightarrow> cached_user_like_page \<Rightarrow> int \<Rightarrow> paginated_response" where
  "build_paginated_response cx page limit =
     (let limit = nat limit;
          take_n = min limit (length (cp_rows page));
          items = map item_of_row (take take_n (cp_rows page));
          has_more = (if length (cp_rows page) > limit then True
                      else if length (cp_rows page) = limit then cp_has_more page else False);
          next_cursor = (if has_more then cursor_after cx (cp_rows page) (length items) else None) in
      \<lparr>pg_items = items, pg_next_cursor = next_cursor, pg_has_more = has_more\<rparr>)"

definition max_page :: int where "max_page = 100"

definition first_page :: "like_row list \<Rightarrow> cached_user_like_page" where
  "first_page rows =
     \<lparr>cp_rows = take (min (nat max_page) (length rows)) rows, cp_has_more = (int (length rows) > max_page)\<rparr>"

definition later_page :: "codec \<Rightarrow> like_row list \<Rightarrow> int \<Rightarrow> paginated_response" where
  "later_page cx rows limit =
     (let has_more = (int (length rows) > limit);
          take_n = min (nat limit) (length rows);
          items = map item_of_row (take take_n rows);
          next_cursor = (if has_more then cursor_after cx rows (length items) else None) in
      \<lparr>pg_items = items, pg_next_cursor = next_cursor, pg_has_more = has_more\<rparr>)"

definition cached_page :: "'w app \<Rightarrow> string \<Rightarrow> 'w \<Rightarrow> cached_user_like_page option \<times> 'w" where
  "cached_page a key w =
     (case cm_get (ap_ext a) key w of
        (Some cached, w) \<Rightarrow> (page_from_json (ap_codec a) cached, w)
      | (None, w) \<Rightarrow> (None, w))"

definition user_likes_query ::
  "'w app \<Rightarrow> uuid \<Rightarrow> string option \<Rightarrow> string option \<Rightarrow> int \<Rightarrow> 'w query_state
     \<Rightarrow> (app_error + paginated_response) \<times> 'w query_state" where
  "user_likes_query a user filt cursor limit = (\<lambda>(d, w).
     (let limit = clamp 1 100 limit; x = ap_ext a; cx = ap_codec a in
      case cursor of
        None \<Rightarrow>
          (let cache_key = likes_page_key cx user (case filt of None \<Rightarrow> ''_'' | Some ct \<Rightarrow> ct) in
           case cached_page a cache_key w of
             (Some page, w) \<Rightarrow> (Inr (build_paginated_response cx page limit), d, w)
           | (None, w) \<Rightarrow>
               (case get_user_likes x user filt None None max_page (d, w) of
                  (Inl e, s) \<Rightarrow> (Inl (map_db_error e), s)
                | (Inr rows, d, w) \<Rightarrow>
                    (let page = first_page rows;
                         w = (case page_to_json cx page of
                                Some json \<Rightarrow> cm_set x cache_key json (cache_ttl_user_likes_secs (ap_config a)) w
                              | None \<Rightarrow> w) in
                     (Inr (build_paginated_response cx page limit), d, w))))
      | Some cursor_str \<Rightarrow>
          (case cursor_decode cx cursor_str of
             Inl _ \<Rightarrow> (Inl (InvalidCursor ''Malformed cursor''), d, w)
           | Inr c \<Rightarrow>
               (case get_user_likes x user filt (Some (cur_timestamp c)) (Some (cur_id c)) limit (d, w) of
                  (Inl e, s) \<Rightarrow> (Inl (map_db_error e), s)
                | (Inr rows, s) \<Rightarrow> (Inr (later_page cx rows limit), s)))))"

section \<open>Leaderboards\<close>

text \<open>\<open>n as f64\<close> for an \<open>i64\<close>: 53 bits, ties to even. \<open>score as i64\<close>: towards zero, saturating.\<close>

definition f64_of_nat :: "nat \<Rightarrow> nat" where
  "f64_of_nat n =
     (if n < 2 ^ 53 then n
      else (let k = floorlog 2 n - 53; q = n div 2 ^ k; r = n mod 2 ^ k in
        (if 2 ^ (k - 1) < r \<or> (r = 2 ^ (k - 1) \<and> odd q) then q + 1 else q) * 2 ^ k))"

definition f64_of_i64 :: "int \<Rightarrow> rat" where
  "f64_of_i64 n = (if n < 0 then - of_nat (f64_of_nat (nat (- n))) else of_nat (f64_of_nat (nat n)))"

definition i64_of_f64 :: "rat \<Rightarrow> int" where
  "i64_of_f64 q = clamp i64_min i64_max (if q < 0 then \<lceil>q\<rceil> else \<lfloor>q\<rfloor>)"

definition parse_leaderboard_member :: "codec \<Rightarrow> string \<Rightarrow> rat \<Rightarrow> top_liked_item option" where
  "parse_leaderboard_member cx member score =
     (case str_find (CHR '':'') member of
        None \<Rightarrow> None
      | Some colon_pos \<Rightarrow>
          (case uuid_parse cx (drop (colon_pos + 1) member) of
             Some cid \<Rightarrow> Some \<lparr>tli_type = take colon_pos member, tli_content = cid, tli_count = i64_of_f64 score\<rparr>
           | None \<Rightarrow> None))"

definition parse_members :: "codec \<Rightarrow> zset \<Rightarrow> top_liked_item list" where
  "parse_members cx z = List.map_filter (\<lambda>(member, score). parse_leaderboard_member cx member score) z"

definition item_of_board :: "string \<times> uuid \<times> int \<Rightarrow> top_liked_item" where
  "item_of_board = (\<lambda>(ct, cid, n). \<lparr>tli_type = ct, tli_content = cid, tli_count = n\<rparr>)"

definition window_key :: "time_window \<Rightarrow> string" where
  "window_key win = ''lb:'' @ tw_as_str win"

definition filtered_key :: "time_window \<Rightarrow> string \<Rightarrow> int \<Rightarrow> string" where
  "filtered_key win ct limit = ''lbf:'' @ tw_as_str win @ '':'' @ ct @ '':'' @ show_int limit"

text \<open>\<open>Utc::now() - Duration::seconds(secs)\<close>, the clock being read only for a bounded window.\<close>

definition window_start :: "'w ext \<Rightarrow> time_window \<Rightarrow> 'w \<Rightarrow> datetime option \<times> 'w" where
  "window_start x win w =
     (case duration_secs win of
        None \<Rightarrow> (None, w)
      | Some secs \<Rightarrow> (case utc_now x w of (t, w) \<Rightarrow> (Some (t - secs * 10 ^ 9), w)))"

definition board_response :: "time_window \<Rightarrow> string option \<Rightarrow> top_liked_item list \<Rightarrow> top_liked_response" where
  "board_response win ct items = \<lparr>tlr_window = tw_as_str win, tlr_type = ct, tlr_items = items\<rparr>"

definition board_from_db ::
  "'w app \<Rightarrow> string option \<Rightarrow> time_window \<Rightarrow> int \<Rightarrow> 'w query_state \<Rightarrow> (app_error + top_liked_response) \<times> 'w query_state" where
  "board_from_db a ct win limit = (\<lambda>(d, w).
     (case window_start (ap_ext a) win w of (since, w) \<Rightarrow>
       (case get_leaderboard (ap_ext a) ct since limit (d, w) of
          (Inl e, s) \<Rightarrow> (Inl (map_db_error e), s)
        | (Inr rows, s) \<Rightarrow> (Inr (board_response win ct (map item_of_board rows)), s))))"

definition cached_items :: "'w app \<Rightarrow> string \<Rightarrow> 'w \<Rightarrow> top_liked_item list option \<times> 'w" where
  "cached_items a key w =
     (case cm_get (ap_ext a) key w of
        (Some cached, w) \<Rightarrow> (items_from_json (ap_codec a) cached, w)
      | (None, w) \<Rightarrow> (None, w))"

definition leaderboard_query ::
  "'w app \<Rightarrow> string option \<Rightarrow> time_window \<Rightarrow> int \<Rightarrow> 'w query_state \<Rightarrow> (app_error + top_liked_response) \<times> 'w query_state" where
  "leaderboard_query a ct win limit = (\<lambda>(d, w).
     (let limit = clamp 1 50 limit in
      case ct of
        None \<Rightarrow>
          (case cm_zrevrange (ap_ext a) (window_key win) 0 (limit - 1) w of
             (cached, w) \<Rightarrow>
               (if cached \<noteq> [] then (Inr (board_response win None (parse_members (ap_codec a) cached)), d, w)
                else board_from_db a None win limit (d, w)))
      | Some t \<Rightarrow>
          (case cached_items a (filtered_key win t limit) w of
             (Some items, w) \<Rightarrow> (Inr (board_response win (Some t) items), d, w)
           | (None, w) \<Rightarrow> board_from_db a (Some t) win limit (d, w))))"

section \<open>What the statuses are\<close>

text \<open>As for counts, an arbitrary meaning \<open>S c la\<close>: "the user likes \<open>c\<close> since \<open>la\<close>, or not at all".\<close>

definition statuses_ok :: "uuid \<Rightarrow> (content_key \<Rightarrow> datetime option \<Rightarrow> bool) \<Rightarrow> db \<Rightarrow> bool" where
  "statuses_ok user S d \<longleftrightarrow> (\<forall>c. S c (map_option lk_created (sql_find_like user c d)))"

definition ls_entry ::
  "codec \<Rightarrow> uuid \<Rightarrow> (content_key \<Rightarrow> datetime option \<Rightarrow> bool) \<Rightarrow> string \<Rightarrow> string \<Rightarrow> bool" where
  "ls_entry cx user S k v \<longleftrightarrow>
     (\<forall>ct cid. k = status_cache_key cx user ct cid \<longrightarrow>
        (\<exists>la. S (ct, cid) la \<and> parse_status_cache_value cx v = status_of la))"

definition status_env ::
  "'w app \<Rightarrow> ('w \<Rightarrow> string \<Rightarrow> string \<Rightarrow> bool) \<Rightarrow> (content_key \<Rightarrow> datetime option \<Rightarrow> bool) \<Rightarrow> bool" where
  "status_env a H S \<longleftrightarrow> store_ok (ap_ext a) H \<and> uuid_codec_ok (ap_codec a) \<and> time_codec_ok (ap_codec a)
     \<and> (\<forall>w. is_ordering (fst (db_plan (ap_ext a) w))) \<and> (\<forall>c t. S c (Some t) \<longrightarrow> dt_ok t)"

definition status_state ::
  "'w app \<Rightarrow> uuid \<Rightarrow> ('w \<Rightarrow> string \<Rightarrow> string \<Rightarrow> bool) \<Rightarrow> (content_key \<Rightarrow> datetime option \<Rightarrow> bool) \<Rightarrow> 'w query_state \<Rightarrow> bool" where
  "status_state a user H S s \<longleftrightarrow> statuses_ok user S (fst s) \<and> entries H (ls_entry (ap_codec a) user S) (snd s)"

lemma statuses_okD: "statuses_ok user S d \<Longrightarrow> S c (map_option lk_created (sql_find_like user c d))"
  by (simp add: statuses_ok_def del: split_paired_All)

lemma parse_status_value:
  "time_codec_ok cx \<Longrightarrow> (\<And>t. la = Some t \<Longrightarrow> dt_ok t) \<Longrightarrow>
   parse_status_cache_value cx (status_value cx la) = status_of la"
  by (cases la) (auto simp: parse_status_cache_value_def status_value_def status_of_def time_codec_ok_def)

lemma status_cache_key_inject:
  "uuid_codec_ok cx \<Longrightarrow> status_cache_key cx user a u = status_cache_key cx user b v \<longleftrightarrow> a = b \<and> u = v"
  using colon_key_inject [of cx "''ls:'' @ uuid_show cx user @ '':'' @ a" u "''ls:'' @ uuid_show cx user @ '':'' @ b" v]
  by (auto simp: status_cache_key_def)

lemma ls_entry_own:
  "uuid_codec_ok cx \<Longrightarrow> ls_entry cx user S (status_cache_key cx user ct cid) v \<longleftrightarrow>
   (\<exists>la. S (ct, cid) la \<and> parse_status_cache_value cx v = status_of la)"
  by (auto simp: ls_entry_def status_cache_key_inject)

lemma status_entry:
  assumes "status_env a H S" "S (ct, cid) la"
  shows "ls_entry (ap_codec a) user S (status_cache_key (ap_codec a) user ct cid) (status_value (ap_codec a) la)"
proof -
  have u: "uuid_codec_ok (ap_codec a)" and t: "time_codec_ok (ap_codec a)" and d: "\<And>t. la = Some t \<Longrightarrow> dt_ok t"
    using assms unfolding status_env_def by auto
  show ?thesis unfolding ls_entry_own [OF u]
    by (rule exI [of _ la]) (simp add: assms(2) parse_status_value [OF t d])
qed

lemma status_state_world: "status_state a user H S (d, w) \<Longrightarrow> shrinks H w w' \<Longrightarrow> status_state a user H S (d, w')"
  by (auto simp: status_state_def intro: entries_shrinks)

lemma status_query_sound:
  assumes env: "status_env a H S" and st: "status_state a user H S s"
    and run: "status_query a user ct cid s = (r, s')"
  shows "status_state a user H S s' \<and> (\<forall>q. r = Inr q \<longrightarrow> (\<exists>la. S (ct, cid) la \<and> q = status_of la))"
proof -
  obtain d w where s: "s = (d, w)" by fastforce
  let ?k = "status_cache_key (ap_codec a) user ct cid"
  obtain c w1 where g: "cm_get (ap_ext a) ?k w = (c, w1)" by fastforce
  obtain q d2 w2 where l: "get_like_status (ap_ext a) user ct cid (d, w1) = (q, d2, w2)" by (metis prod_cases3)
  have ok: "store_ok (ap_ext a) H" and u: "uuid_codec_ok (ap_codec a)" using env by (simp_all add: status_env_def)
  have P: "entries H (ls_entry (ap_codec a) user S) w" using st s by (simp add: status_state_def)
  note h = cm.get_entry [OF ok P g]
  have hit: "\<exists>la. S (ct, cid) la \<and> parse_status_cache_value (ap_codec a) v = status_of la" if "c = Some v" for v
    using h that ls_entry_own [OF u, of user S ct cid v] by blast
  have d: "d2 = d \<and> (\<forall>la. q = Inr la \<longrightarrow> S (ct, cid) la)"
    using sql_read_db [OF l [unfolded get_like_status_def]] statuses_okD [of user S d "(ct, cid)"] st s
    by (auto simp: status_state_def)
  have P2: "entries H (ls_entry (ap_codec a) user S) w2"
    using sql_read_shrinks [OF ok l [unfolded get_like_status_def]] h by (blast intro: entries_shrinks)
  have put: "entries H (ls_entry (ap_codec a) user S) (update_status_cache a user ct cid la w2)" if "S (ct, cid) la" for la
    unfolding update_status_cache_def by (rule cm.put_entry [OF ok P2 status_entry [OF env that]])
  show ?thesis
    using run s g l h hit d P2 put st
    by (auto simp: status_query_def status_state_def split: option.splits sum.splits)
qed

section \<open>Batches of statuses\<close>

lemma scan_statuses_closed:
  "scan_statuses cx vs i items =
     (map (\<lambda>j. status_row (items ! (j - i)) (case cached_at vs j of Some v \<Rightarrow> parse_status_cache_value cx v
                                               | None \<Rightarrow> status_of None)) [i..<i + length items],
      filter (\<lambda>j. cached_at vs j = None) [i..<i + length items])"
proof (induction items arbitrary: i)
  case (Cons c items)
  have u: "[i..<i + length (c # items)] = i # [Suc i..<Suc i + length items]" by (simp add: upt_rec)
  have m: "map (\<lambda>j. f (items ! (j - Suc i)) j) [Suc i..<Suc i + length items] =
      map (\<lambda>j. f ((c # items) ! (j - i)) j) [Suc i..<Suc i + length items]" for f :: "content_key \<Rightarrow> nat \<Rightarrow> batch_status_result"
    by (rule map_cong) (auto simp: nth_Cons' Suc_diff_le)
  show ?case
    unfolding u scan_statuses.simps Cons.IH prod.case
      m [of "\<lambda>c j. status_row c (case cached_at vs j of Some v \<Rightarrow> parse_status_cache_value cx v | None \<Rightarrow> status_of None)"]
    by (cases "cached_at vs i") simp_all
qed simp

lemma length_fill_statuses [simp]: "length (fill_statuses items rows ms rs) = length rs"
  by (induction items rows ms rs rule: fill_statuses.induct) (simp_all add: Let_def)

lemma status_row_update:
  "(status_row c st)\<lparr>bsr_liked := la \<noteq> None, bsr_liked_at := la\<rparr> = status_row c (status_of la)"
  by (simp add: status_row_def status_of_def)

lemma fill_statuses_nth:
  assumes "\<forall>j < length items. \<exists>st. rs ! j = status_row (items ! j) st" "length rs = length items" "j < length items"
    "\<forall>i \<in> set ms. i < length items"
  shows "fill_statuses items rows ms rs ! j =
     (if j \<in> set ms then status_row (items ! j) (status_of (row_status rows (items ! j))) else rs ! j)"
  using assms
proof (induction ms arbitrary: rs)
  case (Cons i ms)
  let ?la = "row_status rows (items ! i)"
  let ?rs = "rs[i := (rs ! i)\<lparr>bsr_liked := ?la \<noteq> None, bsr_liked_at := ?la\<rparr>]"
  obtain st where "rs ! i = status_row (items ! i) st" using Cons.prems by auto
  then have up: "(rs ! i)\<lparr>bsr_liked := ?la \<noteq> None, bsr_liked_at := ?la\<rparr> = status_row (items ! i) (status_of ?la)"
    by (simp only: status_row_update)
  have shape: "\<forall>j < length items. \<exists>st. ?rs ! j = status_row (items ! j) st"
    using Cons.prems unfolding up by (auto simp: nth_list_update)
  have "fill_statuses items rows (i # ms) rs ! j = fill_statuses items rows ms ?rs ! j" by (simp add: Let_def)
  also have "\<dots> = (if j \<in> set ms then status_row (items ! j) (status_of (row_status rows (items ! j))) else ?rs ! j)"
    by (rule Cons.IH [OF shape]) (use Cons.prems in auto)
  also have "\<dots> = (if j \<in> set (i # ms) then status_row (items ! j) (status_of (row_status rows (items ! j))) else rs ! j)"
    unfolding up using Cons.prems by (auto simp: nth_list_update)
  finally show ?case .
qed simp

lemma row_status_read:
  assumes "is_ordering p" "c \<in> set cs"
  shows "row_status (permute_by p (map (\<lambda>c. (c, f c)) cs)) c = f c"
proof -
  let ?rows = "permute_by p (map (\<lambda>c. (c, f c)) cs)"
  have rows: "set (rev ?rows) = (\<lambda>c. (c, f c)) ` set cs" by (simp add: set_permute_by [OF assms(1)])
  have "(c, f c) \<in> set (rev ?rows)" unfolding rows using assms(2) by (rule imageI)
  from weak_map_of_SomeI [OF this] obtain la where n: "map_of (rev ?rows) c = Some la" ..
  then have "(c, la) \<in> set (rev ?rows)" by (rule map_of_SomeD)
  with rows have "la = f c" by auto
  with n show ?thesis by (simp add: row_status_def)
qed

lemma batch_get_statuses_read:
  assumes env: "status_env a H S" and st: "status_state a user H S (d, w)"
    and run: "batch_get_statuses (ap_ext a) user cs (d, w) = (r, d', w')"
  shows "status_state a user H S (d', w') \<and> (\<forall>rows. r = Inr rows \<longrightarrow> (\<forall>c \<in> set cs. S c (row_status rows c)))"
proof (cases "cs = []")
  case True
  then show ?thesis using run st by (auto simp: batch_get_statuses_def)
next
  case False
  obtain p w1 where p: "db_plan (ap_ext a) w = (p, w1)" by fastforce
  have ok: "store_ok (ap_ext a) H" and ord: "is_ordering p"
    using env p unfolding status_env_def by (simp, metis fst_conv)
  let ?q = "\<lambda>d. permute_by p (map (\<lambda>c. (c, map_option lk_created (sql_find_like user c d))) cs)"
  have run1: "sql_read (ap_ext a) ?q (d, w1) = (r, d', w')"
    using run False p by (simp add: batch_get_statuses_def)
  have "shrinks H w w'"
    using shrinks_trans [OF store_shrinks(22) [OF ok p] sql_read_shrinks [OF ok run1]] .
  then have "status_state a user H S (d', w')" using status_state_world [OF st] sql_read_db [OF run1] by blast
  moreover have "S c (row_status rows c)" if "r = Inr rows" "c \<in> set cs" for rows c
  proof -
    have "rows = ?q d" using sql_read_db [OF run1] that(1) by blast
    then have "row_status rows c = map_option lk_created (sql_find_like user c d)"
      using row_status_read [OF ord that(2), of "\<lambda>c. map_option lk_created (sql_find_like user c d)"] by simp
    then show ?thesis using statuses_okD [of user S d c] st by (simp add: status_state_def)
  qed
  ultimately show ?thesis by blast
qed

lemma batch_statuses_sound:
  assumes env: "status_env a H S" and st: "status_state a user H S s"
    and run: "batch_statuses_query a user items s = (r, s')"
  shows "status_state a user H S s'
       \<and> (\<forall>rs. r = Inr rs \<longrightarrow> length items \<le> 100
            \<and> list_all2 (\<lambda>c q. \<exists>la. S c la \<and> q = status_row c (status_of la)) items rs)"
proof (cases "length items > 100")
  case True
  then show ?thesis using run st by (cases s) (auto simp: batch_statuses_query_def)
next
  case False
  obtain d w where s: "s = (d, w)" by fastforce
  let ?cx = "ap_codec a" and ?n = "length items"
  let ?keys = "map (\<lambda>c. status_cache_key ?cx user (fst c) (snd c)) items"
  obtain vs w1 where g: "cm_mget (ap_ext a) ?keys w = (vs, w1)" by fastforce
  obtain rs ms where sc: "scan_statuses ?cx vs 0 items = (rs, ms)" by fastforce
  obtain q d2 w2 where b: "batch_get_statuses (ap_ext a) user (map ((!) items) ms) (d, w1) = (q, d2, w2)"
    by (metis prod_cases3)
  have ok: "store_ok (ap_ext a) H" and u: "uuid_codec_ok ?cx" using env by (simp_all add: status_env_def)
  have P: "entries H (ls_entry ?cx user S) w" using st s by (simp add: status_state_def)
  note mg = cm.mget_entries [OF ok P g]
  have st1: "status_state a user H S (d, w1)" using mg st s by (simp add: status_state_def)
  have len: "length vs = ?n" using cm_mget_length [OF ok g] by simp
  have rs: "rs = map (\<lambda>j. status_row (items ! j) (case cached_at vs j of Some v \<Rightarrow> parse_status_cache_value ?cx v
      | None \<Rightarrow> status_of None)) [0..<?n]" and ms: "ms = filter (\<lambda>j. cached_at vs j = None) [0..<?n]"
    using scan_statuses_closed [of ?cx vs 0 items] sc by simp_all
  have hit: "\<exists>la. S (items ! j) la \<and> parse_status_cache_value ?cx v = status_of la"
    if "cached_at vs j = Some v" "j < ?n" for j v
  proof -
    have "vs ! j = Some v" using that len by (simp add: cached_at_def split: if_splits)
    then have "ls_entry ?cx user S (?keys ! j) v" using mg that(2) len by (auto simp: list_all2_conv_all_nth)
    then show ?thesis using that(2) ls_entry_own [OF u, of user S "fst (items ! j)" "snd (items ! j)" v] by simp
  qed
  have row: "\<exists>la. S (items ! j) la \<and> rs ! j = status_row (items ! j) (status_of la)" if j: "j < ?n" "j \<notin> set ms" for j
  proof -
    obtain v where v: "cached_at vs j = Some v" using j ms by auto
    then show ?thesis using hit [OF v j(1)] j(1) rs by auto
  qed
  note br = batch_get_statuses_read [OF env st1 b]
  have fill: "list_all2 (\<lambda>c q. \<exists>la. S c la \<and> q = status_row c (status_of la)) items (fill_statuses items rows ms rs)"
    if "q = Inr rows" for rows
  proof -
    have shape: "\<forall>j < ?n. \<exists>st. rs ! j = status_row (items ! j) st" and lrs: "length rs = ?n"
      and bms: "\<forall>i \<in> set ms. i < ?n"
      using rs ms by auto
    have "\<exists>la. S (items ! j) la \<and> fill_statuses items rows ms rs ! j = status_row (items ! j) (status_of la)"
      if "j < ?n" for j
    proof (cases "j \<in> set ms")
      case True
      then have "S (items ! j) (row_status rows (items ! j))" using br \<open>q = Inr rows\<close> by simp
      moreover have "fill_statuses items rows ms rs ! j = status_row (items ! j) (status_of (row_status rows (items ! j)))"
        using fill_statuses_nth [OF shape lrs that bms, of rows] True by simp
      ultimately show ?thesis by blast
    next
      case False
      then have "fill_statuses items rows ms rs ! j = rs ! j"
        using fill_statuses_nth [OF shape lrs that bms, of rows] by simp
      then show ?thesis using row [OF that False] by simp
    qed
    then show ?thesis using rs by (simp add: list_all2_conv_all_nth)
  qed
  have put: "entries H (ls_entry ?cx user S) (cm_set_many (ap_ext a) (status_entries a user items rows ms) w2)"
    if "q = Inr rows" for rows
  proof (rule cm.put_many_entries [OF ok])
    show "entries H (ls_entry ?cx user S) w2" using br by (simp add: status_state_def)
    have "ls_entry ?cx user S (status_cache_key ?cx user (fst (items ! i)) (snd (items ! i)))
        (status_value ?cx (row_status rows (items ! i)))" if "i \<in> set ms" for i
      by (rule status_entry [OF env]) (use br \<open>q = Inr rows\<close> that in simp)
    then show "\<forall>(k, v, t) \<in> set (status_entries a user items rows ms). ls_entry ?cx user S k v"
      by (auto simp: status_entries_def)
  qed
  show ?thesis
  proof (cases "ms = []")
    case True
    have "list_all2 (\<lambda>c q. \<exists>la. S c la \<and> q = status_row c (status_of la)) items rs"
      using row True rs by (simp add: list_all2_conv_all_nth)
    then show ?thesis using run s g sc True st1 False by (auto simp: batch_statuses_query_def)
  next
    case ne: False
    show ?thesis
    proof (cases q)
      case (Inl e)
      then show ?thesis using run s g sc ne b br False by (auto simp: batch_statuses_query_def)
    next
      case (Inr rows)
      then have "r = Inr (fill_statuses items rows ms rs)
          \<and> s' = (d2, cm_set_many (ap_ext a) (status_entries a user items rows ms) w2)"
        using run s g sc ne b False by (simp add: batch_statuses_query_def)
      then show ?thesis using fill [OF Inr] put [OF Inr] br False by (simp add: status_state_def)
    qed
  qed
qed

text \<open>C19. Reading statuses is sound, for any meaning of "likes since" that the database replica and the
  cache entries agree on: a single status and every row of a batch say what they mean, a batch has
  exactly one row per requested item in the order asked, and both leave the cache in agreement.\<close>

theorem status_reads_sound:
  assumes "status_env a H S" "status_state a user H S s"
  shows "(status_query a user ct cid s = (Inr q, s1) \<longrightarrow>
            (\<exists>la. S (ct, cid) la \<and> q = status_of la) \<and> status_state a user H S s1)
       \<and> (batch_statuses_query a user items s = (Inr rs, s2) \<longrightarrow>
            list_all2 (\<lambda>c q. \<exists>la. S c la \<and> q = status_row c (status_of la)) items rs
            \<and> status_state a user H S s2)
       \<and> (length items > 100 \<longrightarrow> batch_statuses_query a user items s = (Inl (BatchTooLarge (length items) 100), s))"
  using status_query_sound [OF assms, of ct cid "Inr q" s1] batch_statuses_sound [OF assms, of items "Inr rs" s2]
  by (auto simp: batch_statuses_query_def split: prod.splits)

theorem status_reads_sound_witness:
  "fst (status_query sample_app 1 ''post'' 7 (db_small, sample_start)) = Inr (status_of (Some 10))"
proof -
  let ?S = "\<lambda>c la. la = map_option lk_created (sql_find_like 1 c db_small)"
  have dt: "dt_ok t" if t: "?S c (Some t)" for c t
  proof -
    obtain r where "sql_find_like 1 c db_small = Some r" "t = lk_created r"
      using t [symmetric] unfolding map_option_eq_Some by blast
    then have "r \<in> set (likes db_small)" by (auto simp: sql_find_like_def find_Some_iff)
    then show ?thesis using \<open>t = lk_created r\<close> by (auto simp: db_small_def dt_ok_def)
  qed
  have x: "ap_ext sample_app = sample_yes" and cx: "ap_codec sample_app = sample_codec"
    by (simp_all add: sample_app_def app_new_fields)
  have ord: "is_ordering (fst (db_plan sample_yes w))" for w
    using sample_is_ordering by (simp add: sample_ext_def)
  have env: "status_env sample_app sample_holds ?S"
    unfolding status_env_def x cx using sample_store_ok sample_uuid_codec sample_time_codec ord dt by blast
  have st: "status_state sample_app 1 sample_holds ?S (db_small, sample_start)"
    by (simp add: status_state_def statuses_ok_def sample_entries)
  obtain q s1 where r: "status_query sample_app 1 ''post'' 7 (db_small, sample_start) = (q, s1)" by (metis surj_pair)
  have "cm_get sample_yes k sample_start = (None, sample_start)" for k
    by (simp add: cm_get_def sample_ext_def sample_start_def)
  moreover have "get_like_status sample_yes u t c (d, w) =
      (Inr (map_option lk_created (sql_find_like u (t, c) d)), d, w)" for u t c d w
    by (simp add: get_like_status_def sql_read_def sample_ext_def)
  ultimately have "is_ok q" using r by (auto simp: status_query_def x)
  then obtain st where "q = Inr st" by (auto simp: is_ok_iff)
  moreover have "sql_find_like 1 (''post'', 7) db_small = Some (hd (likes db_small))"
    by (simp add: sql_find_like_def db_small_def like_key_def like_content_def)
  ultimately show ?thesis using status_reads_sound [OF env st, of "''post''" 7 st s1] r
    by (auto simp: db_small_def)
qed

end
