(* ===== verification/Pages.thy ===== *)
theory Pages
  imports Like_Queries
begin

text \<open>
  The pages of a user's likes, as a client sees them that follows \<open>next_cursor\<close>: each response is the
  slice of the feed it should be, from the cached first page or from the database alike, and following
  the cursors ends with the whole feed.
\<close>

section \<open>One page\<close>

definition feed_item :: "like \<Rightarrow> user_like_item" where
  "feed_item r = item_of_row (row_of r)"

definition row_cursor :: "codec \<Rightarrow> like \<Rightarrow> string" where
  "row_cursor cx r = cursor_encode cx (cursor_new (lk_created r) (lk_id r))"

text \<open>The page of at most \<open>n\<close> items at the head of what is left of a feed.\<close>

definition page_spec :: "codec \<Rightarrow> nat \<Rightarrow> like list \<Rightarrow> paginated_response" where
  "page_spec cx n ys =
     \<lparr>pg_items = map feed_item (take n ys),
      pg_next_cursor = (if n < length ys then Some (row_cursor cx (ys ! (n - 1))) else None),
      pg_has_more = (n < length ys)\<rparr>"

lemma cursor_after_rows:
  "0 < n \<Longrightarrow> n \<le> length ys \<Longrightarrow> cursor_after cx (map row_of ys) n = Some (row_cursor cx (ys ! (n - 1)))"
  by (simp add: cursor_after_def row_cursor_def row_of_def)

lemma later_page_spec:
  assumes "1 \<le> limit"
  shows "later_page cx (map row_of (take (nat (limit + 1)) ys)) limit = page_spec cx (nat limit) ys"
proof -
  let ?n = "nat limit" and ?r = "map row_of (take (nat (limit + 1)) ys)"
  have n1: "nat (limit + 1) = Suc ?n" using assms by simp
  have t: "take (min ?n (length ?r)) ?r = map row_of (take ?n ys)"
    unfolding n1 by (simp add: take_map min_def)
  have more: "int (length ?r) > limit \<longleftrightarrow> ?n < length ys" using assms by (simp add: n1 min_def) linarith
  have nxt: "cursor_after cx ?r (length (take ?n ys)) = Some (row_cursor cx (ys ! (?n - 1)))" if "?n < length ys"
    using that assms cursor_after_rows [of ?n "take (Suc ?n) ys" cx] unfolding n1 by simp
  show ?thesis
    unfolding later_page_def Let_def t more using nxt
    by (simp add: page_spec_def feed_item_def comp_def)
qed

text \<open>The slice of a cached page is the page.\<close>

lemma build_paginated_spec:
  assumes "1 \<le> limit" "limit \<le> 100"
  shows "build_paginated_response cx (first_page (map row_of (take 101 ys))) limit = page_spec cx (nat limit) ys"
proof -
  let ?n = "nat limit" and ?p = "first_page (map row_of (take 101 ys))"
  have n: "1 \<le> ?n" "?n \<le> 100" using assms by auto
  have rows: "cp_rows ?p = map row_of (take 100 ys)"
    by (simp add: first_page_def max_page_def take_map min_def)
  have cm: "cp_has_more ?p \<longleftrightarrow> 100 < length ys" by (simp add: first_page_def max_page_def)
  have t: "take (min ?n (length (map row_of (take 100 ys)))) (map row_of (take 100 ys)) = map row_of (take ?n ys)"
    using n by (simp add: take_map min_def)
  have more: "(if length (map row_of (take 100 ys)) > ?n then True
      else if length (map row_of (take 100 ys)) = ?n then cp_has_more ?p else False) \<longleftrightarrow> ?n < length ys"
    using n cm by (auto simp: min_def)
  have nxt: "cursor_after cx (map row_of (take 100 ys)) (length (map item_of_row (map row_of (take ?n ys))))
      = Some (row_cursor cx (ys ! (?n - 1)))" if "?n < length ys"
    using that n cursor_after_rows [of ?n "take 100 ys" cx] by simp
  show ?thesis
    unfolding build_paginated_response_def Let_def rows t more using nxt
    by (simp add: page_spec_def feed_item_def comp_def)
qed

lemma page_size_pos: "1 \<le> nat (clamp 1 100 limit)"
  using clamp_ge [of 1 100 limit] by linarith

section \<open>One query\<close>

definition filter_key :: "string option \<Rightarrow> string" where
  "filter_key filt = (case filt of None \<Rightarrow> ''_'' | Some ct \<Rightarrow> ct)"

text \<open>The cached first page of this user and filter, if any, is that of the database.\<close>

definition ul_entry :: "codec \<Rightarrow> uuid \<Rightarrow> string option \<Rightarrow> db \<Rightarrow> string \<Rightarrow> string \<Rightarrow> bool" where
  "ul_entry cx user filt d k v \<longleftrightarrow>
     (k = likes_page_key cx user (filter_key filt) \<longrightarrow>
      (\<forall>p. page_from_json cx v = Some p \<longrightarrow> p = first_page (map row_of (take 101 (user_feed user filt d)))))"

definition page_codec_ok :: "codec \<Rightarrow> bool" where
  "page_codec_ok cx \<longleftrightarrow> (\<forall>p v. page_to_json cx p = Some v \<longrightarrow> page_from_json cx v = Some p)"

definition db_answers :: "'w ext \<Rightarrow> bool" where
  "db_answers x \<longleftrightarrow> (\<forall>w. fst (db_fault x w) = None)"

definition pages_env :: "'w app \<Rightarrow> ('w \<Rightarrow> string \<Rightarrow> string \<Rightarrow> bool) \<Rightarrow> bool" where
  "pages_env a H \<longleftrightarrow> store_ok (ap_ext a) H \<and> page_codec_ok (ap_codec a) \<and> cursor_codec_ok (ap_codec a)
     \<and> db_answers (ap_ext a)"

lemma answering_read: "db_answers x \<Longrightarrow> \<exists>w'. sql_read x q (d, w) = (Inr (q d), d, w')"
  unfolding db_answers_def sql_read_def by (auto split: prod.splits option.splits) (metis fst_conv option.discI)

lemma first_query_spec:
  assumes env: "pages_env a H" and P: "entries H (ul_entry (ap_codec a) user filt d) w"
  shows "\<exists>w'. user_likes_query a user filt None limit (d, w) =
      (Inr (page_spec (ap_codec a) (nat (clamp 1 100 limit)) (user_feed user filt d)), d, w')
    \<and> entries H (ul_entry (ap_codec a) user filt d) w'
    \<and> adds_only H {(k, v). k = likes_page_key (ap_codec a) user (filter_key filt)
        \<and> page_to_json (ap_codec a) (first_page (map row_of (take 101 (user_feed user filt d)))) = Some v} w w'"
proof -
  let ?cx = "ap_codec a" and ?k = "likes_page_key (ap_codec a) user (filter_key filt)"
    and ?feed = "user_feed user filt d"
  let ?page = "first_page (map row_of (take 101 ?feed))"
  have ok: "store_ok (ap_ext a) H" and pc: "page_codec_ok ?cx" and ans: "db_answers (ap_ext a)"
    using env by (simp_all add: pages_env_def)
  have spec: "build_paginated_response ?cx ?page (clamp 1 100 limit)
      = page_spec ?cx (nat (clamp 1 100 limit)) ?feed"
    by (rule build_paginated_spec) simp_all
  obtain c w1 where g: "cm_get (ap_ext a) ?k w = (c, w1)" by fastforce
  note h = cm.get_entry [OF ok P g]
  obtain cp where cp: "cached_page a ?k w = (cp, w1)" using g by (cases c) (auto simp: cached_page_def)
  have cpp: "cp = None \<or> cp = Some ?page"
    using h g cp by (cases c; cases cp) (auto simp: cached_page_def ul_entry_def)
  let ?q = "\<lambda>d. map row_of (sql_user_likes user filt None 101 d)"
  obtain w2 where l: "sql_read (ap_ext a) ?q (d, w1) = (Inr (?q d), d, w2)" using answering_read [OF ans] by blast
  have gl: "get_user_likes (ap_ext a) user filt None None max_page (d, w1) = (Inr (map row_of (take 101 ?feed)), d, w2)"
    using l by (simp add: get_user_likes_def max_page_def sql_user_likes_first)
  have P2: "entries H (ul_entry ?cx user filt d) w2"
    using sql_read_shrinks [OF ok l] h by (blast intro: entries_shrinks)
  have put: "entries H (ul_entry ?cx user filt d) (cm_set (ap_ext a) ?k json ttl w2)"
    if "page_to_json ?cx ?page = Some json" for json ttl
    by (rule cm.put_entry [OF ok P2]) (use pc that in \<open>auto simp: ul_entry_def page_codec_ok_def\<close>)
  define E where "E = {(k, v). k = ?k \<and> page_to_json ?cx ?page = Some v}"
  have a1: "adds_only H E w w1" using cm_get_sound [OF ok g] by (blast intro: shrinks_adds)
  have a2: "adds_only H E w w2" using adds_before [OF a1 sql_read_shrinks [OF ok l]] .
  have a3: "adds_only H E w (cm_set (ap_ext a) ?k json ttl w2)" if "page_to_json ?cx ?page = Some json" for json ttl
    by (rule adds_trans [OF a2 adds_mono [OF cm_set_adds [OF ok]]]) (simp add: E_def that)
  show ?thesis
    unfolding E_def [symmetric]
    using cpp cp gl h P2 put spec a1 a2 a3
    by (auto simp: user_likes_query_def Let_def filter_key_def split: option.splits)
qed

lemma later_query_spec:
  assumes env: "pages_env a H" and P: "entries H Q w" and inv: "db_inv d"
    and feed: "user_feed user filt d = xs @ r # ys" and r: "cursor_ok (cursor_new (lk_created r) (lk_id r))"
  shows "\<exists>w'. user_likes_query a user filt (Some (row_cursor (ap_codec a) r)) limit (d, w) =
      (Inr (page_spec (ap_codec a) (nat (clamp 1 100 limit)) ys), d, w') \<and> entries H Q w'"
proof -
  let ?cx = "ap_codec a" and ?l = "clamp 1 100 limit"
  have ok: "store_ok (ap_ext a) H" and cc: "cursor_codec_ok ?cx" and ans: "db_answers (ap_ext a)"
    using env by (simp_all add: pages_env_def)
  have l1: "1 \<le> ?l" by simp
  then have l0: "\<not> ?l + 1 < 0" by linarith
  have dec: "cursor_decode ?cx (row_cursor ?cx r) = Inr (cursor_new (lk_created r) (lk_id r))"
    unfolding row_cursor_def by (rule cursor_decode_encode [OF cc r])
  let ?q = "\<lambda>d. map row_of (sql_user_likes user filt (Some (lk_created r, lk_id r)) (nat (?l + 1)) d)"
  obtain w1 where l: "sql_read (ap_ext a) ?q (d, w) = (Inr (?q d), d, w1)" using answering_read [OF ans] by blast
  have q: "?q d = map row_of (take (nat (?l + 1)) ys)"
    using sql_user_likes_after [OF inv feed] by (simp add: page_key_def)
  have gl: "get_user_likes (ap_ext a) user filt (Some (lk_created r)) (Some (lk_id r)) ?l (d, w) =
      (Inr (map row_of (take (nat (?l + 1)) ys)), d, w1)"
    using l l0 unfolding q by (simp add: get_user_likes_def Let_def)
  have "entries H Q w1" using sql_read_shrinks [OF ok l] P by (rule entries_shrinks)
  then show ?thesis
    using gl dec later_page_spec [OF l1, of ?cx ys]
    by (simp add: user_likes_query_def Let_def cursor_new_def)
qed

section \<open>Following the cursors\<close>

fun walk_pages ::
  "nat \<Rightarrow> 'w app \<Rightarrow> uuid \<Rightarrow> string option \<Rightarrow> int \<Rightarrow> string option \<Rightarrow> 'w query_state
     \<Rightarrow> user_like_item list option \<times> 'w query_state" where
  "walk_pages 0 a user filt limit cursor s = (None, s)"
| "walk_pages (Suc fuel) a user filt limit cursor s =
     (case user_likes_query a user filt cursor limit s of
        (Inl _, s) \<Rightarrow> (None, s)
      | (Inr p, s) \<Rightarrow>
          (case pg_next_cursor p of
             None \<Rightarrow> (Some (pg_items p), s)
           | Some c \<Rightarrow>
               (case walk_pages fuel a user filt limit (Some c) s of
                  (None, s) \<Rightarrow> (None, s)
                | (Some items, s) \<Rightarrow> (Some (pg_items p @ items), s))))"

definition rows_ok :: "db \<Rightarrow> bool" where
  "rows_ok d \<longleftrightarrow> (\<forall>r \<in> set (likes d). cursor_ok (cursor_new (lk_created r) (lk_id r)))"

lemma feed_rows: "set (user_feed user filt d) \<subseteq> set (likes d)"
  by (auto simp: user_feed_def user_rows_def)

lemma walk_rest:
  assumes env: "pages_env a H" and inv: "db_inv d" and rows: "rows_ok d"
    and n: "n = nat (clamp 1 100 limit)"
  shows "0 < fuel \<Longrightarrow> length ys \<le> fuel * n \<Longrightarrow> entries H Q w \<Longrightarrow> user_feed user filt d = xs @ r # ys \<Longrightarrow>
    \<exists>w'. walk_pages fuel a user filt limit (Some (row_cursor (ap_codec a) r)) (d, w) = (Some (map feed_item ys), d, w')"
proof (induction fuel arbitrary: xs r ys w)
  case (Suc fuel)
  have n1: "1 \<le> n" using n page_size_pos by simp
  have r: "cursor_ok (cursor_new (lk_created r) (lk_id r))"
    using feed_rows [of user filt d] Suc.prems(4) rows by (auto simp: rows_ok_def)
  obtain w1 where q: "user_likes_query a user filt (Some (row_cursor (ap_codec a) r)) limit (d, w) =
      (Inr (page_spec (ap_codec a) n ys), d, w1)" "entries H Q w1"
    using later_query_spec [OF env Suc.prems(3) inv Suc.prems(4) r, of limit] n by blast
  show ?case
  proof (cases "n < length ys")
    case False
    then show ?thesis using q by (simp add: page_spec_def)
  next
    case True
    let ?r = "ys ! (n - 1)"
    have split: "ys = take (n - 1) ys @ ?r # drop n ys"
      using True n1 id_take_nth_drop [of "n - 1" ys] by simp
    then have feed: "user_feed user filt d = (xs @ r # take (n - 1) ys) @ ?r # drop n ys"
      using Suc.prems(4) by (metis append.assoc append_Cons)
    have fuel: "0 < fuel" using Suc.prems(2) True by (cases fuel) auto
    have len: "length (drop n ys) \<le> fuel * n" using Suc.prems(2) by simp
    obtain w2 where "walk_pages fuel a user filt limit (Some (row_cursor (ap_codec a) ?r)) (d, w1)
        = (Some (map feed_item (drop n ys)), d, w2)"
      using Suc.IH [OF fuel len q(2) feed] by blast
    then show ?thesis
      using q(1) True by (simp add: page_spec_def) (simp flip: map_append)
  qed
qed simp

section \<open>Properties\<close>

text \<open>C17. The first page does not depend on the cache: whether it is sliced out of the cached hundred rows or
  read from the database, with any requested limit, it is the same response: the first items of the
  user's feed, newest first, and a cursor exactly when there are more. The query leaves the cache in the
  state it assumes, so the next one is answered alike: the only entry it may add is the page of the
  first hundred rows of the feed, under the key of this user and filter. No row changes.\<close>

theorem first_page_cache_transparent:
  assumes "pages_env a H" "entries H (ul_entry (ap_codec a) user filt d) w"
  shows "\<exists>w'. user_likes_query a user filt None limit (d, w)
        = (Inr (page_spec (ap_codec a) (nat (clamp 1 100 limit)) (user_feed user filt d)), d, w')
      \<and> entries H (ul_entry (ap_codec a) user filt d) w'
      \<and> adds_only H {(k, v). k = likes_page_key (ap_codec a) user (filter_key filt)
          \<and> page_to_json (ap_codec a) (first_page (map row_of (take 101 (user_feed user filt d)))) = Some v} w w'"
  using first_query_spec [OF assms, of limit] .

text \<open>A printed form of pages, those whose items are all posts, to run the cached half on.\<close>

fun rows_text :: "like_row list \<Rightarrow> string" where
  "rows_text [] = []"
| "rows_text (r # rs) = show_int (row_id r) @ CHR ''/'' # show_nat (unat (row_content r)) @ CHR ''/''
     # show_int (row_created r) @ CHR ''/'' # rows_text rs"

fun text_rows :: "nat \<Rightarrow> string \<Rightarrow> like_row list option" where
  "text_rows 0 s = Some []"
| "text_rows (Suc n) s =
     (case split_at (CHR ''/'') s of None \<Rightarrow> None | Some (a, s) \<Rightarrow>
       (case split_at (CHR ''/'') s of None \<Rightarrow> None | Some (b, s) \<Rightarrow>
         (case split_at (CHR ''/'') s of None \<Rightarrow> None | Some (c, s) \<Rightarrow>
           (case (parse_int a, parse_nat b, parse_int c, text_rows n s) of
              (Some i, Some u, Some t, Some rs) \<Rightarrow>
                Some (\<lparr>row_id = i, row_type = ''post'', row_content = of_nat u, row_created = t\<rparr> # rs)
            | _ \<Rightarrow> None))))"

definition page_codec :: codec where
  "page_codec = sample_codec\<lparr>
     page_to_json := \<lambda>p. (if list_all (\<lambda>r. row_type r = ''post'') (cp_rows p)
       then Some ((if cp_has_more p then CHR ''+'' else CHR ''-'') # show_nat (length (cp_rows p)) @ CHR ''/''
         # rows_text (cp_rows p))
       else None),
     page_from_json := \<lambda>s. (case s of [] \<Rightarrow> None | c # s \<Rightarrow>
       (case split_at (CHR ''/'') s of None \<Rightarrow> None | Some (n, s) \<Rightarrow>
         (case parse_nat n of None \<Rightarrow> None | Some n \<Rightarrow>
           map_option (\<lambda>rs. \<lparr>cp_rows = rs, cp_has_more = (c = CHR ''+'')\<rparr>) (text_rows n s))))\<rparr>"

definition page_app :: "sample app" where
  "page_app = sample_app\<lparr>ap_codec := page_codec\<rparr>"

lemma slash_free: "CHR ''/'' \<notin> set (show_int n)" "CHR ''/'' \<notin> set (show_nat k)"
  using show_int_chars [of "CHR ''/''" n] show_nat_chars [of "CHR ''/''" k] by auto

lemma text_rows_text: "list_all (\<lambda>r. row_type r = ''post'') rs \<Longrightarrow> text_rows (length rs) (rows_text rs) = Some rs"
  by (induction rs) (simp_all add: slash_free)

lemma page_codec_roundtrip: "page_codec_ok page_codec"
  by (simp add: page_codec_ok_def page_codec_def slash_free text_rows_text)

lemma page_app_fields: "ap_ext page_app = sample_yes" "ap_codec page_app = page_codec"
  by (simp_all add: page_app_def sample_app_def app_new_fields)

lemma page_app_env: "pages_env page_app sample_holds"
proof -
  have "cursor_codec_ok page_codec"
    using sample_cursor_codec by (simp add: cursor_codec_ok_def page_codec_def)
  moreover have "db_answers sample_yes" by (simp add: db_answers_def sample_ext_def)
  ultimately show ?thesis
    by (simp add: pages_env_def page_app_fields page_codec_roundtrip sample_store_ok)
qed

lemma sample_pages_env: "pages_env sample_app sample_holds"
proof -
  have "ap_ext sample_app = sample_yes" "ap_codec sample_app = sample_codec"
    by (simp_all add: sample_app_def app_new_fields)
  then show ?thesis
    using sample_store_ok by (simp add: pages_env_def page_codec_ok_def db_answers_def)
      (simp add: sample_ext_def sample_codec_def)
qed

lemma db_small_feed:
  "map feed_item (user_feed 1 None db_small) =
     [\<lparr>uli_type = ''post'', uli_content = 8, uli_liked_at = 30\<rparr>, \<lparr>uli_type = ''post'', uli_content = 7, uli_liked_at = 10\<rparr>]"
  by (simp add: user_feed_def user_rows_def db_small_def page_key_def feed_item_def item_of_row_def row_of_def)

text \<open>The page is read from the database first, and from the cache the second time.\<close>

theorem first_page_cache_transparent_witness:
  "\<exists>w1 w2. map uli_content (pg_items (projr (fst (user_likes_query page_app 1 None None 20 (db_small, sample_start))))) = [8, 7]
     \<and> snd (user_likes_query page_app 1 None None 20 (db_small, sample_start)) = (db_small, w1)
     \<and> cached_page page_app (likes_page_key page_codec 1 ''_'') w1
         = (Some (first_page (map row_of (take 101 (user_feed 1 None db_small)))), w2)
     \<and> map uli_content (pg_items (projr (fst (user_likes_query page_app 1 None None 20 (db_small, w1))))) = [8, 7]"
proof -
  let ?page = "first_page (map row_of (take 101 (user_feed 1 None db_small)))"
  have len: "length (user_feed 1 None db_small) = 2"
    using db_small_feed by (metis length_Cons length_map list.size(3) numeral_2_eq_2)
  then have items: "map feed_item (take 20 (user_feed 1 None db_small)) = map feed_item (user_feed 1 None db_small)" by simp
  obtain w1 where q: "user_likes_query page_app 1 None None 20 (db_small, sample_start)
      = (Inr (page_spec page_codec (nat (clamp 1 100 20)) (user_feed 1 None db_small)), db_small, w1)"
    "entries sample_holds (ul_entry page_codec 1 None db_small) w1"
    using first_page_cache_transparent [OF page_app_env sample_entries, where user = 1 and filt = None and d = db_small and limit = 20]
    by (auto simp: page_app_fields)
  obtain w3 where q3: "user_likes_query page_app 1 None None 20 (db_small, w1)
      = (Inr (page_spec page_codec (nat (clamp 1 100 20)) (user_feed 1 None db_small)), db_small, w3)"
    using first_page_cache_transparent [OF page_app_env, where user = 1 and filt = None and d = db_small and w = w1 and limit = 20] q(2)
    by (auto simp: page_app_fields)
  have json: "list_all (\<lambda>r. row_type r = ''post'') (cp_rows ?page)"
    by (auto simp: list_all_iff first_page_def user_feed_def user_rows_def db_small_def row_of_def dest!: in_set_takeD)
  obtain v where v: "page_to_json page_codec ?page = Some v" using json by (simp add: page_codec_def)
  have "sm_kv w1 = [(likes_page_key page_codec 1 ''_'', v)] \<and> sm_up w1"
    using q(1) v len
    by (auto simp: user_likes_query_def page_app_fields cached_page_def cm_get_def get_user_likes_def sql_read_def max_page_def
        cm_set_def sample_ext_def sample_start_def sql_user_likes_first Let_def split: option.splits)
  moreover have "page_from_json page_codec v = Some ?page"
    using page_codec_roundtrip v by (simp add: page_codec_ok_def)
  ultimately have "cached_page page_app (likes_page_key page_codec 1 ''_'') w1 = (Some ?page, w1)"
    by (simp add: cached_page_def page_app_fields cm_get_def) (simp add: sample_ext_def page_app_fields)
  moreover have "map uli_content (pg_items (page_spec page_codec (nat (clamp 1 100 20)) (user_feed 1 None db_small))) = [8, 7]"
    by (simp add: page_spec_def items db_small_feed)
  ultimately show ?thesis using q(1) q3 by auto
qed

text \<open>C18. Pagination is exhaustive and ends: starting without a cursor and following \<open>next_cursor\<close>, a client
  obtains every like of the user (of the type asked for) exactly once, newest first, after as many
  requests as the limit allows for, and then there is no further cursor.\<close>

theorem pages_traverse_feed:
  assumes "pages_env a H" "entries H (ul_entry (ap_codec a) user filt d) w" "db_inv d" "rows_ok d"
    and "0 < fuel" "length (user_feed user filt d) \<le> fuel * nat (clamp 1 100 limit)"
  shows "fst (walk_pages fuel a user filt limit None (d, w)) = Some (map feed_item (user_feed user filt d))"
proof -
  let ?n = "nat (clamp 1 100 limit)" and ?feed = "user_feed user filt d"
  have n1: "1 \<le> ?n" by (rule page_size_pos)
  obtain f where f: "fuel = Suc f" using assms(5) by (cases fuel) auto
  obtain w1 where q: "user_likes_query a user filt None limit (d, w) = (Inr (page_spec (ap_codec a) ?n ?feed), d, w1)"
    "entries H (ul_entry (ap_codec a) user filt d) w1"
    using first_query_spec [OF assms(1,2), of limit] by blast
  show ?thesis
  proof (cases "?n < length ?feed")
    case False
    then show ?thesis using q f by (simp add: page_spec_def)
  next
    case True
    let ?r = "?feed ! (?n - 1)"
    have split: "?feed = take (?n - 1) ?feed @ ?r # drop ?n ?feed"
      using True n1 id_take_nth_drop [of "?n - 1" ?feed] by simp
    have f0: "0 < f" using assms(6) True f by (cases f) auto
    have len: "length (drop ?n ?feed) \<le> f * ?n" using assms(6) f by simp
    obtain w2 where "walk_pages f a user filt limit (Some (row_cursor (ap_codec a) ?r)) (d, w1)
        = (Some (map feed_item (drop ?n ?feed)), d, w2)"
      using walk_rest [OF assms(1,3,4) refl f0 len q(2) split] by blast
    then show ?thesis
      using q(1) True f by (simp add: page_spec_def) (simp flip: map_append)
  qed
qed

theorem pages_traverse_feed_witness:
  "map_option (map uli_content) (fst (walk_pages 2 sample_app 1 None 1 None (db_small, sample_start))) = Some [8, 7]"
proof -
  have "rows_ok db_small" by (simp add: rows_ok_def db_small_def cursor_ok_def cursor_new_def dt_ok_def in_i64_def
        i64_min_def i64_max_def)
  moreover have "length (user_feed 1 None db_small) \<le> 2 * nat (clamp 1 100 1)"
    using arg_cong [OF db_small_feed, of length] by simp
  ultimately have "fst (walk_pages 2 sample_app 1 None 1 None (db_small, sample_start))
      = Some (map feed_item (user_feed 1 None db_small))"
    by (intro pages_traverse_feed [OF sample_pages_env sample_entries db_small_inv]) simp_all
  then show ?thesis by (simp add: db_small_feed)
qed

end
