(* ===== verification/Leaderboard_Refresh.thy ===== *)
theory Leaderboard_Refresh
  imports Pages
begin

text \<open>
  \<open>social-api/src/tasks/leaderboard_refresh.rs\<close>: the background task that recomputes the leaderboards
  into Redis, and the query that reads them. The task runs on the reader database and the world; the
  moments at which it wakes are given as the number of refreshes before the shutdown.
\<close>

section \<open>Refreshing\<close>

definition refresh_windows :: "time_window list" where
  "refresh_windows = [Day, Week, Month, All]"

definition leaderboard_limit :: int where "leaderboard_limit = 50"

definition board_member :: "codec \<Rightarrow> string \<times> uuid \<times> int \<Rightarrow> string \<times> rat" where
  "board_member cx = (\<lambda>(ct, cid, n). (ct @ '':'' @ uuid_show cx cid, f64_of_i64 n))"

text \<open>The loop over the registered content types; a failing query skips its type.\<close>

fun refresh_filtered ::
  "'w app \<Rightarrow> time_window \<Rightarrow> datetime option \<Rightarrow> string list \<Rightarrow> 'w query_state \<Rightarrow> 'w query_state" where
  "refresh_filtered a win since [] s = s"
| "refresh_filtered a win since (ct # cts) s =
     (case get_leaderboard (ap_ext a) (Some ct) since leaderboard_limit s of
        (Inr rows, d, w) \<Rightarrow>
          (let w = (case items_to_json (ap_codec a) (map item_of_board rows) of
                      Some json \<Rightarrow> cm_set (ap_ext a) (filtered_key win ct leaderboard_limit) json
                                     (cache_ttl_leaderboard_filtered_secs (ap_config a)) w
                    | None \<Rightarrow> w) in
           refresh_filtered a win since cts (d, w))
      | (Inl e, s) \<Rightarrow> refresh_filtered a win since cts s)"

definition refresh_window :: "'w app \<Rightarrow> time_window \<Rightarrow> 'w query_state \<Rightarrow> (string + unit) \<times> 'w query_state" where
  "refresh_window a win = (\<lambda>(d, w).
     (let x = ap_ext a; cx = ap_codec a in
      case window_start x win w of (since, w) \<Rightarrow>
        (case get_leaderboard x None since leaderboard_limit (d, w) of
           (Inl e, s) \<Rightarrow> (Inl (''DB query failed for window '' @ tw_as_str win @ '': '' @ e), s)
         | (Inr rows, d, w) \<Rightarrow>
             (let w = cm_replace_sorted_set x (window_key win) (map (board_member cx) rows) w in
              case hash_order x w of (p, w) \<Rightarrow>
                (Inr (), refresh_filtered a win since
                           (permute_by p (map fst (content_api_urls (ap_config a)))) (d, w))))))"

fun refresh_each :: "'w app \<Rightarrow> time_window list \<Rightarrow> 'w query_state \<Rightarrow> 'w query_state" where
  "refresh_each a [] s = s"
| "refresh_each a (win # wins) s = refresh_each a wins (snd (refresh_window a win s))"

definition refresh_all_windows :: "'w app \<Rightarrow> 'w query_state \<Rightarrow> 'w query_state" where
  "refresh_all_windows a s =
     (case refresh_each a refresh_windows s of (d, w) \<Rightarrow>
       (d, cm_invalidate_l1_prefix (ap_ext a) ''lbf:'' w))"

text \<open>The task: a refresh at start-up, then one each time the sleep ends before the shutdown. The sleep is
  the interval with a jitter taken from the clock's nanoseconds (here in exact arithmetic; the code's
  \<open>f64\<close> product may fall on the other side of a whole second).\<close>

definition jitter_percent :: "nat \<Rightarrow> int" where
  "jitter_percent ns = int (ns mod 201) - 100"

definition refresh_sleep_secs :: "nat \<Rightarrow> nat \<Rightarrow> nat" where
  "refresh_sleep_secs interval ns =
     nat \<lfloor>max 1 (rat_of_nat interval * (1 + rat_of_int (jitter_percent ns) / 1000))\<rfloor>"

fun refresh_task :: "'w app \<Rightarrow> nat \<Rightarrow> 'w query_state \<Rightarrow> 'w query_state" where
  "refresh_task a 0 s = refresh_all_windows a s"
| "refresh_task a (Suc wakeups) s = refresh_all_windows a (refresh_task a wakeups s)"

section \<open>Members and scores\<close>

lemma f64_exact: "0 \<le> n \<Longrightarrow> n < 2 ^ 53 \<Longrightarrow> f64_of_i64 n = rat_of_int n"
  by (simp add: f64_of_i64_def f64_of_nat_def nat_less_iff)

lemma i64_f64_exact: "0 \<le> n \<Longrightarrow> n < 2 ^ 53 \<Longrightarrow> i64_of_f64 (f64_of_i64 n) = n"
  by (simp add: f64_exact i64_of_f64_def i64_min_def i64_max_def)

definition board_ok :: "(string \<times> uuid \<times> int) list \<Rightarrow> bool" where
  "board_ok rows \<longleftrightarrow> (\<forall>(ct, cid, n) \<in> set rows. CHR '':'' \<notin> set ct \<and> 0 \<le> n \<and> n < 2 ^ 53)"

lemma parse_board_member:
  assumes "uuid_codec_ok cx" "CHR '':'' \<notin> set ct" "0 \<le> n" "n < 2 ^ 53"
  shows "parse_leaderboard_member cx (fst (board_member cx (ct, cid, n))) (snd (board_member cx (ct, cid, n)))
       = Some (item_of_board (ct, cid, n))"
  using assms
  by (simp add: parse_leaderboard_member_def board_member_def str_find_append item_of_board_def i64_f64_exact)

lemma parse_board_members:
  assumes u: "uuid_codec_ok cx"
  shows "board_ok rows \<Longrightarrow> parse_members cx (map (board_member cx) rows) = map item_of_board rows"
proof (induction rows)
  case (Cons r rows)
  obtain ct cid n where r: "r = (ct, cid, n)" by (cases r) auto
  have "parse_leaderboard_member cx (fst (board_member cx r)) (snd (board_member cx r)) = Some (item_of_board r)"
    using parse_board_member [OF u, of ct n cid] Cons.prems r by (simp add: board_ok_def)
  then show ?case
    using Cons by (simp add: parse_members_def List.map_filter_simps case_prod_unfold board_ok_def)
qed (simp add: parse_members_def List.map_filter_simps)

lemma board_member_inject:
  assumes u: "uuid_codec_ok cx" and "fst (board_member cx (ct, cid, n)) = fst (board_member cx (ct', cid', n'))"
  shows "ct = ct' \<and> cid = cid'"
  using assms(2) colon_key_inject [OF u, of ct cid ct' cid'] by (simp add: board_member_def)

end
