(* ===== verification/Leaderboards.thy ===== *)
theory Leaderboards
  imports Leaderboard_Refresh
begin

text \<open>
  The leaderboards as a client sees them: what a query answers is a top list of a board the task or the
  database computed, whichever of the sorted sets, the JSON entries or the tables it came from.
\<close>

section \<open>Top lists\<close>

lemma is_top_trans:
  assumes "is_top m rows mid" "is_top n mid best" "n \<le> m"
  shows "is_top n rows best"
proof -
  obtain r1 where r1: "mset rows = mset mid + mset r1" "\<forall>(_, _, k) \<in> set mid. \<forall>(_, _, k') \<in> set r1. k' \<le> k"
    using assms(1) unfolding is_top_def by blast
  obtain r2 where r2: "mset mid = mset best + mset r2" "\<forall>(_, _, k) \<in> set best. \<forall>(_, _, k') \<in> set r2. k' \<le> k"
    using assms(2) unfolding is_top_def by blast
  have sub: "set best \<subseteq> set mid" using mset_eq_setD [of mid "best @ r2"] r2(1) by simp
  have "mset rows = mset best + mset (r2 @ r1)" using r1(1) r2(1) by simp
  moreover have "\<forall>(_, _, k) \<in> set best. \<forall>(_, _, k') \<in> set (r2 @ r1). k' \<le> k"
    using r1(2) r2(2) sub unfolding set_append by blast
  moreover have "length best = min n (length rows)" "sorted (map (\<lambda>(_, _, m). - m) best)"
    using assms by (auto simp: is_top_def)
  ultimately show ?thesis unfolding is_top_def by blast
qed

lemma is_top_sub: "is_top n rows best \<Longrightarrow> set best \<subseteq> set rows"
  using mset_eq_setD [of rows "best @ _"] by (auto simp: is_top_def)

text \<open>\<open>ZREVRANGE\<close> from the first member: the best of the set by score.\<close>

definition zset_top :: "nat \<Rightarrow> zset \<Rightarrow> zset \<Rightarrow> bool" where
  "zset_top n z pairs \<longleftrightarrow>
     length pairs = min n (length z) \<and> sorted (map (\<lambda>p. - snd p) pairs)
     \<and> (\<exists>rest. mset z = mset pairs + mset rest \<and> (\<forall>p \<in> set pairs. \<forall>q \<in> set rest. snd q \<le> snd p))"

lemma board_member_inj:
  assumes u: "uuid_codec_ok cx" and ok: "board_ok rows"
  shows "inj_on (board_member cx) (set rows)"
proof (rule inj_onI)
  fix r r' assume r: "r \<in> set rows" "r' \<in> set rows" "board_member cx r = board_member cx r'"
  obtain ct cid n where 1: "r = (ct, cid, n)" by (cases r) auto
  obtain ct' cid' n' where 2: "r' = (ct', cid', n')" by (cases r') auto
  have ok1: "CHR '':'' \<notin> set ct" "0 \<le> n" "n < 2 ^ 53" "CHR '':'' \<notin> set ct'" "0 \<le> n'" "n' < 2 ^ 53"
    using ok r 1 2 by (auto simp: board_ok_def)
  have "item_of_board r = item_of_board r'"
    using parse_board_member [OF u ok1(1-3), of cid] parse_board_member [OF u ok1(4-6), of cid'] r(3) 1 2 by simp
  then show "r = r'" using 1 2 by (simp add: item_of_board_def)
qed

lemma board_ok_subset: "board_ok rows \<Longrightarrow> set rows' \<subseteq> set rows \<Longrightarrow> board_ok rows'"
  unfolding board_ok_def by blast

lemma zset_top_board:
  assumes u: "uuid_codec_ok cx" and ok: "board_ok rows" and top: "zset_top n (map (board_member cx) rows) pairs"
  shows "\<exists>best. is_top n rows best \<and> parse_members cx pairs = map item_of_board best"
proof -
  let ?f = "board_member cx" and ?g = "inv_into (set rows) (board_member cx)"
  obtain rest where rest: "mset (map ?f rows) = mset pairs + mset rest"
    "\<forall>p \<in> set pairs. \<forall>q \<in> set rest. snd q \<le> snd p"
    using top unfolding zset_top_def by blast
  have sets: "set pairs \<subseteq> ?f ` set rows" "set rest \<subseteq> ?f ` set rows"
    using mset_eq_setD [of "map ?f rows" "pairs @ rest"] rest(1) by auto
  have gf: "?g (?f r) = r" if "r \<in> set rows" for r
    using that inv_into_f_f [OF board_member_inj [OF u ok]] by simp
  have fg: "?f (?g p) = p" "?g p \<in> set rows" if "p \<in> ?f ` set rows" for p
    using that f_inv_into_f inv_into_into by metis+
  define best rest' where "best = map ?g pairs" and "rest' = map ?g rest"
  have pairs: "pairs = map ?f best" and rests: "rest = map ?f rest'"
    unfolding best_def rest'_def map_map comp_def
    using fg(1) [OF subsetD [OF sets(1)]] fg(1) [OF subsetD [OF sets(2)]]
    by (simp_all add: map_idI del: split_paired_All)
  have in_rows: "set best \<subseteq> set rows" "set rest' \<subseteq> set rows"
    unfolding best_def rest'_def set_map
    by (rule image_subsetI, rule fg(2), erule subsetD [OF sets(1)])
      (rule image_subsetI, rule fg(2), erule subsetD [OF sets(2)])
  have score: "snd (?f r) = rat_of_int (snd (snd r))" if "r \<in> set rows" for r
    using that ok by (auto simp: board_ok_def board_member_def f64_exact)
  have "map ?g (map ?f rows) = rows"
    unfolding map_map comp_def using gf by (simp add: map_idI del: split_paired_All)
  then have "mset rows = image_mset ?g (mset (map ?f rows))" by (metis mset_map)
  then have ms: "mset rows = mset best + mset rest'"
    unfolding rest(1) by (simp add: best_def rest'_def)
  have "map (\<lambda>p. - snd p) pairs = map rat_of_int (map (\<lambda>(_, _, m). - m) best)"
    unfolding pairs using in_rows score by (auto simp: comp_def)
  then have srt: "sorted (map (\<lambda>(_, _, m). - m) best)"
    using top unfolding zset_top_def by (simp add: sorted_iff_nth_mono)
  have dom: "\<forall>(_, _, m) \<in> set best. \<forall>(_, _, m') \<in> set rest'. m' \<le> m"
  proof (clarify)
    fix a b m a' b' m' assume "(a, b, m) \<in> set best" "(a', b', m') \<in> set rest'"
    then have "snd (?f (a', b', m')) \<le> snd (?f (a, b, m))" "(a, b, m) \<in> set rows" "(a', b', m') \<in> set rows"
      using rest(2) in_rows unfolding pairs rests by auto
    then show "m' \<le> m" using score by simp
  qed
  have "length best = min n (length rows)" using top by (simp add: zset_top_def best_def)
  moreover have "parse_members cx pairs = map item_of_board best"
    unfolding pairs by (rule parse_board_members [OF u board_ok_subset [OF ok in_rows(1)]])
  ultimately show ?thesis using ms srt dom unfolding is_top_def by blast
qed

section \<open>Sorted sets in the caches\<close>

text \<open>Where a sorted set may be read: in Redis under its key, in process under the key of a range.\<close>

datatype ztier = ZRedis string | ZLocal string

text \<open>The contract, over a relation \<open>Z w t z\<close> like that of the string entries: a range starting at the
  first member is the best of a set that may be read, or empty; replacing adds the new set only, given
  distinct members; the local tier holds what was put there; nothing else adds anything.\<close>

definition zset_ok :: "'w ext \<Rightarrow> ('w \<Rightarrow> ztier \<Rightarrow> zset \<Rightarrow> bool) \<Rightarrow> bool" where
  "zset_ok x Z \<longleftrightarrow>
     (\<forall>k j w pairs. 0 \<le> j \<longrightarrow> fst (redis_zrevrange x k 0 j w) = Inr pairs \<longrightarrow>
        pairs = [] \<or> (\<exists>z. Z w (ZRedis k) z \<and> zset_top (nat (j + 1)) z pairs)) \<and>
     (\<forall>k i j w. shrinks Z w (snd (redis_zrevrange x k i j w))) \<and>
     (\<forall>k z w. distinct (map fst z) \<longrightarrow> adds_only Z {(ZRedis k, z)} w (snd (redis_del_zadd x k z w))) \<and>
     (\<forall>k w pairs. fst (lz_get x k w) = Some pairs \<longrightarrow> Z w (ZLocal k) pairs) \<and>
     (\<forall>k w. shrinks Z w (snd (lz_get x k w))) \<and>
     (\<forall>k z w. adds_only Z {(ZLocal k, z)} w (lz_insert x k z w)) \<and>
     (\<forall>p w. shrinks Z w (lz_invalidate_if x p w)) \<and>
     (\<forall>p w. shrinks Z w (l1_invalidate_if x p w)) \<and>
     (\<forall>w. shrinks Z w (snd (pool_get x w))) \<and>
     (\<forall>k w. shrinks Z w (snd (l1_get x k w))) \<and>
     (\<forall>k v w. shrinks Z w (l1_insert x k v w)) \<and>
     (\<forall>k w. shrinks Z w (snd (redis_get x k w))) \<and>
     (\<forall>es w. shrinks Z w (snd (redis_setex x es w))) \<and>
     (\<forall>w. shrinks Z w (snd (utc_now x w))) \<and>
     (\<forall>w. shrinks Z w (snd (hash_order x w))) \<and>
     (\<forall>w. shrinks Z w (snd (db_fault x w))) \<and>
     (\<forall>w. shrinks Z w (snd (db_plan x w)))"

lemma zset_reads:
  assumes "zset_ok x Z"
  shows "redis_zrevrange x k 0 j w = (Inr pairs, w') \<Longrightarrow> 0 \<le> j \<Longrightarrow> pairs \<noteq> [] \<Longrightarrow>
           \<exists>z. Z w (ZRedis k) z \<and> zset_top (nat (j + 1)) z pairs"
    and "lz_get x k w = (Some pairs, w') \<Longrightarrow> Z w (ZLocal k) pairs"
proof -
  assume a: "redis_zrevrange x k 0 j w = (Inr pairs, w')" "0 \<le> j" "pairs \<noteq> []"
  have "\<forall>k j w pairs. 0 \<le> j \<longrightarrow> fst (redis_zrevrange x k 0 j w) = Inr pairs \<longrightarrow>
        pairs = [] \<or> (\<exists>z. Z w (ZRedis k) z \<and> zset_top (nat (j + 1)) z pairs)"
    using assms unfolding zset_ok_def by (rule conjunct1)
  then have "fst (redis_zrevrange x k 0 j w) = Inr pairs \<longrightarrow>
      pairs = [] \<or> (\<exists>z. Z w (ZRedis k) z \<and> zset_top (nat (j + 1)) z pairs)"
    using a(2) by blast
  then show "\<exists>z. Z w (ZRedis k) z \<and> zset_top (nat (j + 1)) z pairs" using a by simp
next
  show "lz_get x k w = (Some pairs, w') \<Longrightarrow> Z w (ZLocal k) pairs"
    using assms unfolding zset_ok_def by (metis fst_conv)
qed

lemma zset_snd:
  assumes "zset_ok x Z"
  shows "shrinks Z w (snd (redis_zrevrange x k i j w))" and "shrinks Z w (snd (lz_get x k w))"
    and "shrinks Z w (snd (pool_get x w))" and "shrinks Z w (snd (l1_get x k w))"
    and "shrinks Z w (snd (redis_get x k w))" and "shrinks Z w (snd (redis_setex x es w))"
    and "shrinks Z w (snd (utc_now x w))" and "shrinks Z w (snd (hash_order x w))"
    and "shrinks Z w (snd (db_fault x w))" and "shrinks Z w (snd (db_plan x w))"
    and "shrinks Z w (lz_invalidate_if x p w)" and "shrinks Z w (l1_invalidate_if x p w)"
    and "shrinks Z w (l1_insert x k v w)"
  using assms by (simp_all add: zset_ok_def)

lemma zset_adds:
  assumes "zset_ok x Z"
  shows "adds_only Z {(ZLocal k, z)} w (lz_insert x k z w)"
    and "distinct (map fst z) \<Longrightarrow> adds_only Z {(ZRedis k, z)} w (snd (redis_del_zadd x k z w))"
  using assms by (simp_all add: zset_ok_def)

lemmas zset_shrinks = zset_snd(1-10) [THEN shrinks_pair]

text \<open>Steps that add neither a string entry nor a sorted set.\<close>

definition quiet_step ::
  "('w \<Rightarrow> string \<Rightarrow> string \<Rightarrow> bool) \<Rightarrow> ('w \<Rightarrow> ztier \<Rightarrow> zset \<Rightarrow> bool) \<Rightarrow> 'w \<Rightarrow> 'w \<Rightarrow> bool" where
  "quiet_step H Z w w' \<longleftrightarrow> shrinks H w w' \<and> shrinks Z w w'"

lemma quiet_step_trans: "quiet_step H Z w w' \<Longrightarrow> quiet_step H Z w' w'' \<Longrightarrow> quiet_step H Z w w''"
  by (auto simp: quiet_step_def intro: shrinks_trans)

lemma quiet_step_refl [simp]: "quiet_step H Z w w"
  by (simp add: quiet_step_def)

lemma window_start_quiet:
  assumes "store_ok x H" "zset_ok x Z" "window_start x win w = (since, w')"
  shows "quiet_step H Z w w'"
  using assms(3) store_shrinks(12) [OF assms(1)] zset_shrinks(7) [OF assms(2)]
  by (auto simp: window_start_def quiet_step_def split: option.splits prod.splits)

lemma get_leaderboard_spec:
  assumes ok: "store_ok x H" "zset_ok x Z" and ord: "\<forall>w. is_ordering (fst (db_plan x w))"
    and run: "get_leaderboard x filt since limit (d, w) = (r, d', w')"
  shows "quiet_step H Z w w' \<and> d' = d
       \<and> (\<forall>rows. r = Inr rows \<longrightarrow> is_top (nat limit) (board_rows filt since d) rows)"
proof (cases "limit < 0")
  case True
  then show ?thesis using run by (auto simp: get_leaderboard_def)
next
  case False
  obtain p w1 where p: "db_plan x w = (p, w1)" by fastforce
  obtain f w2 where f: "db_fault x w1 = (f, w2)" by fastforce
  have "is_ordering p" using ord p by (metis fst_conv)
  moreover have "quiet_step H Z w w2"
    using shrinks_trans [OF store_shrinks(22) [OF ok(1) p] store_shrinks(18) [OF ok(1) f]]
      shrinks_trans [OF zset_shrinks(10) [OF ok(2) p] zset_shrinks(9) [OF ok(2) f]]
    by (simp add: quiet_step_def)
  ultimately show ?thesis
    using run False p f top_rows_is_top [of p "nat limit" "board_rows filt since d"]
    by (auto simp: get_leaderboard_def sql_read_def sql_leaderboard_def split: option.splits)
qed

lemma cm_get_quiet:
  assumes ok: "store_ok x H" "zset_ok x Z" and run: "cm_get x key w = (r, w')"
  shows "quiet_step H Z w w' \<and> (\<forall>v. r = Some v \<longrightarrow> H w key v)"
proof -
  obtain r1 w1 where 1: "l1_get x key w = (r1, w1)" by fastforce
  obtain b w2 where 2: "pool_get x w1 = (b, w2)" by fastforce
  obtain q w3 where 3: "redis_get x key w2 = (q, w3)" by fastforce
  note s1 = zset_shrinks(4) [OF ok(2) 1] and s2 = zset_shrinks(3) [OF ok(2) 2] and s3 = zset_shrinks(5) [OF ok(2) 3]
  note s12 = shrinks_trans [OF s1 s2] and s123 = shrinks_trans [OF shrinks_trans [OF s1 s2] s3]
  have "shrinks Z w (l1_insert x key v w3)" for v by (rule shrinks_trans [OF s123 zset_snd(13) [OF ok(2)]])
  then have "shrinks Z w w'"
    using run 1 2 3 s1 s12 s123 by (auto simp: cm_get_def split: option.splits bool.splits sum.splits)
  then show ?thesis using cm_get_sound [OF ok(1) run] by (simp add: quiet_step_def)
qed

lemma cm_set_zset:
  assumes "zset_ok x Z"
  shows "shrinks Z w (cm_set x k v ttl w)"
proof -
  obtain b w1 where p: "pool_get x (l1_insert x k v w) = (b, w1)" by fastforce
  have "shrinks Z w w1" using shrinks_trans [OF zset_snd(13) [OF assms] zset_shrinks(3) [OF assms p]] .
  then show ?thesis using p shrinks_trans [OF _ zset_snd(6) [OF assms]]
    by (cases b) (auto simp: cm_set_def)
qed

text \<open>The local key of the range from the first member to \<open>j\<close>.\<close>

definition range_key :: "string \<Rightarrow> int \<Rightarrow> string" where
  "range_key key j = key @ '':0:'' @ show_int j"

lemma cm_zrevrange_spec:
  assumes ok: "zset_ok x Z" and run: "cm_zrevrange x key 0 j w = (pairs, w')" and j: "0 \<le> j"
    and P: "entries Z P w" and range: "\<And>z pairs. P (ZRedis key) z \<Longrightarrow> zset_top (nat (j + 1)) z pairs \<Longrightarrow>
          P (ZLocal (range_key key j)) pairs"
  shows "entries Z P w' \<and> (pairs = [] \<or> P (ZLocal (range_key key j)) pairs)"
proof -
  let ?k = "key @ '':'' @ show_int 0 @ '':'' @ show_int j"
  have "show_int 0 = ''0''" by code_simp
  then have k: "?k = range_key key j" by (simp add: range_key_def)
  obtain c w1 where 1: "lz_get x ?k w = (c, w1)" by fastforce
  obtain b w2 where 2: "pool_get x w1 = (b, w2)" by fastforce
  obtain q w3 where 3: "redis_zrevrange x key 0 j w2 = (q, w3)" by fastforce
  have P1: "entries Z P w1" using zset_shrinks(2) [OF ok 1] P by (rule entries_shrinks)
  have P2: "entries Z P w2" using zset_shrinks(3) [OF ok 2] P1 by (rule entries_shrinks)
  have P3: "entries Z P w3" using zset_shrinks(1) [OF ok 3] P2 by (rule entries_shrinks)
  have l1: "P (ZLocal (range_key key j)) z" if "c = Some z" for z
    using zset_reads(2) [OF ok 1 [unfolded that]] P unfolding k entries_def by blast
  have hit: "P (ZLocal (range_key key j)) z" if "q = Inr z" "z \<noteq> []" for z
    using zset_reads(1) [OF ok 3 [unfolded that(1)] j that(2)] P2 range unfolding entries_def by blast
  have put: "entries Z P (lz_insert x ?k z w3)" if "q = Inr z" "z \<noteq> []" for z
    by (rule entries_adds [OF zset_adds(1) [OF ok] _ P3]) (use hit [OF that] k in auto)
  show ?thesis
    using run 1 2 3 P1 P2 P3 l1 hit put
    by (auto simp: cm_zrevrange_def Let_def split: option.splits bool.splits sum.splits if_splits)
qed

lemma cm_replace_spec:
  assumes ok: "zset_ok x Z" and P: "entries Z P w" "P (ZRedis key) z" and d: "distinct (map fst z)"
  shows "entries Z P (cm_replace_sorted_set x key z w)"
proof -
  let ?w = "lz_invalidate_if x (\<lambda>k. str_starts_with k (key @ '':'')) w"
  obtain b w1 where p: "pool_get x ?w = (b, w1)" by fastforce
  have P1: "entries Z P w1"
    using entries_shrinks [OF shrinks_trans [OF zset_snd(11) [OF ok] zset_shrinks(3) [OF ok p]] P(1)] .
  have "entries Z P (snd (redis_del_zadd x key z w1))"
    by (rule entries_adds [OF zset_adds(2) [OF ok d] _ P1]) (use P(2) in auto)
  with P1 p show ?thesis by (cases b) (simp_all add: cm_replace_sorted_set_def)
qed

section \<open>What the boards are\<close>

text \<open>An arbitrary meaning \<open>Q win ct rows\<close>: "\<open>rows\<close> is the complete board of this window and filter", for
  instance at the present moment, or at some moment since the start.\<close>

type_synonym meaning = "time_window \<Rightarrow> string option \<Rightarrow> (string \<times> uuid \<times> int) list \<Rightarrow> bool"

definition top_of :: "meaning \<Rightarrow> time_window \<Rightarrow> string option \<Rightarrow> nat \<Rightarrow> (string \<times> uuid \<times> int) list \<Rightarrow> bool" where
  "top_of Q win ct n best \<longleftrightarrow> (\<exists>rows. Q win ct rows \<and> is_top n rows best)"

definition lb_entry :: "codec \<Rightarrow> meaning \<Rightarrow> ztier \<Rightarrow> zset \<Rightarrow> bool" where
  "lb_entry cx Q t z \<longleftrightarrow> (\<forall>win.
     (t = ZRedis (window_key win) \<longrightarrow> (\<exists>best. top_of Q win None 50 best \<and> z = map (board_member cx) best)) \<and>
     (\<forall>j \<ge> 0. t = ZLocal (range_key (window_key win) j) \<longrightarrow>
        (\<exists>best. top_of Q win None 50 best \<and> zset_top (nat (j + 1)) (map (board_member cx) best) z)))"

definition lbf_entry :: "codec \<Rightarrow> meaning \<Rightarrow> string \<Rightarrow> string \<Rightarrow> bool" where
  "lbf_entry cx Q k v \<longleftrightarrow> (\<forall>win ct n items. k = filtered_key win ct n \<longrightarrow> items_from_json cx v = Some items \<longrightarrow>
     (\<exists>best. top_of Q win (Some ct) (nat n) best \<and> items = map item_of_board best))"

definition items_codec_ok :: "codec \<Rightarrow> bool" where
  "items_codec_ok cx \<longleftrightarrow> (\<forall>items v. items_to_json cx items = Some v \<longrightarrow> items_from_json cx v = Some items)"

definition board_env ::
  "'w app \<Rightarrow> ('w \<Rightarrow> string \<Rightarrow> string \<Rightarrow> bool) \<Rightarrow> ('w \<Rightarrow> ztier \<Rightarrow> zset \<Rightarrow> bool) \<Rightarrow> meaning \<Rightarrow> bool" where
  "board_env a H Z Q \<longleftrightarrow> store_ok (ap_ext a) H \<and> zset_ok (ap_ext a) Z \<and> uuid_codec_ok (ap_codec a)
     \<and> items_codec_ok (ap_codec a) \<and> (\<forall>w. is_ordering (fst (db_plan (ap_ext a) w)))
     \<and> (\<forall>win rows. Q win None rows \<longrightarrow> board_ok rows \<and> distinct (map (\<lambda>(ct, cid, n). (ct, cid)) rows))"

definition boards_ok :: "'w app \<Rightarrow> meaning \<Rightarrow> db \<Rightarrow> bool" where
  "boards_ok a Q d \<longleftrightarrow> (\<forall>win ct w. Q win ct (board_rows ct (fst (window_start (ap_ext a) win w)) d))"

definition board_world ::
  "'w app \<Rightarrow> ('w \<Rightarrow> string \<Rightarrow> string \<Rightarrow> bool) \<Rightarrow> ('w \<Rightarrow> ztier \<Rightarrow> zset \<Rightarrow> bool) \<Rightarrow> meaning \<Rightarrow> 'w \<Rightarrow> bool" where
  "board_world a H Z Q w \<longleftrightarrow> entries H (lbf_entry (ap_codec a) Q) w \<and> entries Z (lb_entry (ap_codec a) Q) w"

lemma board_world_quiet: "quiet_step H Z w w' \<Longrightarrow> board_world a H Z Q w \<Longrightarrow> board_world a H Z Q w'"
  by (auto simp: board_world_def quiet_step_def intro: entries_shrinks)

lemma board_envD:
  assumes "board_env a H Z Q"
  shows "store_ok (ap_ext a) H" "zset_ok (ap_ext a) Z" "uuid_codec_ok (ap_codec a)" "items_codec_ok (ap_codec a)"
    "\<forall>w. is_ordering (fst (db_plan (ap_ext a) w))"
    "Q win None rows \<Longrightarrow> board_ok rows \<and> distinct (map (\<lambda>(ct, cid, n). (ct, cid)) rows)"
  using assms unfolding board_env_def by blast+

lemma tw_no_colon: "CHR '':'' \<notin> set (tw_as_str win)"
  by (cases win) auto

lemma window_key_inject [simp]: "window_key win = window_key win' \<longleftrightarrow> win = win'"
  by (simp add: window_key_def)

lemma first_colon_inject:
  assumes "CHR '':'' \<notin> set p" "CHR '':'' \<notin> set q" "p @ CHR '':'' # s = q @ CHR '':'' # t"
  shows "p = q \<and> s = t"
proof -
  have "length p = length q"
    using str_find_append [OF assms(1), of s] str_find_append [OF assms(2), of t] assms(3) by simp
  then show ?thesis using assms(3) by simp
qed

lemma show_int_no_colon: "CHR '':'' \<notin> set (show_int n)"
  by (rule show_int_no) simp_all

lemma range_key_inject [simp]:
  "range_key (window_key win) j = range_key (window_key win') j' \<longleftrightarrow> win = win' \<and> j = j'"
proof
  assume a: "range_key (window_key win) j = range_key (window_key win') j'"
  then have "tw_as_str win @ CHR '':'' # (''0:'' @ show_int j) = tw_as_str win' @ CHR '':'' # (''0:'' @ show_int j')"
    by (simp add: range_key_def window_key_def)
  from first_colon_inject [OF tw_no_colon tw_no_colon this] show "win = win' \<and> j = j'" by simp
qed simp

lemma filtered_key_inject: "filtered_key win ct n = filtered_key win' ct' n' \<longleftrightarrow> win = win' \<and> ct = ct' \<and> n = n'"
proof
  assume a: "filtered_key win ct n = filtered_key win' ct' n'"
  then have "tw_as_str win @ CHR '':'' # (ct @ CHR '':'' # show_int n) = tw_as_str win' @ CHR '':'' # (ct' @ CHR '':'' # show_int n')"
    by (simp add: filtered_key_def)
  from first_colon_inject [OF tw_no_colon tw_no_colon this]
  have "win = win'" "ct @ CHR '':'' # show_int n = ct' @ CHR '':'' # show_int n'" by simp_all
  then show "win = win' \<and> ct = ct' \<and> n = n'"
    by (simp add: append_colon_inject show_int_no_colon)
qed simp

lemma lb_local:
  "lb_entry cx Q (ZLocal (range_key (window_key win) j)) z \<Longrightarrow> 0 \<le> j \<Longrightarrow>
   \<exists>best. top_of Q win None 50 best \<and> zset_top (nat (j + 1)) (map (board_member cx) best) z"
  unfolding lb_entry_def by blast

lemma top_of_board:
  assumes env: "board_env a H Z Q" and best: "top_of Q win None n best"
  shows "board_ok best \<and> distinct (map fst (map (board_member (ap_codec a)) best))"
proof -
  obtain rows where Q: "Q win None rows" and top: "is_top n rows best" using best unfolding top_of_def by blast
  note rows = board_envD(6) [OF env Q]
  obtain rest where ms: "mset rows = mset best + mset rest" using top unfolding is_top_def by blast
  have ok: "board_ok best" using board_ok_subset is_top_sub [OF top] rows by blast
  have "mset (map (\<lambda>(ct, cid, n). (ct, cid)) rows) =
      mset (map (\<lambda>(ct, cid, n). (ct, cid)) best @ map (\<lambda>(ct, cid, n). (ct, cid)) rest)"
    using ms by simp
  then have "distinct (map (\<lambda>(ct, cid, n). (ct, cid)) best)"
    using rows mset_eq_imp_distinct_iff distinct_append by metis
  moreover have "distinct (map fst (map (board_member (ap_codec a)) rs))"
    if "distinct (map (\<lambda>(ct, cid, n). (ct, cid)) rs)" for rs
  proof -
    let ?h = "\<lambda>c. fst c @ '':'' @ uuid_show (ap_codec a) (snd c)"
    have h: "inj ?h" using colon_key_inject [OF board_envD(3) [OF env]] by (auto intro!: injI simp: prod_eq_iff)
    have "distinct (map ?h ks)" if "distinct ks" for ks
      unfolding distinct_map using that inj_on_subset [OF h subset_UNIV] by blast
    moreover have "map fst (map (board_member (ap_codec a)) rs) = map ?h (map (\<lambda>(ct, cid, n). (ct, cid)) rs)"
      by (simp add: board_member_def case_prod_unfold)
    ultimately show ?thesis using that by (simp only:)
  qed
  ultimately show ?thesis using ok by blast
qed

section \<open>Reading and refreshing\<close>

definition board_answer :: "meaning \<Rightarrow> time_window \<Rightarrow> string option \<Rightarrow> int \<Rightarrow> top_liked_response \<Rightarrow> bool" where
  "board_answer Q win ct limit r \<longleftrightarrow> tlr_window r = tw_as_str win \<and> tlr_type r = ct
     \<and> (\<exists>best. top_of Q win ct (nat (clamp 1 50 limit)) best \<and> tlr_items r = map item_of_board best)"

lemma board_from_db_sound:
  assumes env: "board_env a H Z Q" and ok: "boards_ok a Q d" "board_world a H Z Q w"
    and run: "board_from_db a ct win (clamp 1 50 limit) (d, w) = (r, d', w')"
  shows "board_world a H Z Q w' \<and> d' = d \<and> (\<forall>resp. r = Inr resp \<longrightarrow> board_answer Q win ct limit resp)"
proof -
  obtain since w1 where 1: "window_start (ap_ext a) win w = (since, w1)" by fastforce
  obtain q d2 w2 where 2: "get_leaderboard (ap_ext a) ct since (clamp 1 50 limit) (d, w1) = (q, d2, w2)"
    by (metis prod_cases3)
  note gl = get_leaderboard_spec [OF board_envD(1,2,5) [OF env] 2]
  have "Q win ct (board_rows ct (fst (window_start (ap_ext a) win w)) d)"
    using ok(1) unfolding boards_ok_def by blast
  then have top: "top_of Q win ct (nat (clamp 1 50 limit)) rows" if "q = Inr rows" for rows
    using gl that 1 unfolding top_of_def by auto
  have "board_world a H Z Q w2"
    by (rule board_world_quiet [OF quiet_step_trans [OF window_start_quiet [OF board_envD(1,2) [OF env] 1] conjunct1 [OF gl]] ok(2)])
  then show ?thesis
    using run 1 2 gl top
    by (auto simp: board_from_db_def board_answer_def board_response_def split: sum.splits)
qed

lemma unfiltered_sound:
  assumes env: "board_env a H Z Q" and ok: "boards_ok a Q d" "board_world a H Z Q w"
    and run: "leaderboard_query a None win limit (d, w) = (r, d', w')"
  shows "board_world a H Z Q w' \<and> d' = d \<and> (\<forall>resp. r = Inr resp \<longrightarrow> board_answer Q win None limit resp)"
proof -
  let ?n = "clamp 1 50 limit" and ?cx = "ap_codec a" and ?key = "window_key win"
  let ?local = "ZLocal (range_key ?key (?n - 1))"
  have n: "1 \<le> ?n" "?n \<le> 50" by simp_all
  obtain pairs w1 where 1: "cm_zrevrange (ap_ext a) ?key 0 (?n - 1) w = (pairs, w1)" by fastforce
  have B: "entries H (lbf_entry ?cx Q) w" "entries Z (lb_entry ?cx Q) w" using ok(2) by (simp_all add: board_world_def)
  have P: "lb_entry ?cx Q (ZRedis ?key) z \<Longrightarrow> zset_top (nat (?n - 1 + 1)) z ps \<Longrightarrow> lb_entry ?cx Q ?local ps" for z ps
    unfolding lb_entry_def by auto
  from cm_zrevrange_spec [OF board_envD(2) [OF env] 1 _ B(2) P] n
  have E: "entries Z (lb_entry ?cx Q) w1" "pairs = [] \<or> lb_entry ?cx Q ?local pairs" by auto
  have w1: "board_world a H Z Q w1"
    using E(1) entries_shrinks [OF cm_zrevrange_shrinks [OF board_envD(1) [OF env] 1] B(1)] by (simp add: board_world_def)
  show ?thesis
  proof (cases "pairs = []")
    case True
    then have "board_from_db a None win ?n (d, w1) = (r, d', w')"
      using run 1 by (simp add: leaderboard_query_def Let_def)
    from board_from_db_sound [OF env ok(1) w1 this] show ?thesis .
  next
    case False
    then have "lb_entry ?cx Q ?local pairs" using E(2) by blast
    from lb_local [OF this] n
    obtain mid where mid: "top_of Q win None 50 mid" "zset_top (nat ?n) (map (board_member ?cx) mid) pairs" by auto
    obtain best where best: "is_top (nat ?n) mid best" "parse_members ?cx pairs = map item_of_board best"
      using zset_top_board [OF board_envD(3) [OF env] _ mid(2)] top_of_board [OF env mid(1)] by blast
    have "nat ?n \<le> 50" using n(2) by linarith
    with best(1) mid(1) have "top_of Q win None (nat ?n) best"
      unfolding top_of_def using is_top_trans by blast
    with best(2) False w1 run 1 show ?thesis
      by (auto simp: leaderboard_query_def Let_def board_answer_def board_response_def)
  qed
qed

lemma filtered_sound:
  assumes env: "board_env a H Z Q" and ok: "boards_ok a Q d" "board_world a H Z Q w"
    and run: "leaderboard_query a (Some ct) win limit (d, w) = (r, d', w')"
  shows "board_world a H Z Q w' \<and> d' = d \<and> (\<forall>resp. r = Inr resp \<longrightarrow> board_answer Q win (Some ct) limit resp)"
proof -
  let ?n = "clamp 1 50 limit" and ?cx = "ap_codec a"
  obtain c w1 where 1: "cm_get (ap_ext a) (filtered_key win ct ?n) w = (c, w1)" by fastforce
  note g = cm_get_quiet [OF board_envD(1,2) [OF env] 1]
  have w1: "board_world a H Z Q w1" by (rule board_world_quiet [OF conjunct1 [OF g] ok(2)])
  have hit: "\<exists>best. top_of Q win (Some ct) (nat ?n) best \<and> items = map item_of_board best"
    if "c = Some v" "items_from_json ?cx v = Some items" for v items
  proof -
    have "lbf_entry ?cx Q (filtered_key win ct ?n) v"
      using g that(1) ok(2) unfolding board_world_def entries_def by blast
    then show ?thesis using that(2) unfolding lbf_entry_def by blast
  qed
  show ?thesis
  proof (cases "\<exists>v items. c = Some v \<and> items_from_json ?cx v = Some items")
    case True
    then obtain v items where "c = Some v" "items_from_json ?cx v = Some items" by blast
    then show ?thesis using hit run 1 w1
      by (auto simp: leaderboard_query_def cached_items_def Let_def board_answer_def board_response_def)
  next
    case False
    then have "board_from_db a (Some ct) win ?n (d, w1) = (r, d', w')"
      using run 1 by (auto simp: leaderboard_query_def cached_items_def Let_def split: option.splits)
    from board_from_db_sound [OF env ok(1) w1 this] show ?thesis .
  qed
qed

lemma refresh_filtered_sound:
  assumes env: "board_env a H Z Q" and Q: "\<forall>ct. Q win (Some ct) (board_rows (Some ct) since d)"
  shows "board_world a H Z Q w \<Longrightarrow> refresh_filtered a win since cts (d, w) = (d', w') \<Longrightarrow>
     board_world a H Z Q w' \<and> d' = d"
proof (induction cts arbitrary: w)
  case (Cons ct cts)
  let ?x = "ap_ext a" and ?cx = "ap_codec a"
  obtain r d1 w1 where 1: "get_leaderboard ?x (Some ct) since leaderboard_limit (d, w) = (r, d1, w1)"
    by (metis prod_cases3)
  note gl = get_leaderboard_spec [OF board_envD(1,2,5) [OF env] 1]
  have w1: "board_world a H Z Q w1" by (rule board_world_quiet [OF conjunct1 [OF gl] Cons.prems(1)])
  have put: "board_world a H Z Q (cm_set ?x (filtered_key win ct leaderboard_limit) json t w1)"
    if "r = Inr rows" "items_to_json ?cx (map item_of_board rows) = Some json" for rows json t
  proof -
    have "top_of Q win (Some ct) (nat leaderboard_limit) rows" using gl that(1) Q unfolding top_of_def by blast
    moreover have "items_from_json ?cx json = Some (map item_of_board rows)"
      using board_envD(4) [OF env] that(2) unfolding items_codec_ok_def by blast
    ultimately have "lbf_entry ?cx Q (filtered_key win ct leaderboard_limit) json"
      unfolding lbf_entry_def by (auto simp: filtered_key_inject)
    with w1 show ?thesis
      using cm.put_entry [OF board_envD(1) [OF env]] entries_shrinks [OF cm_set_zset [OF board_envD(2) [OF env]]]
      unfolding board_world_def by blast
  qed
  show ?case
  proof (cases r)
    case (Inl e)
    then show ?thesis using Cons.prems(2) 1 gl Cons.IH [OF w1] by simp
  next
    case (Inr rows)
    show ?thesis
      using Cons.prems(2) 1 gl Inr Cons.IH [OF w1] Cons.IH [OF put [OF Inr]]
      by (auto simp: Let_def split: option.splits)
  qed
qed simp

lemma refresh_window_sound:
  assumes env: "board_env a H Z Q" and ok: "boards_ok a Q d" "board_world a H Z Q w"
    and run: "refresh_window a win (d, w) = (r, d', w')"
  shows "board_world a H Z Q w' \<and> d' = d"
proof -
  let ?x = "ap_ext a" and ?cx = "ap_codec a"
  obtain since w1 where 1: "window_start ?x win w = (since, w1)" by fastforce
  obtain q d2 w2 where 2: "get_leaderboard ?x None since leaderboard_limit (d, w1) = (q, d2, w2)"
    by (metis prod_cases3)
  note gl = get_leaderboard_spec [OF board_envD(1,2,5) [OF env] 2]
  have "\<forall>ct. Q win ct (board_rows ct (fst (window_start ?x win w)) d)"
    using ok(1) unfolding boards_ok_def by blast
  then have Q: "\<forall>ct. Q win ct (board_rows ct since d)" using 1 by simp
  have w2: "board_world a H Z Q w2"
    by (rule board_world_quiet [OF quiet_step_trans [OF window_start_quiet [OF board_envD(1,2) [OF env] 1] conjunct1 [OF gl]] ok(2)])
  show ?thesis
  proof (cases q)
    case (Inl e)
    then show ?thesis using run 1 2 gl w2 by (auto simp: refresh_window_def Let_def)
  next
    case (Inr rows)
    let ?w3 = "cm_replace_sorted_set ?x (window_key win) (map (board_member ?cx) rows) w2"
    obtain p w4 where 4: "hash_order ?x ?w3 = (p, w4)" by fastforce
    have top: "top_of Q win None 50 rows" using gl Inr Q unfolding top_of_def leaderboard_limit_def by auto
    then have entry: "lb_entry ?cx Q (ZRedis (window_key win)) (map (board_member ?cx) rows)"
      unfolding lb_entry_def by auto
    have "entries Z (lb_entry ?cx Q) ?w3"
      by (rule cm_replace_spec [where P = "lb_entry ?cx Q", OF board_envD(2) [OF env] _ entry]) (use w2 top_of_board [OF env top] in \<open>simp_all add: board_world_def\<close>)
    then have w3: "board_world a H Z Q ?w3"
      using w2 other_entries(3) [OF board_envD(1) [OF env]] by (simp add: board_world_def)
    have "quiet_step H Z ?w3 w4"
      using store_shrinks(23) [OF board_envD(1) [OF env] 4] zset_shrinks(8) [OF board_envD(2) [OF env] 4]
      by (simp add: quiet_step_def)
    from board_world_quiet [OF this w3] have w4: "board_world a H Z Q w4" .
    have "refresh_filtered a win since (permute_by p (map fst (content_api_urls (ap_config a)))) (d, w4) = (d', w')"
      using run 1 2 4 gl Inr by (simp add: refresh_window_def Let_def)
    from refresh_filtered_sound [OF env _ w4 this] Q show ?thesis by blast
  qed
qed

lemma refresh_each_sound:
  assumes env: "board_env a H Z Q" and ok: "boards_ok a Q d"
  shows "board_world a H Z Q w \<Longrightarrow> refresh_each a wins (d, w) = (d', w') \<Longrightarrow> board_world a H Z Q w' \<and> d' = d"
proof (induction wins arbitrary: w)
  case (Cons win wins)
  obtain r d1 w1 where 1: "refresh_window a win (d, w) = (r, d1, w1)" by (metis prod_cases3)
  note s = refresh_window_sound [OF env ok Cons.prems(1) 1]
  from Cons.IH [of w1] s Cons.prems(2) 1 show ?case by simp
qed simp

lemma refresh_all_sound:
  assumes env: "board_env a H Z Q" and ok: "boards_ok a Q d" "board_world a H Z Q w"
    and run: "refresh_all_windows a (d, w) = (d', w')"
  shows "board_world a H Z Q w' \<and> d' = d"
proof -
  obtain d1 w1 where 1: "refresh_each a refresh_windows (d, w) = (d1, w1)" by fastforce
  note s = refresh_each_sound [OF env ok 1]
  have "board_world a H Z Q (cm_invalidate_l1_prefix (ap_ext a) ''lbf:'' w1)"
    using s other_entries(4) [OF board_envD(1) [OF env]] entries_shrinks [OF zset_snd(12) [OF board_envD(2) [OF env]]]
    unfolding board_world_def cm_invalidate_l1_prefix_def by blast
  then show ?thesis using run 1 s by (simp add: refresh_all_windows_def)
qed

lemma refresh_task_sound:
  assumes env: "board_env a H Z Q" and ok: "boards_ok a Q d" "board_world a H Z Q w"
  shows "board_world a H Z Q (snd (refresh_task a n (d, w))) \<and> fst (refresh_task a n (d, w)) = d"
proof (induction n)
  case 0
  then show ?case using refresh_all_sound [OF env ok] by (metis refresh_task.simps(1) prod.collapse)
next
  case (Suc n)
  then show ?case
    using refresh_all_sound [OF env ok(1)] by (metis refresh_task.simps(2) prod.collapse)
qed

text \<open>C10. Leaderboards are sound, for any meaning of "board" the tables agree with now: a query answers with
  the best \<open>limit\<close> (clamped to 1..50) rows of a board that was right when it was computed, in descending
  order, whether the answer is a sorted set of the refresh task read through either cache tier, a cached
  JSON entry or a query of the tables; queries and any number of rounds of the task keep it so.\<close>

theorem leaderboards_sound:
  assumes "board_env a H Z Q" "boards_ok a Q d" "board_world a H Z Q w"
    and "leaderboard_query a ct win limit (d, w) = (r, d', w')"
  shows "(\<forall>resp. r = Inr resp \<longrightarrow> board_answer Q win ct limit resp)
       \<and> d' = d \<and> board_world a H Z Q w'
       \<and> board_world a H Z Q (snd (refresh_task a n (d', w'))) \<and> fst (refresh_task a n (d', w')) = d"
proof -
  have "board_world a H Z Q w' \<and> d' = d \<and> (\<forall>resp. r = Inr resp \<longrightarrow> board_answer Q win ct limit resp)"
    using unfiltered_sound [OF assms(1-3)] filtered_sound [OF assms(1-3)] assms(4) by (cases ct) auto
  then show ?thesis using refresh_task_sound [OF assms(1,2), of w' n] by simp
qed

section \<open>Witness\<close>

definition sample_zsets :: "sample \<Rightarrow> ztier \<Rightarrow> zset \<Rightarrow> bool" where
  "sample_zsets w t z \<longleftrightarrow> (\<exists>k. t = ZRedis k \<and> map_of (sm_zsets w) k = Some z)"

lemma sort_take_top: "zset_top n z (take n (sort_key (\<lambda>(m, s). - s) z))"
proof -
  let ?s = "sort_key (\<lambda>(m, s). - s) z"
  have s: "sorted (map (\<lambda>(m, s). - s) (take n ?s @ drop n ?s))" by simp
  then have "sorted (map (\<lambda>(m, s). - s) (take n ?s))"
    "\<forall>p \<in> set (take n ?s). \<forall>q \<in> set (drop n ?s). (\<lambda>(m, s). - s) p \<le> (\<lambda>(m, s). - s) q"
    unfolding map_append sorted_append by auto
  moreover have "mset z = mset (take n ?s) + mset (drop n ?s)" by (metis append_take_drop_id mset_append mset_sort)
  ultimately show ?thesis by (auto simp: zset_top_def case_prod_unfold min_def)
qed

lemma sample_zset_ok: "zset_ok (sample_ext http content token) sample_zsets"
proof -
  have top: "take n (sort_key (\<lambda>(m, s). - s) (lookup_list (sm_zsets w) k)) = [] \<or>
      (\<exists>z. sample_zsets w (ZRedis k) z \<and> zset_top n z (take n (sort_key (\<lambda>(m, s). - s) (lookup_list (sm_zsets w) k))))" for n w k
    using sort_take_top by (cases "map_of (sm_zsets w) k") (auto simp: lookup_list_def sample_zsets_def)
  have "pairs = [] \<or> (\<exists>z. sample_zsets w (ZRedis k) z \<and> zset_top (nat (j + 1)) z pairs)"
    if "fst (redis_zrevrange (sample_ext http content token) k 0 j w) = Inr pairs" for k j w pairs
  proof -
    have "pairs = take (nat (j + 1)) (sort_key (\<lambda>(m, s). - s) (lookup_list (sm_zsets w) k))"
      using that by (simp add: sample_ext_def)
    then show ?thesis using top [of "nat (j + 1)" w k] by (simp only:)
  qed
  then have range: "\<forall>k j w pairs. 0 \<le> j \<longrightarrow> fst (redis_zrevrange (sample_ext http content token) k 0 j w) = Inr pairs \<longrightarrow>
      pairs = [] \<or> (\<exists>z. sample_zsets w (ZRedis k) z \<and> zset_top (nat (j + 1)) z pairs)"
    by blast
  have put: "\<forall>k z w. distinct (map fst z) \<longrightarrow>
      adds_only sample_zsets {(ZRedis k, z)} w (snd (redis_del_zadd (sample_ext http content token) k z w))"
    by (auto simp: sample_ext_def adds_only_def sample_zsets_def update_conv' split: if_splits)
  show ?thesis
    unfolding zset_ok_def
    by (intro conjI range put; simp add: sample_ext_def shrinks_def adds_only_def sample_zsets_def update_conv')
qed

definition small_boards :: meaning where
  "small_boards win ct rows \<longleftrightarrow> (\<exists>w. rows = board_rows ct (fst (window_start sample_yes win w)) db_small)"

lemma small_board_ok: "board_ok (board_rows ct since db_small)"
proof -
  have "CHR '':'' \<notin> set t \<and> 0 \<le> n \<and> n < 2 ^ 53" if "(t, c, n) \<in> set (board_rows ct since db_small)" for t c n
  proof -
    let ?l = "filter (\<lambda>r. like_content r = (t, c) \<and> (case since of None \<Rightarrow> True | Some s \<Rightarrow> s \<le> lk_created r)) (likes db_small)"
    have n: "n = int (length ?l)" using board_rows_counts [OF db_small_inv that] by simp
    have "length ?l \<le> 3" using length_filter_le [of _ "likes db_small"] by (simp add: db_small_def)
    moreover have "t = ''post''"
      using that by (auto simp: board_rows_def db_small_def group_counts_def like_content_def split: option.splits if_splits)
    ultimately show ?thesis using n by simp
  qed
  then show ?thesis by (auto simp: board_ok_def)
qed

lemma small_board_env: "board_env sample_app sample_holds sample_zsets small_boards"
proof -
  have "items_codec_ok sample_codec" by (simp add: items_codec_ok_def sample_codec_def)
  moreover have "\<forall>w. is_ordering (fst (db_plan sample_yes w))" using sample_is_ordering by (simp add: sample_ext_def)
  ultimately show ?thesis
    unfolding board_env_def small_boards_def
    using sample_store_ok sample_zset_ok small_board_ok board_rows_distinct [OF db_small_inv]
    by (auto simp: sample_app_def app_new_fields)
qed

lemma small_top:
  assumes "top_of small_boards All None (nat (clamp 1 50 1)) best"
  shows "best = [(''post'', 7, 2)]"
proof -
  have rows: "board_rows None None db_small = [(''post'', 7, 2), (''post'', 8, 1)]"
    by (simp add: board_rows_def db_small_def)
  have top: "is_top 1 [(''post'', 7, 2), (''post'', 8, 1)] best"
    using assms by (auto simp: top_of_def small_boards_def window_start_def rows)
  then obtain r where best: "best = [r]" by (auto simp: is_top_def length_Suc_conv)
  with top obtain rest where ms: "mset [(''post'', 7, 2), (''post'', 8, 1)] = mset (r # rest)"
      and le: "\<forall>(_, _, m) \<in> set rest. m \<le> snd (snd r)"
    by (auto simp: is_top_def case_prod_unfold)
  have eq: "{(''post'', 7, 2), (''post'', 8, 1)} = insert r (set rest)" using mset_eq_setD [OF ms] by simp
  have "r \<in> {(''post'', 7, 2), (''post'', 8, 1)}" unfolding eq by (rule insertI1)
  then consider "r = (''post'', 7, 2)" | "r = (''post'', 8, 1)" by auto
  then show ?thesis
  proof cases
    case 1
    then show ?thesis using best by simp
  next
    case 2
    have "(''post'', 7, 2) \<in> insert r (set rest)" unfolding eq [symmetric] by (rule insertI1)
    then have "(''post'', 7, 2) \<in> set rest" using 2 by simp
    from bspec [OF le this] 2 show ?thesis by simp
  qed
qed

theorem leaderboards_sound_witness:
  "map_option (\<lambda>resp. map tli_content (tlr_items resp))
     (case fst (leaderboard_query sample_app None All 1 (refresh_task sample_app 0 (db_small, sample_start))) of
        Inr resp \<Rightarrow> Some resp | Inl e \<Rightarrow> None) = Some [7]"
proof -
  let ?s = "refresh_task sample_app 0 (db_small, sample_start)"
  have x: "ap_ext sample_app = sample_yes" by (simp add: sample_app_def app_new_fields)
  have ok: "boards_ok sample_app small_boards db_small"
    unfolding boards_ok_def small_boards_def x by blast
  have w0: "board_world sample_app sample_holds sample_zsets small_boards sample_start"
    unfolding board_world_def by (simp add: sample_entries) (simp add: entries_def sample_zsets_def sample_start_def)
  note t = refresh_task_sound [OF small_board_env ok w0, of 0]
  then have s: "?s = (db_small, snd ?s)" by (metis prod.collapse)
  obtain r d' w' where q: "leaderboard_query sample_app None All 1 (db_small, snd ?s) = (r, d', w')"
    by (metis prod_cases3)
  have "is_ok r"
    using arg_cong [OF q, of fst] unfolding leaderboard_query_def board_from_db_def get_leaderboard_def sql_read_def
    by (simp add: x Let_def window_start_def split: prod.splits if_splits) (auto simp: sample_ext_def)
  then obtain resp where r: "r = Inr resp" by (auto simp: is_ok_iff)
  with leaderboards_sound [OF small_board_env ok conjunct1 [OF t] q, of 0]
  have "board_answer small_boards All None 1 resp" by blast
  then obtain best where best: "top_of small_boards All None (nat (clamp 1 50 1)) best" "tlr_items resp = map item_of_board best"
    unfolding board_answer_def by blast
  then have "tlr_items resp = [item_of_board (''post'', 7, 2)]"
    using small_top [OF best(1)] by simp
  then show ?thesis using r q by (subst s) (simp add: item_of_board_def)
qed

section \<open>The period\<close>

text \<open>The jittered sleep between two refreshes is at least a second and stays within a tenth of the
  configured interval, rounded down to whole seconds.\<close>

theorem refresh_sleep_bounds:
  assumes "0 < interval"
  shows "1 \<le> refresh_sleep_secs interval ns \<and> 9 * interval < 10 * (refresh_sleep_secs interval ns + 1)
       \<and> 10 * refresh_sleep_secs interval ns \<le> 11 * interval"
proof -
  let ?p = "jitter_percent ns" and ?I = "rat_of_nat interval"
  let ?q = "?I * (1 + rat_of_int ?p / 1000)"
  have I: "1 \<le> ?I" using assms by simp
  have p: "- 100 \<le> ?p" "?p \<le> 100" by (simp_all add: jitter_percent_def)
  have "9 / 10 \<le> 1 + rat_of_int ?p / 1000" "1 + rat_of_int ?p / 1000 \<le> 11 / 10"
    using p [THEN of_int_le_iff [THEN iffD2, where 'a1 = rat]] by simp_all
  then have lo: "?I * (9 / 10) \<le> ?q" and hi: "?q \<le> ?I * (11 / 10)"
    using I by (auto intro: mult_left_mono)
  define q where "q = ?q"
  define m where "m = max 1 q"
  have "1 \<le> ?I * (11 / 10)" using I by linarith
  then have m: "1 \<le> m" "?I * (9 / 10) \<le> m" "m \<le> ?I * (11 / 10)"
    using lo hi unfolding m_def q_def [symmetric] by (simp_all add: le_max_iff_disj del: times_divide_eq_right)
  let ?s = "refresh_sleep_secs interval ns"
  have s: "?s = nat \<lfloor>m\<rfloor>" by (simp add: refresh_sleep_secs_def m_def q_def)
  have f: "1 \<le> \<lfloor>m\<rfloor>" using m(1) by simp
  then have r: "rat_of_nat ?s = rat_of_int \<lfloor>m\<rfloor>" by (simp add: s)
  have "rat_of_nat ?s \<le> m" "m < rat_of_nat ?s + 1" unfolding r by linarith+
  then have "rat_of_nat (9 * interval) < rat_of_nat (10 * (?s + 1))" "rat_of_nat (10 * ?s) \<le> rat_of_nat (11 * interval)"
    using m by (simp_all add: field_simps)
  then have "9 * interval < 10 * (?s + 1)" "10 * ?s \<le> 11 * interval" by (simp_all only: of_nat_less_iff of_nat_le_iff)
  moreover have "1 \<le> ?s" using f s by linarith
  ultimately show ?thesis by blast
qed

theorem refresh_sleep_bounds_witness:
  "1 \<le> refresh_sleep_secs 60 7 \<and> 540 < 10 * (refresh_sleep_secs 60 7 + 1) \<and> 10 * refresh_sleep_secs 60 7 \<le> 660"
  using refresh_sleep_bounds [of 60 7] by simp

end
