(* ===== verification/Windows.thy ===== *)
theory Windows
  imports Leaderboards
begin

text \<open>
  The leaderboards of different windows compared: windows are ordered by their length (\<open>Types\<close>), and the board of
  a longer window dominates the board of a shorter one rank by rank.
\<close>

definition since_before :: "datetime option \<Rightarrow> datetime option \<Rightarrow> bool" where
  "since_before s' s \<longleftrightarrow> (case s' of None \<Rightarrow> True | Some t' \<Rightarrow> (case s of None \<Rightarrow> False | Some t \<Rightarrow> t' \<le> t))"

text \<open>What counts from an earlier moment on counts at least as much.\<close>

lemma board_row_present:
  assumes "db_inv d" "r \<in> set (likes d)" "like_content r = (ct, cid)"
    and "case since of None \<Rightarrow> True | Some t \<Rightarrow> t \<le> lk_created r" "case filt of None \<Rightarrow> True | Some f \<Rightarrow> ct = f"
  shows "\<exists>n. (ct, cid, n) \<in> set (board_rows filt since d)"
proof (cases since)
  case None
  have "0 < rows_of (ct, cid) d" using assms(2,3) by (auto simp: rows_of_def filter_empty_conv)
  then have "sql_count (ct, cid) d \<noteq> 0" using assms(1) by (simp add: db_inv_count)
  then obtain n where "map_of (like_counts d) (ct, cid) = Some n" by (auto simp: sql_count_def split: option.splits)
  then show ?thesis using None assms(5) by (force simp: board_rows_def dest: map_of_SomeD)
next
  case (Some t)
  then show ?thesis using assms(2-5)
    by (force simp: board_rows_def group_counts_def like_content_def)
qed

lemma board_rows_since:
  assumes inv: "db_inv d" and s: "since_before s' s" and n: "(ct, cid, n) \<in> set (board_rows filt s d)"
  shows "\<exists>m \<ge> n. (ct, cid, m) \<in> set (board_rows filt s' d)"
proof (cases s)
  case None
  with s n show ?thesis by (auto simp: since_before_def split: option.splits)
next
  case (Some t)
  let ?in = "\<lambda>s r. like_content r = (ct, cid) \<and> (case s of None \<Rightarrow> True | Some t \<Rightarrow> t \<le> lk_created r)"
  note c = board_rows_counts [OF inv n]
  have sub: "?in s r \<Longrightarrow> ?in s' r" for r using s by (auto simp: since_before_def split: option.splits)
  obtain r where r: "r \<in> set (likes d)" "?in s r"
    using n Some by (auto simp: board_rows_def group_counts_def)
  obtain m where m: "(ct, cid, m) \<in> set (board_rows filt s' d)"
    using board_row_present [OF inv r(1), of ct cid s' filt] sub [OF r(2)] c by blast
  have "length (filter (?in s) (likes d)) \<le> length (filter (?in s') (likes d))"
    using sub by (intro length_filter_imp)
  then have "n \<le> m" using c board_rows_counts [OF inv m] by simp
  with m show ?thesis by blast
qed

text \<open>Ranks: in a list sorted by falling counts, \<open>v\<close> is reached at rank \<open>i\<close> iff more than \<open>i\<close> rows reach it.\<close>

abbreviation row_count_of :: "string \<times> uuid \<times> int \<Rightarrow> int" where
  "row_count_of \<equiv> (\<lambda>(_, _, n). n)"

definition reaching :: "int \<Rightarrow> (string \<times> uuid \<times> int) list \<Rightarrow> nat" where
  "reaching v rows = length (filter (\<lambda>r. v \<le> row_count_of r) rows)"

lemma reaching_mset: "mset xs = mset ys \<Longrightarrow> reaching v xs = reaching v ys"
  unfolding reaching_def by (metis mset_filter size_mset)

lemma rank_reaching:
  assumes "sorted (map (\<lambda>r. - row_count_of r) xs)" "i < length xs"
  shows "i < reaching (row_count_of (xs ! i)) xs"
proof -
  let ?P = "\<lambda>r. row_count_of (xs ! i) \<le> row_count_of r"
  have "\<forall>r \<in> set (take (Suc i) xs). ?P r"
  proof
    fix r assume "r \<in> set (take (Suc i) xs)"
    then obtain j where "j < Suc i" "r = xs ! j" by (auto simp: in_set_conv_nth)
    then show "?P r" using sorted_nth_mono [OF assms(1), of j i] assms(2) by simp
  qed
  then have "length (filter ?P (take (Suc i) xs)) = Suc i" using assms(2) by (simp add: filter_id_conv [THEN iffD2])
  moreover have "filter ?P xs = filter ?P (take (Suc i) xs) @ filter ?P (drop (Suc i) xs)"
    by (metis append_take_drop_id filter_append)
  ultimately show ?thesis by (simp add: reaching_def)
qed

lemma reaching_rank:
  assumes "sorted (map (\<lambda>r. - row_count_of r) xs)" "i < reaching v xs"
  shows "i < length xs \<and> v \<le> row_count_of (xs ! i)"
proof (rule ccontr)
  let ?P = "\<lambda>r. v \<le> row_count_of r"
  assume no: "\<not> (i < length xs \<and> v \<le> row_count_of (xs ! i))"
  have "\<not> ?P r" if d: "r \<in> set (drop i xs)" for r
  proof -
    obtain j where "j < length (drop i xs)" "r = drop i xs ! j" using d unfolding in_set_conv_nth by blast
    then have "i + j < length xs" "r = xs ! (i + j)" by simp_all
    then show ?thesis using no sorted_nth_mono [OF assms(1), of i "i + j"] by simp
  qed
  then have "filter ?P (drop i xs) = []" by (simp add: filter_empty_conv)
  then have "filter ?P xs = filter ?P (take i xs)" by (metis append_take_drop_id filter_append append_Nil2)
  then have "reaching v xs \<le> i"
    unfolding reaching_def using le_trans [OF length_filter_le, of "take i xs" i ?P] by simp
  with assms(2) show False by simp
qed

lemma reaching_since:
  assumes inv: "db_inv d" and s: "since_before s' s"
  shows "reaching v (board_rows filt s d) \<le> reaching v (board_rows filt s' d)"
proof -
  let ?key = "\<lambda>(ct, cid, n :: int). (ct :: string, cid :: uuid)"
  let ?keys = "\<lambda>s. ?key ` set (filter (\<lambda>r. v \<le> row_count_of r) (board_rows filt s d))"
  have card: "reaching v (board_rows filt s d) = card (?keys s)" for s
    using distinct_card [OF distinct_map_filter [OF board_rows_distinct [OF inv, of filt s], of "\<lambda>r. v \<le> row_count_of r"]]
    by (simp only: reaching_def set_map length_map)
  have "?keys s \<subseteq> ?keys s'"
  proof
    fix k assume "k \<in> ?keys s"
    then obtain n where "(fst k, snd k, n) \<in> set (board_rows filt s d)" "v \<le> n" by auto
    from board_rows_since [OF inv s this(1)] this(2) show "k \<in> ?keys s'" by (cases k) force
  qed
  then show ?thesis unfolding card by (simp add: card_mono)
qed

lemma window_since:
  assumes "a \<le> b"
  shows "since_before (fst (window_start x b w)) (fst (window_start x a w))"
proof (cases "duration_secs b")
  case None
  then show ?thesis by (simp add: window_start_def since_before_def)
next
  case (Some n)
  with longer_window [OF assms] show ?thesis
    by (auto simp: window_start_def since_before_def split: prod.split)
qed

text \<open>C36. A longer window shows no less. Taken at one moment, the board of a longer window has at every rank
  at which the board of a shorter one has an entry an entry with at least as many likes, with or without a
  filter and whatever order the database returns equal rows in.\<close>

theorem longer_windows_dominate:
  assumes "db_inv d" "win \<le> win'" "is_ordering p" "is_ordering p'"
    and "i < length (sql_leaderboard p filt (fst (window_start x win w)) limit d)"
  shows "i < length (sql_leaderboard p' filt (fst (window_start x win' w)) limit d)
    \<and> row_count_of (sql_leaderboard p filt (fst (window_start x win w)) limit d ! i)
        \<le> row_count_of (sql_leaderboard p' filt (fst (window_start x win' w)) limit d ! i)"
proof -
  let ?rows = "\<lambda>win. board_rows filt (fst (window_start x win w)) d"
  let ?by = "\<lambda>p win. sort_key (\<lambda>r. - row_count_of r) (permute_by p (?rows win))"
  have key: "(\<lambda>(_, _, n). - n) = (\<lambda>r :: string \<times> uuid \<times> int. - row_count_of r)" by auto
  have m: "mset (?by q win) = mset (?rows win)" if "is_ordering q" for q win
    using that by (simp add: mset_permute_by)
  have b: "sql_leaderboard q filt (fst (window_start x win w)) limit d = take limit (?by q win)" for q win
    by (simp add: sql_leaderboard_def top_rows_def key)
  have i: "i < length (?by p win)" "i < limit" using assms(5) unfolding b by simp_all
  let ?v = "row_count_of (?by p win ! i)"
  have "i < reaching ?v (?by p win)" using i(1) by (intro rank_reaching) simp_all
  also have "\<dots> = reaching ?v (?rows win)" using m [OF assms(3)] by (rule reaching_mset)
  also have "\<dots> \<le> reaching ?v (?rows win')" by (rule reaching_since [OF assms(1) window_since [OF assms(2)]])
  also have "\<dots> = reaching ?v (?by p' win')" using m [OF assms(4)] by (intro reaching_mset) simp
  finally have "i < length (?by p' win') \<and> ?v \<le> row_count_of (?by p' win' ! i)"
    by (intro reaching_rank) simp_all
  with i show ?thesis unfolding b by simp
qed

text \<open>A day and fifteen nanoseconds after the epoch.\<close>

definition day_later :: sample where
  "day_later = sample_start\<lparr>sm_clock := 15 + 86400 * 10 ^ 9\<rparr>"

theorem longer_windows_dominate_witness:
  "row_count_of (sql_leaderboard (\<lambda>n. [0..<n]) None (fst (window_start sample_off Day day_later)) 1 db_small ! 0)
   \<le> row_count_of (sql_leaderboard (\<lambda>n. rev [0..<n]) None (fst (window_start sample_off Week day_later)) 1 db_small ! 0)"
proof -
  have p: "is_ordering (\<lambda>n. [0..<n])" "is_ordering (\<lambda>n. rev [0..<n])" by (simp_all add: is_ordering_def)
  have "fst (window_start sample_off Day day_later) = Some 15"
    by (simp add: window_start_def sample_ext_def day_later_def)
  then have "0 < length (sql_leaderboard (\<lambda>n. [0..<n]) None (fst (window_start sample_off Day day_later)) 1 db_small)"
    by (simp add: sql_leaderboard_def top_rows_def permute_by_def board_rows_def group_counts_def db_small_def like_content_def)
  from longer_windows_dominate [OF db_small_inv _ p this] show ?thesis
    using less_imp_le [OF windows_in_order(1)] by blast
qed

end
