(* ===== verification/Pubsub.thy ===== *)
theory Pubsub
  imports App
begin

text \<open>
  \<open>social-api/src/services/pubsub_manager.rs\<close>: one bridge task per channel reads Redis Pub/Sub and sends to
  a broadcast channel; subscribers share it. The bridge is a function on what its connection and its
  subscribers do; the shared map of channels is a step relation on concurrent subscribers and bridges.
\<close>

section \<open>The bridge\<close>

text \<open>What a bridge meets: the shutdown token, the receivers of its broadcast channel, the three steps of a
  connection, one round of the \<open>select!\<close>, the broadcast, and an interruptible sleep in milliseconds (\<open>True\<close>:
  the shutdown came first).\<close>

datatype poll = PollShutdown | PollMessage "string option" | PollEnd | PollIdle

record 'w bridge_ext =
  bx_shutdown :: "'w \<Rightarrow> bool \<times> 'w"
  bx_receivers :: "'w \<Rightarrow> nat \<times> 'w"
  bx_open :: "string \<Rightarrow> 'w \<Rightarrow> (string + unit) \<times> 'w"
  bx_connect :: "'w \<Rightarrow> (string + unit) \<times> 'w"
  bx_subscribe :: "string \<Rightarrow> 'w \<Rightarrow> (string + unit) \<times> 'w"
  bx_poll :: "'w \<Rightarrow> poll \<times> 'w"
  bx_send :: "string \<Rightarrow> 'w \<Rightarrow> bool \<times> 'w"
  bx_unsubscribe :: "string \<Rightarrow> 'w \<Rightarrow> 'w"
  bx_sleep :: "nat \<Rightarrow> 'w \<Rightarrow> bool \<times> 'w"

datatype bridge_exit = BridgeShutdown | BridgeNoReceivers | BridgeRedisError string

definition max_reconnect_attempts :: nat where "max_reconnect_attempts = 10"
definition initial_backoff_ms :: nat where "initial_backoff_ms = 500"
definition max_backoff_ms :: nat where "max_backoff_ms = 30000"

text \<open>\<open>INITIAL_BACKOFF * 2u32.saturating_pow(attempt - 1)\<close>, capped.\<close>

definition backoff_ms :: "nat \<Rightarrow> nat" where
  "backoff_ms attempt = min (initial_backoff_ms * min (2 ^ (attempt - 1)) (2 ^ 32 - 1)) max_backoff_ms"

text \<open>One round of the loop of a connection: \<open>Inl\<close> leaves it.\<close>

definition forward_step :: "'w bridge_ext \<Rightarrow> 'w \<Rightarrow> (bridge_exit \<times> 'w) + 'w" where
  "forward_step x w =
     (case bx_receivers x w of (n, w) \<Rightarrow>
       (if n = 0 then Inl (BridgeNoReceivers, w)
        else (case bx_poll x w of
            (PollShutdown, w) \<Rightarrow> Inl (BridgeShutdown, w)
          | (PollMessage (Some payload), w) \<Rightarrow>
              (case bx_send x payload w of
                 (True, w) \<Rightarrow> Inr w
               | (False, w) \<Rightarrow> Inl (BridgeNoReceivers, w))
          | (PollMessage None, w) \<Rightarrow> Inr w
          | (PollEnd, w) \<Rightarrow> Inl (BridgeRedisError ''Stream ended unexpectedly'', w)
          | (PollIdle, w) \<Rightarrow> Inr w)))"

text \<open>The loop may run as long as the process: not returning is \<open>None\<close>.\<close>

partial_function (option) forward_loop :: "'w bridge_ext \<Rightarrow> 'w \<Rightarrow> (bridge_exit \<times> 'w) option" where
  "forward_loop x w = (case forward_step x w of Inl r \<Rightarrow> Some r | Inr w' \<Rightarrow> forward_loop x w')"

definition run_single_connection :: "'w bridge_ext \<Rightarrow> string \<Rightarrow> string \<Rightarrow> 'w \<Rightarrow> (bridge_exit \<times> 'w) option" where
  "run_single_connection x url ch w =
     (case bx_open x url w of
        (Inl e, w) \<Rightarrow> Some (BridgeRedisError (''Client open: '' @ e), w)
      | (Inr _, w) \<Rightarrow>
          (case bx_connect x w of
             (Inl e, w) \<Rightarrow> Some (BridgeRedisError (''Pub/Sub connect: '' @ e), w)
           | (Inr _, w) \<Rightarrow>
               (case bx_subscribe x ch w of
                  (Inl e, w) \<Rightarrow> Some (BridgeRedisError (''Subscribe: '' @ e), w)
                | (Inr _, w) \<Rightarrow> map_option (\<lambda>(r, w). (r, bx_unsubscribe x ch w)) (forward_loop x w))))"

function run_bridge_with_reconnect :: "'w bridge_ext \<Rightarrow> string \<Rightarrow> string \<Rightarrow> nat \<Rightarrow> 'w \<Rightarrow> 'w option" where
  "run_bridge_with_reconnect x url ch attempt w =
     (case bx_shutdown x w of
        (True, w) \<Rightarrow> Some w
      | (False, w) \<Rightarrow>
          (case bx_receivers x w of (n, w) \<Rightarrow>
            (if n = 0 then Some w
             else (case run_single_connection x url ch w of
                 None \<Rightarrow> None
               | Some (BridgeShutdown, w) \<Rightarrow> Some w
               | Some (BridgeNoReceivers, w) \<Rightarrow> Some w
               | Some (BridgeRedisError e, w) \<Rightarrow>
                   (if attempt + 1 > max_reconnect_attempts then Some w
                    else (case bx_sleep x (backoff_ms (attempt + 1)) w of
                        (True, w) \<Rightarrow> Some w
                      | (False, w) \<Rightarrow>
                          (case bx_receivers x w of (n, w) \<Rightarrow>
                            (if n = 0 then Some w
                             else run_bridge_with_reconnect x url ch (attempt + 1) w))))))))"
  by pat_completeness auto
termination
  by (relation "measure (\<lambda>(x, url, ch, attempt, w). max_reconnect_attempts - attempt)") auto

declare run_bridge_with_reconnect.simps [simp del]

section \<open>How long a bridge lives\<close>

definition total_backoff_ms :: "nat \<Rightarrow> nat" where
  "total_backoff_ms attempt = sum_list (map (\<lambda>k. backoff_ms (k + 1)) [attempt..<max_reconnect_attempts])"

lemma total_backoff_ms_step:
  "attempt < max_reconnect_attempts \<Longrightarrow> total_backoff_ms attempt = backoff_ms (attempt + 1) + total_backoff_ms (attempt + 1)"
  by (simp add: total_backoff_ms_def upt_rec [of attempt])

lemma total_backoff_ms_0: "total_backoff_ms 0 = 151500"
  by (simp add: total_backoff_ms_def max_reconnect_attempts_def upt_rec backoff_ms_def initial_backoff_ms_def
      max_backoff_ms_def)

text \<open>Counters of the connections opened and of the milliseconds slept, which nothing else moves.\<close>

definition bridge_counters :: "'w bridge_ext \<Rightarrow> string \<Rightarrow> string \<Rightarrow> ('w \<Rightarrow> nat) \<Rightarrow> ('w \<Rightarrow> nat) \<Rightarrow> bool" where
  "bridge_counters x url ch conns slept \<longleftrightarrow>
     (\<forall>w. conns (snd (bx_shutdown x w)) = conns w \<and> slept (snd (bx_shutdown x w)) = slept w) \<and>
     (\<forall>w. conns (snd (bx_receivers x w)) = conns w \<and> slept (snd (bx_receivers x w)) = slept w) \<and>
     (\<forall>w r w'. run_single_connection x url ch w = Some (r, w') \<longrightarrow> conns w' = conns w + 1 \<and> slept w' = slept w) \<and>
     (\<forall>w ms. conns (snd (bx_sleep x ms w)) = conns w
        \<and> (if fst (bx_sleep x ms w) then slept (snd (bx_sleep x ms w)) \<le> slept w + ms
            else slept (snd (bx_sleep x ms w)) = slept w + ms))"

text \<open>A world in which every connection ends with an error while subscribers stay and nobody shuts down.\<close>

definition always_fails :: "'w bridge_ext \<Rightarrow> string \<Rightarrow> string \<Rightarrow> bool" where
  "always_fails x url ch \<longleftrightarrow>
     (\<forall>w. \<not> fst (bx_shutdown x w)) \<and> (\<forall>w. 0 < fst (bx_receivers x w)) \<and> (\<forall>w ms. \<not> fst (bx_sleep x ms w))
     \<and> (\<forall>w. \<exists>e w'. run_single_connection x url ch w = Some (BridgeRedisError e, w'))"

lemma bridge_run:
  assumes ret: "\<And>w. run_single_connection x url ch w \<noteq> None" and cnt: "bridge_counters x url ch conns slept"
  shows "attempt \<le> max_reconnect_attempts \<Longrightarrow>
     \<exists>w'. run_bridge_with_reconnect x url ch attempt w = Some w'
       \<and> conns w' \<le> conns w + (max_reconnect_attempts + 1 - attempt) \<and> slept w' \<le> slept w + total_backoff_ms attempt
       \<and> (always_fails x url ch \<longrightarrow>
            conns w' = conns w + (max_reconnect_attempts + 1 - attempt) \<and> slept w' = slept w + total_backoff_ms attempt)"
proof (induction "max_reconnect_attempts - attempt" arbitrary: attempt w rule: less_induct)
  case less
  let ?M = max_reconnect_attempts
  obtain b w1 where 1: "bx_shutdown x w = (b, w1)" by fastforce
  obtain n w2 where 2: "bx_receivers x w1 = (n, w2)" by fastforce
  obtain r w3 where 3: "run_single_connection x url ch w2 = Some (r, w3)" using ret [of w2] by auto
  obtain c w4 where 4: "bx_sleep x (backoff_ms (attempt + 1)) w3 = (c, w4)" by fastforce
  obtain m w5 where 5: "bx_receivers x w4 = (m, w5)" by fastforce
  note f = cnt [unfolded bridge_counters_def]
  have c1: "conns w1 = conns w" "slept w1 = slept w" using f 1 by (metis snd_conv)+
  have c2: "conns w2 = conns w" "slept w2 = slept w" using f 2 c1 by (metis snd_conv)+
  have c3: "conns w3 = conns w + 1" "slept w3 = slept w" using f 3 c2 by (metis)+
  have c4: "conns w4 = conns w + 1" "slept w4 \<le> slept w + backoff_ms (attempt + 1)"
      "\<not> c \<Longrightarrow> slept w4 = slept w + backoff_ms (attempt + 1)"
    using f 4 c3 by (metis fst_conv snd_conv order_eq_refl)+
  have c5: "conns w5 = conns w4" "slept w5 = slept w4" using f 5 by (metis snd_conv)+
  have af: "\<not> b \<and> 0 < n \<and> \<not> c \<and> 0 < m \<and> (\<exists>e. r = BridgeRedisError e)" if "always_fails x url ch"
    using that 1 2 3 4 5 unfolding always_fails_def by (metis fst_conv option.inject prod.inject)
  note run = run_bridge_with_reconnect.simps [of x url ch attempt w]
  consider "b \<or> n = 0 \<or> r = BridgeShutdown \<or> r = BridgeNoReceivers"
    | e where "\<not> b" "0 < n" "r = BridgeRedisError e" "attempt = ?M"
    | e where "\<not> b" "0 < n" "r = BridgeRedisError e" "attempt < ?M"
    using less.prems by (cases r) fastforce+
  then show ?case
  proof cases
    case 1
    then have "run_bridge_with_reconnect x url ch attempt w = Some (if b then w1 else if n = 0 then w2 else w3)"
      using run \<open>bx_shutdown x w = (b, w1)\<close> 2 3 by (auto split: bool.splits)
    then show ?thesis using 1 c1 c2 c3 af less.prems by (cases b; cases "n = 0") auto
  next
    case (2 e)
    then have "run_bridge_with_reconnect x url ch attempt w = Some w3"
      using run 1 \<open>bx_receivers x w1 = (n, w2)\<close> 3 by simp
    then show ?thesis using c3 2 by (simp add: total_backoff_ms_def)
  next
    case (3 e)
    note step = total_backoff_ms_step [OF 3(4)]
    have eq: "run_bridge_with_reconnect x url ch attempt w =
        (if c then Some w4 else if m = 0 then Some w5 else run_bridge_with_reconnect x url ch (attempt + 1) w5)"
      using run 1 2 \<open>run_single_connection x url ch w2 = Some (r, w3)\<close> 4 5 3 by simp
    have dec: "?M - (attempt + 1) < ?M - attempt" "attempt + 1 \<le> ?M" using 3(4) by simp_all
    obtain w' where ih: "run_bridge_with_reconnect x url ch (attempt + 1) w5 = Some w'"
      "conns w' \<le> conns w5 + (?M + 1 - (attempt + 1))" "slept w' \<le> slept w5 + total_backoff_ms (attempt + 1)"
      "always_fails x url ch \<longrightarrow> conns w' = conns w5 + (?M + 1 - (attempt + 1))
          \<and> slept w' = slept w5 + total_backoff_ms (attempt + 1)"
      using less.hyps [OF dec, of w5] by blast
    show ?thesis using eq ih c4 c5 af 3(4) step by (cases c; cases "m = 0") auto
  qed
qed

text \<open>C27. A bridge whose connections each end gives up by itself: after at most eleven connections and 151.5
  seconds of backoff it returns. When every connection ends with an error, with subscribers present
  and no shutdown, it is exactly eleven, however long each connection lived and whatever it
  delivered: a successful reconnection does not reset the counter.\<close>

theorem bridge_gives_up:
  assumes "\<And>w. run_single_connection x url ch w \<noteq> None" "bridge_counters x url ch conns slept"
  shows "\<exists>w'. run_bridge_with_reconnect x url ch 0 w = Some w'
       \<and> conns w' \<le> conns w + 11 \<and> slept w' \<le> slept w + 151500
       \<and> (always_fails x url ch \<longrightarrow> conns w' = conns w + 11 \<and> slept w' = slept w + 151500)"
  using bridge_run [OF assms, of 0 w, unfolded total_backoff_ms_0]
  by (simp add: max_reconnect_attempts_def add.commute [of 11])

text \<open>A Redis that accepts every connection, delivers one message and closes.\<close>

definition flaky_bridge :: "(nat \<times> nat \<times> bool) bridge_ext" where
  "flaky_bridge =
     \<lparr>bx_shutdown = \<lambda>w. (False, w), bx_receivers = \<lambda>w. (1, w),
      bx_open = \<lambda>u w. (Inr (), w), bx_connect = \<lambda>w. (Inr (), w),
      bx_subscribe = \<lambda>c (n, t, _). (Inr (), n + 1, t, False),
      bx_poll = \<lambda>(n, t, got). (if got then PollEnd else PollMessage (Some ''m''), n, t, True),
      bx_send = \<lambda>p w. (True, w), bx_unsubscribe = \<lambda>c w. w, bx_sleep = \<lambda>ms (n, t, g). (False, n, t + ms, g)\<rparr>"

theorem bridge_gives_up_witness:
  "map_option (\<lambda>(n, t, g). (n, t)) (run_bridge_with_reconnect flaky_bridge [] ''c'' 0 (0, 0, False)) = Some (11, 151500)"
proof -
  have c: "run_single_connection flaky_bridge u ch (n, t, g) =
      Some (BridgeRedisError ''Stream ended unexpectedly'', n + 1, t, True)" for u ch n t g
    by (simp add: run_single_connection_def flaky_bridge_def forward_loop.simps forward_step_def)
  then have c': "run_single_connection flaky_bridge u ch w =
      Some (BridgeRedisError ''Stream ended unexpectedly'', fst w + 1, fst (snd w), True)" for u ch w
    by (metis prod.collapse)
  have "bridge_counters flaky_bridge [] ''c'' fst (\<lambda>w. fst (snd w))"
    unfolding bridge_counters_def c' by (auto simp: flaky_bridge_def)
  moreover have "always_fails flaky_bridge [] ''c''"
    unfolding always_fails_def c' by (auto simp: flaky_bridge_def)
  ultimately show ?thesis
    using bridge_gives_up [of flaky_bridge "[]" "''c''" fst "\<lambda>w. fst (snd w)" "(0, 0, False)"] c'
    by auto
qed

section \<open>The shared map\<close>

text \<open>The bridge task of a sender is about to be spawned, runs, has returned, has found its own sender in its
  map and will remove the entry, or is gone. A subscriber has not called yet, has found an entry nobody
  listens to, is about to insert, has inserted and will spawn the bridge, or holds a receiver of a sender.\<close>

datatype bridge_state = NotSpawned | Running | Exited | Removing | Gone

datatype subscriber =
  NotCalled | Stale string | Inserting string | Spawning string nat | Listening string nat | Left

text \<open>\<open>hb_channels\<close> is the map of the manager. A bridge task cleans up in \<open>self.inner.channels.clone()\<close>:
  \<open>DashMap::clone\<close> copies the entries, so that \<open>hb_copy\<close> is a map of its own.\<close>

record hub =
  hb_channels :: "string \<Rightarrow> nat option"
  hb_copy :: "nat \<Rightarrow> string \<Rightarrow> nat option"
  hb_name :: "nat \<Rightarrow> string"
  hb_bridge :: "nat \<Rightarrow> bridge_state"
  hb_next :: nat
  hb_subs :: "subscriber list"

definition hub_new :: "nat \<Rightarrow> hub" where
  "hub_new n = \<lparr>hb_channels = (\<lambda>_. None), hb_copy = (\<lambda>_ _. None), hb_name = (\<lambda>_. []), hb_bridge = (\<lambda>_. Gone), hb_next = 0,
     hb_subs = replicate n NotCalled\<rparr>"

text \<open>The receiver exists from the creation of the channel on.\<close>

fun listens_to :: "nat \<Rightarrow> subscriber \<Rightarrow> bool" where
  "listens_to s (Listening _ s') = (s = s')"
| "listens_to s (Spawning _ s') = (s = s')"
| "listens_to s _ = False"

definition receiver_count :: "hub \<Rightarrow> nat \<Rightarrow> nat" where
  "receiver_count h s = length (filter (listens_to s) (hb_subs h))"

definition sub_moves :: "nat \<Rightarrow> subscriber \<Rightarrow> hub \<Rightarrow> hub" where
  "sub_moves t p h = h\<lparr>hb_subs := (hb_subs h)[t := p]\<rparr>"

definition sub_is :: "hub \<Rightarrow> nat \<Rightarrow> subscriber \<Rightarrow> bool" where
  "sub_is h t p \<longleftrightarrow> t < length (hb_subs h) \<and> hb_subs h ! t = p"

definition set_channel :: "string \<Rightarrow> nat option \<Rightarrow> hub \<Rightarrow> hub" where
  "set_channel ch s h = h\<lparr>hb_channels := (hb_channels h)(ch := s)\<rparr>"

definition set_bridge :: "nat \<Rightarrow> bridge_state \<Rightarrow> hub \<Rightarrow> hub" where
  "set_bridge s b h = h\<lparr>hb_bridge := (hb_bridge h)(s := b)\<rparr>"

definition set_copy :: "nat \<Rightarrow> (string \<Rightarrow> nat option) \<Rightarrow> hub \<Rightarrow> hub" where
  "set_copy s m h = h\<lparr>hb_copy := (hb_copy h)(s := m)\<rparr>"

text \<open>The \<open>Vacant\<close> arm: a new sender under the channel; then its task, with its copy of the map.\<close>

definition insert_sender :: "string \<Rightarrow> hub \<Rightarrow> hub" where
  "insert_sender ch h = h\<lparr>hb_channels := (hb_channels h)(ch := Some (hb_next h)),
     hb_name := (hb_name h)(hb_next h := ch), hb_bridge := (hb_bridge h)(hb_next h := NotSpawned),
     hb_next := Suc (hb_next h)\<rparr>"

definition spawn_bridge :: "nat \<Rightarrow> hub \<Rightarrow> hub" where
  "spawn_bridge s h = set_bridge s Running (set_copy s (hb_channels h) h)"

text \<open>A step of a subscriber or of a bridge task. A subscriber that finds a stale entry releases it before
  it removes the key: whatever the key then holds goes.\<close>

inductive hub_step :: "hub \<Rightarrow> hub \<Rightarrow> bool" where
  reuse: "sub_is h t NotCalled \<Longrightarrow> hb_channels h ch = Some s \<Longrightarrow> 0 < receiver_count h s \<Longrightarrow>
     hub_step h (sub_moves t (Listening ch s) h)"
| found_stale: "sub_is h t NotCalled \<Longrightarrow> hb_channels h ch = Some s \<Longrightarrow> receiver_count h s = 0 \<Longrightarrow>
     hub_step h (sub_moves t (Stale ch) h)"
| found_none: "sub_is h t NotCalled \<Longrightarrow> hb_channels h ch = None \<Longrightarrow>
     hub_step h (sub_moves t (Inserting ch) h)"
| remove_stale: "sub_is h t (Stale ch) \<Longrightarrow>
     hub_step h (sub_moves t (Inserting ch) (set_channel ch None h))"
| occupied: "sub_is h t (Inserting ch) \<Longrightarrow> hb_channels h ch = Some s \<Longrightarrow>
     hub_step h (sub_moves t (Listening ch s) h)"
| vacant: "sub_is h t (Inserting ch) \<Longrightarrow> hb_channels h ch = None \<Longrightarrow>
     hub_step h (sub_moves t (Spawning ch (hb_next h)) (insert_sender ch h))"
| spawn: "sub_is h t (Spawning ch s) \<Longrightarrow> hub_step h (sub_moves t (Listening ch s) (spawn_bridge s h))"
| leave: "sub_is h t (Listening ch s) \<Longrightarrow> hub_step h (sub_moves t Left h)"
| bridge_returns: "hb_bridge h s = Running \<Longrightarrow> hub_step h (set_bridge s Exited h)"
| same_channel: "hb_bridge h s = Exited \<Longrightarrow> hb_copy h s (hb_name h s) = Some s \<Longrightarrow>
     hub_step h (set_bridge s Removing h)"
| other_channel: "hb_bridge h s = Exited \<Longrightarrow> hb_copy h s (hb_name h s) \<noteq> Some s \<Longrightarrow>
     hub_step h (set_bridge s Gone h)"
| remove_own: "hb_bridge h s = Removing \<Longrightarrow>
     hub_step h (set_bridge s Gone (set_copy s ((hb_copy h s)(hb_name h s := None)) h))"

definition hub_reach :: "nat \<Rightarrow> hub \<Rightarrow> bool" where
  "hub_reach n h \<longleftrightarrow> hub_step\<^sup>*\<^sup>* (hub_new n) h"

text \<open>A broadcast channel closes when its last sender is dropped: those in the map, of its task, of the
  subscriber that spawns the task, and in the copies of the tasks that have not ended.\<close>

definition sender_dropped :: "hub \<Rightarrow> nat \<Rightarrow> bool" where
  "sender_dropped h s \<longleftrightarrow> hb_bridge h s = Gone \<and> (\<forall>ch. hb_channels h ch \<noteq> Some s)
     \<and> (\<forall>b ch. hb_bridge h b \<noteq> Gone \<longrightarrow> hb_copy h b ch \<noteq> Some s)"

definition hub_inv :: "hub \<Rightarrow> bool" where
  "hub_inv h \<longleftrightarrow>
     (\<forall>ch s. hb_channels h ch = Some s \<longrightarrow> s < hb_next h \<and> hb_name h s = ch) \<and>
     (\<forall>ch s. Listening ch s \<in> set (hb_subs h) \<or> Spawning ch s \<in> set (hb_subs h) \<longrightarrow> s < hb_next h \<and> hb_name h s = ch) \<and>
     (\<forall>s. hb_bridge h s = NotSpawned \<longrightarrow> (\<exists>t. sub_is h t (Spawning (hb_name h s) s)))"

lemmas hub_defs = sub_moves_def sub_is_def set_channel_def set_bridge_def set_copy_def insert_sender_def spawn_bridge_def

lemma hub_invD:
  assumes "hub_inv h"
  shows "hb_channels h ch = Some s \<Longrightarrow> s < hb_next h \<and> hb_name h s = ch"
    and "Listening ch s \<in> set (hb_subs h) \<Longrightarrow> s < hb_next h \<and> hb_name h s = ch"
    and "Spawning ch s \<in> set (hb_subs h) \<Longrightarrow> s < hb_next h \<and> hb_name h s = ch"
    and "hb_bridge h s = NotSpawned \<Longrightarrow> \<exists>t. sub_is h t (Spawning (hb_name h s) s)"
  using assms by (simp_all add: hub_inv_def)

lemma hub_inv_new: "hub_inv (hub_new n)"
  by (simp add: hub_inv_def hub_new_def)

text \<open>A subscriber that does not leave a bridge unspawned moves.\<close>

lemma hub_inv_moves:
  assumes inv: "hub_inv h"
    and p: "\<And>ch s. p = Listening ch s \<or> p = Spawning ch s \<Longrightarrow> s < hb_next h \<and> hb_name h s = ch"
    and t: "\<And>ch s. sub_is h t (Spawning ch s) \<Longrightarrow> hb_bridge h s \<noteq> NotSpawned \<or> p = Spawning ch s"
  shows "hub_inv (sub_moves t p h)"
proof -
  have subs: "q \<in> set ((hb_subs h)[t := p]) \<Longrightarrow> q \<in> set (hb_subs h) \<or> q = p" for q
    using set_update_subset_insert [of "hb_subs h" t p] by blast
  have "\<exists>t'. sub_is (sub_moves t p h) t' (Spawning (hb_name h s) s)" if n: "hb_bridge h s = NotSpawned" for s
  proof -
    obtain t' where t': "sub_is h t' (Spawning (hb_name h s) s)" using hub_invD(4) [OF inv n] by blast
    show ?thesis
    proof (cases "t' = t")
      case True
      with t [of "hb_name h s" s] t' n have "p = Spawning (hb_name h s) s" by blast
      then show ?thesis using t' True by (auto simp: sub_is_def sub_moves_def)
    next
      case False
      then show ?thesis using t' by (auto simp: sub_is_def sub_moves_def)
    qed
  qed
  then show ?thesis
    using hub_invD(1-3) [OF inv] p unfolding hub_inv_def by (auto simp: sub_moves_def dest!: subs)
qed

lemma hub_inv_bridge: "hub_inv h \<Longrightarrow> b \<noteq> NotSpawned \<Longrightarrow> hub_inv (set_bridge s b h)"
  by (auto simp: hub_inv_def set_bridge_def sub_is_def)

lemma hub_inv_copy [simp]: "hub_inv (set_copy s m h) = hub_inv h"
  by (simp add: hub_inv_def set_copy_def sub_is_def)

lemma hub_inv_step: "hub_step h h' \<Longrightarrow> hub_inv h \<Longrightarrow> hub_inv h'"
proof (induction rule: hub_step.induct)
  case (remove_stale h t ch)
  then have "hub_inv (set_channel ch None h)"
    by (auto simp: hub_inv_def set_channel_def sub_is_def)
  then show ?case
    by (rule hub_inv_moves) (use remove_stale in \<open>auto simp: set_channel_def sub_is_def\<close>)
next
  case (vacant h t ch)
  let ?n = "hb_next h" and ?h = "sub_moves t (Spawning ch (hb_next h)) (insert_sender ch h)"
  have subs: "q \<in> set (hb_subs ?h) \<Longrightarrow> q \<in> set (hb_subs h) \<or> q = Spawning ch ?n" for q
    using set_update_subset_insert [of "hb_subs h" t "Spawning ch ?n"] by (auto simp: hub_defs)
  have names: "hb_next ?h = Suc ?n" "hb_name ?h s = (if s = ?n then ch else hb_name h s)" for s
    by (simp_all add: hub_defs)
  show ?case unfolding hub_inv_def
  proof (intro conjI allI impI)
    fix c s assume "hb_channels ?h c = Some s"
    then have "c = ch \<and> s = ?n \<or> hb_channels h c = Some s" by (auto simp: hub_defs split: if_splits)
    then show "s < hb_next ?h" "hb_name ?h s = c" using hub_invD(1) [OF vacant(3), of c s] by (auto simp: names)
  next
    fix c s assume "Listening c s \<in> set (hb_subs ?h) \<or> Spawning c s \<in> set (hb_subs ?h)"
    then have "c = ch \<and> s = ?n \<or> Listening c s \<in> set (hb_subs h) \<or> Spawning c s \<in> set (hb_subs h)"
      using subs by blast
    then show "s < hb_next ?h" "hb_name ?h s = c"
      using hub_invD(2,3) [OF vacant(3), of c s] by (auto simp: names)
  next
    fix s assume n: "hb_bridge ?h s = NotSpawned"
    show "\<exists>t'. sub_is ?h t' (Spawning (hb_name ?h s) s)"
    proof (cases "s = ?n")
      case True
      then have "sub_is ?h t (Spawning (hb_name ?h s) s)" using vacant(1) by (simp add: hub_defs)
      then show ?thesis by blast
    next
      case False
      then have "hb_bridge h s = NotSpawned" using n by (simp add: hub_defs)
      then obtain t' where t': "sub_is h t' (Spawning (hb_name h s) s)" using hub_invD(4) [OF vacant(3)] by blast
      then have "t' \<noteq> t" using vacant(1) by (auto simp: sub_is_def)
      then have "sub_is ?h t' (Spawning (hb_name ?h s) s)" using t' False by (simp add: hub_defs)
      then show ?thesis by blast
    qed
  qed
next
  case (spawn h t ch s)
  have n: "s < hb_next h" "hb_name h s = ch"
    using spawn(1) hub_invD(3) [OF spawn(2), of ch s] by (metis nth_mem sub_is_def)+
  have "hub_inv (spawn_bridge s h)" using spawn(2) by (simp add: spawn_bridge_def hub_inv_bridge)
  then show ?case
    by (rule hub_inv_moves) (use spawn(1) n in \<open>auto simp: hub_defs\<close>)
next
  case (reuse h t ch s)
  then show ?case by (intro hub_inv_moves) (auto simp: sub_is_def dest: hub_invD)
next
  case (found_stale h t ch s)
  then show ?case by (intro hub_inv_moves) (auto simp: sub_is_def)
next
  case (found_none h t ch)
  then show ?case by (intro hub_inv_moves) (auto simp: sub_is_def)
next
  case (occupied h t ch s)
  then show ?case by (intro hub_inv_moves) (auto simp: sub_is_def dest: hub_invD)
next
  case (leave h t ch s)
  then show ?case by (intro hub_inv_moves) (auto simp: sub_is_def)
qed (simp_all add: hub_inv_bridge)

lemma hub_inv_reach: "hub_reach n h \<Longrightarrow> hub_inv h"
  unfolding hub_reach_def by (induction rule: rtranclp_induct) (auto intro: hub_inv_new hub_inv_step)

text \<open>C37. Subscribers get the channel they asked for: under every interleaving of subscribers and bridge tasks, a
  receiver handed out for a channel belongs to a sender made for that channel, which is the channel its
  bridge reads; so does every entry of the map; and a bridge that has not been spawned yet has a subscriber
  that is about to spawn it.\<close>

theorem pubsub_routing:
  assumes "hub_reach n h"
  shows "(Listening ch s \<in> set (hb_subs h) \<longrightarrow> hb_name h s = ch)
       \<and> (hb_channels h ch = Some s \<longrightarrow> hb_name h s = ch)
       \<and> (hb_bridge h s = NotSpawned \<longrightarrow> (\<exists>t. sub_is h t (Spawning (hb_name h s) s)))"
  using hub_inv_reach [OF assms] unfolding hub_inv_def by blast

lemma hub_reach_new [simp]: "hub_reach n (hub_new n)"
  by (simp add: hub_reach_def)

lemma hub_reach_step: "hub_reach n h \<Longrightarrow> hub_step h h' \<Longrightarrow> hub_reach n h'"
  unfolding hub_reach_def by (rule rtranclp.rtrancl_into_rtrancl)

text \<open>The state after a first subscriber of channel \<open>c\<close>, out of three callers.\<close>

definition hub_one :: hub where
  "hub_one = sub_moves 0 (Listening ''c'' 0) (spawn_bridge 0
     (sub_moves 0 (Spawning ''c'' 0) (insert_sender ''c'' (sub_moves 0 (Inserting ''c'') (hub_new 3)))))"

lemma hub_one_reach: "hub_reach 3 hub_one"
proof -
  let ?h1 = "sub_moves 0 (Inserting ''c'') (hub_new 3)"
  let ?h2 = "sub_moves 0 (Spawning ''c'' 0) (insert_sender ''c'' ?h1)"
  have "hub_step (hub_new 3) ?h1" by (rule found_none) (simp_all add: hub_defs hub_new_def)
  moreover have "hub_step ?h1 ?h2" using vacant [of ?h1 0 "''c''"] by (simp add: hub_defs hub_new_def)
  moreover have "hub_step ?h2 hub_one"
    unfolding hub_one_def by (rule spawn) (simp add: hub_defs hub_new_def)
  ultimately show ?thesis by (blast intro: hub_reach_step hub_reach_new)
qed

theorem pubsub_routing_witness: "hb_name hub_one 0 = ''c''"
  using pubsub_routing [OF hub_one_reach, of "''c''" 0] by (simp add: hub_one_def hub_defs hub_new_def)

section \<open>A dead entry\<close>

text \<open>The entry of a bridge that is gone, with a listener \<open>t\<close> and nobody about to remove the key.\<close>

definition dead_entry :: "nat \<Rightarrow> string \<Rightarrow> nat \<Rightarrow> hub \<Rightarrow> bool" where
  "dead_entry t ch s h \<longleftrightarrow> hb_channels h ch = Some s \<and> hb_bridge h s = Gone \<and> s < hb_next h
     \<and> Stale ch \<notin> set (hb_subs h) \<and> Spawning ch s \<notin> set (hb_subs h) \<and> sub_is h t (Listening ch s)"

text \<open>A caller that gets the channel gets that sender.\<close>

definition gets_dead :: "string \<Rightarrow> nat \<Rightarrow> nat \<Rightarrow> hub \<Rightarrow> bool" where
  "gets_dead ch s u h \<longleftrightarrow> (\<forall>s'. \<not> sub_is h u (Spawning ch s') \<and> (sub_is h u (Listening ch s') \<longrightarrow> s' = s))"

lemma listener_count: "sub_is h t (Listening ch s) \<Longrightarrow> 0 < receiver_count h s"
  unfolding receiver_count_def sub_is_def by (metis filter_empty_conv length_greater_0_conv listens_to.simps(1) nth_mem)

lemma sub_is_moves: "sub_is (sub_moves t p h) u q \<longleftrightarrow> (if u = t then t < length (hb_subs h) \<and> q = p else sub_is h u q)"
  by (auto simp: sub_is_def sub_moves_def)

lemma in_subs_moves: "q \<in> set (hb_subs (sub_moves t p h)) \<Longrightarrow> q = p \<or> q \<in> set (hb_subs h)"
  using set_update_subset_insert [of "hb_subs h" t p] by (auto simp: sub_moves_def)

lemma hub_same [simp]:
  "hb_channels (sub_moves t p h) = hb_channels h" "hb_bridge (sub_moves t p h) = hb_bridge h" "hb_next (sub_moves t p h) = hb_next h"
  "hb_channels (set_bridge b x h) = hb_channels h" "hb_subs (set_bridge b x h) = hb_subs h" "hb_next (set_bridge b x h) = hb_next h"
  "hb_channels (set_copy b m h) = hb_channels h" "hb_subs (set_copy b m h) = hb_subs h" "hb_next (set_copy b m h) = hb_next h"
  "hb_bridge (set_copy b m h) = hb_bridge h" "hb_subs (set_channel c y h) = hb_subs h" "hb_bridge (set_channel c y h) = hb_bridge h"
  "hb_next (set_channel c y h) = hb_next h" "hb_subs (insert_sender c h) = hb_subs h"
  "sub_is (set_bridge b x h) t p = sub_is h t p" "sub_is (set_copy b m h) t p = sub_is h t p"
  "sub_is (set_channel c y h) t p = sub_is h t p" "sub_is (insert_sender c h) t p = sub_is h t p"
  by (simp_all add: hub_defs)

lemma hub_changed:
  "hb_channels (set_channel c y h) k = (if k = c then y else hb_channels h k)"
  "hb_channels (insert_sender c h) k = (if k = c then Some (hb_next h) else hb_channels h k)"
  "hb_bridge (insert_sender c h) b = (if b = hb_next h then NotSpawned else hb_bridge h b)"
  "hb_bridge (set_bridge s' x h) b = (if b = s' then x else hb_bridge h b)"
  "hb_next (insert_sender c h) = Suc (hb_next h)"
  by (simp_all add: hub_defs)

text \<open>A move of one subscriber that keeps both.\<close>

lemma dead_moves:
  assumes "dead_entry t ch s h" "sub_is (sub_moves t' p h) t (Listening ch s)"
    and "p \<noteq> Stale ch" "\<And>s'. p \<noteq> Spawning ch s'" "\<And>s'. p = Listening ch s' \<Longrightarrow> s' = s"
  shows "dead_entry t ch s (sub_moves t' p h) \<and> (gets_dead ch s u h \<longrightarrow> gets_dead ch s u (sub_moves t' p h))"
proof
  have "Stale ch \<notin> set (hb_subs (sub_moves t' p h))" "Spawning ch s \<notin> set (hb_subs (sub_moves t' p h))"
    using assms(1,3,4) in_subs_moves unfolding dead_entry_def by metis+
  then show "dead_entry t ch s (sub_moves t' p h)" using assms(1,2) by (simp add: dead_entry_def)
  show "gets_dead ch s u h \<longrightarrow> gets_dead ch s u (sub_moves t' p h)"
    using assms(4,5) unfolding gets_dead_def sub_is_moves by metis
qed

lemma dead_entry_subs:
  assumes "hb_subs h' = hb_subs h" "hb_channels h' ch = hb_channels h ch" "hb_bridge h' s = hb_bridge h s" "hb_next h \<le> hb_next h'"
  shows "dead_entry t ch s h \<Longrightarrow> dead_entry t ch s h'"
  using assms by (simp add: dead_entry_def sub_is_def)

lemma dead_entry_step:
  assumes "hub_step h h'" "hub_inv h" "dead_entry t ch s h" "sub_is h' t (Listening ch s)"
  shows "dead_entry t ch s h' \<and> (gets_dead ch s u h \<longrightarrow> gets_dead ch s u h')"
  using assms
proof (induction rule: hub_step.induct)
  case (reuse h t' c s')
  then show ?case by (intro dead_moves) (auto simp: dead_entry_def)
next
  case (found_stale h t' c s')
  then have "c \<noteq> ch" using listener_count [of h t ch s] by (auto simp: dead_entry_def)
  then show ?case using found_stale by (intro dead_moves) simp_all
next
  case (found_none h t' c)
  then show ?case by (intro dead_moves) simp_all
next
  case (remove_stale h t' c)
  have c: "c \<noteq> ch" using remove_stale(1,3) unfolding dead_entry_def sub_is_def by (metis nth_mem)
  have "dead_entry t ch s (set_channel c None h)"
    by (rule dead_entry_subs [OF _ _ _ _ remove_stale(3)]) (use c in \<open>simp_all add: hub_changed\<close>)
  then have "dead_entry t ch s (sub_moves t' (Inserting c) (set_channel c None h)) \<and>
      (gets_dead ch s u (set_channel c None h) \<longrightarrow> gets_dead ch s u (sub_moves t' (Inserting c) (set_channel c None h)))"
    using remove_stale(4) by (rule dead_moves) simp_all
  then show ?case by (simp add: gets_dead_def)
next
  case (occupied h t' c s')
  then show ?case by (intro dead_moves) (auto simp: dead_entry_def)
next
  case (vacant h t' c)
  then have c: "c \<noteq> ch" by (auto simp: dead_entry_def)
  have "dead_entry t ch s (insert_sender c h)"
    by (rule dead_entry_subs [OF _ _ _ _ vacant(4)]) (use c vacant(4) in \<open>auto simp: hub_changed dead_entry_def\<close>)
  then have "dead_entry t ch s (sub_moves t' (Spawning c (hb_next h)) (insert_sender c h)) \<and>
      (gets_dead ch s u (insert_sender c h) \<longrightarrow>
       gets_dead ch s u (sub_moves t' (Spawning c (hb_next h)) (insert_sender c h)))"
    using vacant(5) by (rule dead_moves) (use c in simp_all)
  then show ?case by (simp add: gets_dead_def)
next
  case (spawn h t' c s')
  have n: "hb_name h s' = c" using spawn(1) hub_invD(3) [OF spawn(2), of c s'] by (metis nth_mem sub_is_def)
  have "hb_name h s = ch" using hub_invD(1) [OF spawn(2)] spawn(3) by (auto simp: dead_entry_def)
  then have s: "s' \<noteq> s" using spawn(1,3) n unfolding dead_entry_def sub_is_def by (metis nth_mem)
  have d: "dead_entry t ch s (spawn_bridge s' h)"
    by (rule dead_entry_subs [OF _ _ _ _ spawn(3)]) (use s in \<open>simp_all add: spawn_bridge_def hub_changed\<close>)
  show ?case
  proof (cases "c = ch")
    case False
    then have "dead_entry t ch s (sub_moves t' (Listening c s') (spawn_bridge s' h)) \<and>
        (gets_dead ch s u (spawn_bridge s' h) \<longrightarrow> gets_dead ch s u (sub_moves t' (Listening c s') (spawn_bridge s' h)))"
      using d spawn(4) by (intro dead_moves) simp_all
    then show ?thesis by (simp add: gets_dead_def spawn_bridge_def)
  next
    case True
    then show ?thesis using d s spawn
      by (auto simp: gets_dead_def dead_entry_def sub_is_moves spawn_bridge_def dest!: in_subs_moves split: if_splits)
  qed
next
  case (leave h t' c s')
  then show ?case by (intro dead_moves) simp_all
qed (auto simp: dead_entry_def gets_dead_def hub_changed)

lemma listener_step:
  "hub_step h h' \<Longrightarrow> sub_is h t (Listening ch s) \<Longrightarrow> sub_is h' t (Listening ch s) \<or> sub_is h' t Left"
  "hub_step h h' \<Longrightarrow> sub_is h t Left \<Longrightarrow> sub_is h' t Left"
  by (induction rule: hub_step.induct) (auto simp: sub_is_moves spawn_bridge_def, auto simp: sub_is_def)

lemma dead_entry_run:
  assumes "hub_step\<^sup>*\<^sup>* h h'" "hub_inv h" "dead_entry t ch s h"
  shows "sub_is h' t Left \<or> (hub_inv h' \<and> dead_entry t ch s h' \<and> (gets_dead ch s u h \<longrightarrow> gets_dead ch s u h'))"
  using assms(1)
proof (induction rule: rtranclp_induct)
  case base
  then show ?case using assms by blast
next
  case (step h1 h2)
  show ?case
  proof (cases "sub_is h1 t Left")
    case True
    then show ?thesis using listener_step(2) [OF step(2)] by blast
  next
    case False
    then have h1: "hub_inv h1" "dead_entry t ch s h1" "gets_dead ch s u h \<longrightarrow> gets_dead ch s u h1" using step by blast+
    then have "sub_is h2 t (Listening ch s) \<or> sub_is h2 t Left"
      using listener_step(1) [OF step(2), of t ch s] by (simp add: dead_entry_def)
    then show ?thesis using dead_entry_step [OF step(2) h1(1,2), of u] h1(3) hub_inv_step [OF step(2) h1(1)] by blast
  qed
qed

text \<open>C28. A bridge that gives up leaves its channel dead. The finished bridge removes its entry only from its own
  copy of the map. So from any reachable state in which the bridge of an entry is gone while a listener \<open>t\<close>
  still waits (and no caller is about to remove the key), as long as \<open>t\<close> stays the entry stays too, its
  sender is never dropped, so that \<open>t\<close> does not see its channel closed, and every caller that subscribes to
  the channel from then on is handed that sender, which nobody feeds.\<close>

theorem pubsub_dead_channel:
  assumes "hub_reach n h" "dead_entry t ch s h" "hub_step\<^sup>*\<^sup>* h h'" "sub_is h' t (Listening ch s)"
  shows "hb_channels h' ch = Some s \<and> hb_bridge h' s = Gone \<and> \<not> sender_dropped h' s
       \<and> (sub_is h u NotCalled \<and> sub_is h' u (Listening ch s') \<longrightarrow> s' = s)"
proof -
  have "\<not> sub_is h' t Left" using assms(4) by (simp add: sub_is_def)
  then have d: "dead_entry t ch s h'" "gets_dead ch s u h \<longrightarrow> gets_dead ch s u h'"
    using dead_entry_run [OF assms(3) hub_inv_reach [OF assms(1)] assms(2), of u] by blast+
  moreover have "sub_is h u NotCalled \<longrightarrow> gets_dead ch s u h" by (auto simp: gets_dead_def sub_is_def)
  ultimately show ?thesis unfolding dead_entry_def sender_dropped_def gets_dead_def by blast
qed

text \<open>One listener, the bridge finished; then a second caller.\<close>

definition hub_dead :: hub where
  "hub_dead = set_bridge 0 Gone (set_copy 0 ((hb_copy hub_one 0)(''c'' := None)) (set_bridge 0 Removing (set_bridge 0 Exited hub_one)))"

lemmas hub_one_defs = hub_one_def hub_defs hub_new_def receiver_count_def numeral_eq_Suc

lemma hub_dead_reach: "hub_reach 3 hub_dead"
proof -
  have "hub_step hub_one (set_bridge 0 Exited hub_one)" by (rule bridge_returns) (simp add: hub_one_defs)
  moreover have "hub_step (set_bridge 0 Exited hub_one) (set_bridge 0 Removing (set_bridge 0 Exited hub_one))"
    by (rule same_channel) (simp_all add: hub_one_defs)
  moreover have "hub_step (set_bridge 0 Removing (set_bridge 0 Exited hub_one)) hub_dead"
    using remove_own [of "set_bridge 0 Removing (set_bridge 0 Exited hub_one)" 0]
    by (simp add: hub_dead_def) (simp add: hub_one_defs)
  ultimately show ?thesis using hub_one_reach by (blast intro: hub_reach_step)
qed

theorem pubsub_dead_channel_witness:
  "\<not> sender_dropped (sub_moves 1 (Listening ''c'' 0) hub_dead) 0"
proof -
  have dead: "dead_entry 0 ''c'' 0 hub_dead" by (simp add: dead_entry_def hub_dead_def hub_one_defs)
  have "hub_step hub_dead (sub_moves 1 (Listening ''c'' 0) hub_dead)"
    by (rule reuse) (simp_all add: hub_dead_def hub_one_defs)
  then have "hub_step\<^sup>*\<^sup>* hub_dead (sub_moves 1 (Listening ''c'' 0) hub_dead)" by blast
  from pubsub_dead_channel [OF hub_dead_reach dead this] show ?thesis by (simp add: hub_dead_def hub_one_defs)
qed

text \<open>The map does not keep one bridge per channel: a subscriber that found a stale entry removes the key
  after another has already replaced the entry, so two bridges of one channel can run side by side,
  each with its own listener.\<close>

theorem pubsub_two_bridges:
  "\<exists>h. hub_reach 3 h \<and> Listening ''c'' 1 \<in> set (hb_subs h) \<and> Listening ''c'' 2 \<in> set (hb_subs h)
     \<and> hb_name h 1 = ''c'' \<and> hb_bridge h 1 = Running \<and> hb_name h 2 = ''c'' \<and> hb_bridge h 2 = Running"
proof -
  let ?h1 = "sub_moves 0 Left hub_one"
  let ?h2 = "sub_moves 2 (Stale ''c'') (sub_moves 1 (Stale ''c'') ?h1)"
  let ?h3 = "sub_moves 1 (Inserting ''c'') (set_channel ''c'' None ?h2)"
  let ?h4 = "sub_moves 1 (Spawning ''c'' 1) (insert_sender ''c'' ?h3)"
  let ?h5 = "sub_moves 1 (Listening ''c'' 1) (spawn_bridge 1 ?h4)"
  let ?h6 = "sub_moves 2 (Inserting ''c'') (set_channel ''c'' None ?h5)"
  let ?h7 = "sub_moves 2 (Spawning ''c'' 2) (insert_sender ''c'' ?h6)"
  let ?h8 = "sub_moves 2 (Listening ''c'' 2) (spawn_bridge 2 ?h7)"
  have "hub_reach 3 ?h1"
    by (rule hub_reach_step [OF hub_one_reach], rule leave [of _ _ "''c''" 0]) (simp add: hub_one_defs)
  then have "hub_reach 3 (sub_moves 1 (Stale ''c'') ?h1)"
    by (rule hub_reach_step, intro found_stale [of _ _ "''c''" 0]) (simp_all add: hub_one_defs)
  then have "hub_reach 3 ?h2"
    by (rule hub_reach_step, intro found_stale [of _ _ "''c''" 0]) (simp_all add: hub_one_defs)
  then have "hub_reach 3 ?h3"
    by (rule hub_reach_step, intro remove_stale) (simp_all add: hub_one_defs)
  moreover have "hb_next ?h3 = 1" by (simp add: hub_one_defs)
  ultimately have "hub_reach 3 ?h4"
    using hub_reach_step [OF _ vacant [of ?h3 1 "''c''"]] by (simp add: hub_one_defs)
  then have "hub_reach 3 ?h5"
    by (rule hub_reach_step, intro spawn) (simp add: hub_one_defs)
  then have "hub_reach 3 ?h6"
    by (rule hub_reach_step, intro remove_stale) (simp_all add: hub_one_defs)
  moreover have "hb_next ?h6 = 2" by (simp add: hub_one_defs)
  ultimately have "hub_reach 3 ?h7"
    using hub_reach_step [OF _ vacant [of ?h6 2 "''c''"]] by (simp add: hub_one_defs)
  then have "hub_reach 3 ?h8"
    by (rule hub_reach_step, intro spawn) (simp add: hub_one_defs)
  then show ?thesis by (intro exI [of _ ?h8] conjI) (simp_all add: hub_one_defs)
qed

end
