(* ===== verification/Streams.thy ===== *)
theory Streams
  imports Pubsub Like_Commands
begin

text \<open>
  \<open>social-api/src/realtime.rs\<close> and \<open>handlers/stream.rs\<close>: the stream of like events a client sees. A run is
  the sequence of the branches the \<open>select!\<close> takes; the lazy stream is the list of the items it yields.
\<close>

section \<open>The stream\<close>

text \<open>What \<open>recv\<close> returns, and the three branches, with the clock where the code reads it.\<close>

datatype received = RecvPayload string | RecvLagged nat | RecvClosed

datatype select_branch = Cancelled datetime | HeartbeatTick datetime | Received received

datatype like_stream_item = StreamEvent like_event | StreamLagged nat | StreamClosed

fun create_like_event_stream :: "codec \<Rightarrow> select_branch list \<Rightarrow> like_stream_item list" where
  "create_like_event_stream cx [] = []"
| "create_like_event_stream cx (Cancelled t # bs) = [StreamEvent (Shutdown t)]"
| "create_like_event_stream cx (HeartbeatTick t # bs) =
     StreamEvent (Heartbeat t) # create_like_event_stream cx bs"
| "create_like_event_stream cx (Received (RecvPayload p) # bs) =
     (case event_from_json cx p of
        Some ev \<Rightarrow> StreamEvent ev # create_like_event_stream cx bs
      | None \<Rightarrow> create_like_event_stream cx bs)"
| "create_like_event_stream cx (Received (RecvLagged n) # bs) =
     StreamLagged n # create_like_event_stream cx bs"
| "create_like_event_stream cx (Received RecvClosed # bs) = [StreamClosed]"

section \<open>Server-sent events\<close>

datatype sse_event = SseData string | SseError string

fun sse_items :: "codec \<Rightarrow> like_stream_item list \<Rightarrow> sse_event list" where
  "sse_items cx [] = []"
| "sse_items cx (StreamEvent ev # is) =
     (case event_to_json cx ev of
        Some payload \<Rightarrow> SseData payload # sse_items cx is
      | None \<Rightarrow> sse_items cx is)"
| "sse_items cx (StreamLagged n # is) = sse_items cx is"
| "sse_items cx (StreamClosed # is) = []"

text \<open>The subscription may fail in the types of the code; the manager's never does.\<close>

definition create_sse_stream :: "codec \<Rightarrow> string + unit \<Rightarrow> select_branch list \<Rightarrow> sse_event list" where
  "create_sse_stream cx subscribed bs =
     (case subscribed of
        Inl e \<Rightarrow> [SseError ''{\"error\":\"Redis unavailable\"}'']
      | Inr _ \<Rightarrow> sse_items cx (create_like_event_stream cx bs))"

text \<open>The handler answers with an error or opens the stream of a channel: it checks that the identifier
  parses, and names the channel with the text it was given.\<close>

definition like_stream :: "'w app \<Rightarrow> string \<Rightarrow> string \<Rightarrow> app_error + string" where
  "like_stream a ct cid =
     (case ensure_registered_content_type (ap_config a) ct of
        Inl e \<Rightarrow> Inl e
      | Inr _ \<Rightarrow>
          (case uuid_parse (ap_codec a) cid of
             None \<Rightarrow> Inl (InvalidContentId cid)
           | Some _ \<Rightarrow> Inr (''sse:'' @ ct @ '':'' @ cid)))"

section \<open>What a client sees\<close>

definition event_codec_ok :: "codec \<Rightarrow> bool" where
  "event_codec_ok cx \<longleftrightarrow> (\<forall>ev. \<exists>v. event_to_json cx ev = Some v \<and> event_from_json cx v = Some ev)"

text \<open>A branch as the client should see it: the shutdown and the heartbeats of this process, the events as
  published, nothing for what was skipped or is no event.\<close>

fun branch_event :: "codec \<Rightarrow> select_branch \<Rightarrow> like_event option" where
  "branch_event cx (Cancelled t) = Some (Shutdown t)"
| "branch_event cx (HeartbeatTick t) = Some (Heartbeat t)"
| "branch_event cx (Received (RecvPayload p)) = event_from_json cx p"
| "branch_event cx (Received _) = None"

fun ends_stream :: "select_branch \<Rightarrow> bool" where
  "ends_stream (Cancelled _) = True"
| "ends_stream (Received RecvClosed) = True"
| "ends_stream _ = False"

fun until_end :: "select_branch list \<Rightarrow> select_branch list" where
  "until_end [] = []"
| "until_end (b # bs) = (if ends_stream b then [b] else b # until_end bs)"

lemma event_shown:
  assumes "event_codec_ok cx"
  shows "event_to_json cx ev \<noteq> None" and "event_to_json cx ev = Some v \<Longrightarrow> event_from_json cx v = Some ev"
proof -
  obtain w where "event_to_json cx ev = Some w" "event_from_json cx w = Some ev"
    using assms unfolding event_codec_ok_def by blast
  then show "event_to_json cx ev \<noteq> None" "event_to_json cx ev = Some v \<Longrightarrow> event_from_json cx v = Some ev" by auto
qed

lemma sse_spec:
  assumes ok: "event_codec_ok cx"
  shows "sse_items cx (create_like_event_stream cx bs) =
     map (\<lambda>ev. SseData (the (event_to_json cx ev))) (List.map_filter (branch_event cx) (until_end bs))"
proof (induction bs)
  case (Cons b bs)
  show ?case
  proof (cases b)
    case (Received r)
    then show ?thesis using Cons
      by (cases r) (auto simp: event_shown(1) [OF ok] List.map_filter_simps split: option.splits)
  qed (use Cons in \<open>auto simp: event_shown(1) [OF ok] List.map_filter_simps split: option.splits\<close>)
qed (simp add: List.map_filter_simps)

text \<open>C20. From publication to the client: the stream of a content item is subscribed to the channel its events
  are published on exactly when the identifier in the request is in the form identifiers are printed
  in; a client then receives, in order and once each, the events delivered to it, interleaved with
  the heartbeats, up to the shutdown or the end of the bridge; what is no event is skipped.\<close>

theorem stream_end_to_end:
  assumes "event_codec_ok (ap_codec a)" "uuid_codec_ok (ap_codec a)"
    and "like_stream a ct s = Inr ch" "uuid_parse (ap_codec a) s = Some u"
  shows "(ch = event_channel (ap_codec a) ct u \<longleftrightarrow> s = uuid_show (ap_codec a) u)
       \<and> create_sse_stream (ap_codec a) (Inr ()) bs =
           map (\<lambda>ev. SseData (the (event_to_json (ap_codec a) ev))) (List.map_filter (branch_event (ap_codec a)) (until_end bs))
       \<and> (\<forall>ev v. event_to_json (ap_codec a) ev = Some v \<longrightarrow> branch_event (ap_codec a) (Received (RecvPayload v)) = Some ev)"
proof -
  have "ch = ''sse:'' @ ct @ '':'' @ s" using assms(3,4) by (simp add: like_stream_def split: sum.splits)
  then have "ch = event_channel (ap_codec a) ct u \<longleftrightarrow> s = uuid_show (ap_codec a) u"
    by (simp add: event_channel_def)
  moreover have "\<forall>ev v. event_to_json (ap_codec a) ev = Some v \<longrightarrow> branch_event (ap_codec a) (Received (RecvPayload v)) = Some ev"
    using event_shown(2) [OF assms(1)] by simp
  ultimately show ?thesis using sse_spec [OF assms(1)] by (simp add: create_sse_stream_def)
qed

text \<open>A codec that prints events, and the sample application with it.\<close>

fun event_show :: "like_event \<Rightarrow> string" where
  "event_show (Liked u n t) = CHR ''L'' # show_nat (unat u) @ CHR ''/'' # show_int n @ CHR ''/'' # show_int t"
| "event_show (Unliked u n t) = CHR ''U'' # show_nat (unat u) @ CHR ''/'' # show_int n @ CHR ''/'' # show_int t"
| "event_show (Heartbeat t) = CHR ''H'' # show_int t"
| "event_show (Shutdown t) = CHR ''S'' # show_int t"

definition three_parts :: "string \<Rightarrow> (uuid \<times> int \<times> int) option" where
  "three_parts s =
     (case split_at (CHR ''/'') s of
        None \<Rightarrow> None
      | Some (a, r) \<Rightarrow> (case split_at (CHR ''/'') r of
          None \<Rightarrow> None
        | Some (b, c) \<Rightarrow> (case (parse_nat a, parse_int b, parse_int c) of
            (Some u, Some n, Some t) \<Rightarrow> Some (of_nat u, n, t) | _ \<Rightarrow> None)))"

fun event_read :: "string \<Rightarrow> like_event option" where
  "event_read [] = None"
| "event_read (c # s) =
     (if c = CHR ''L'' then map_option (\<lambda>(u, n, t). Liked u n t) (three_parts s)
      else if c = CHR ''U'' then map_option (\<lambda>(u, n, t). Unliked u n t) (three_parts s)
      else if c = CHR ''H'' then map_option Heartbeat (parse_int s)
      else if c = CHR ''S'' then map_option Shutdown (parse_int s)
      else None)"

definition stream_codec :: codec where
  "stream_codec = sample_codec\<lparr>event_to_json := \<lambda>ev. Some (event_show ev), event_from_json := event_read\<rparr>"

definition stream_app :: "sample app" where
  "stream_app = fst (app_new sample_yes stream_codec cfg_small False False)"

lemma three_parts_show: "three_parts (show_nat (unat u) @ CHR ''/'' # show_int n @ CHR ''/'' # show_int t) = Some (u, n, t)"
proof -
  have "CHR ''/'' \<notin> set (show_nat m)" "CHR ''/'' \<notin> set (show_int i)" for m i
    by (auto dest: show_nat_chars show_int_chars)
  then show ?thesis by (simp add: three_parts_def)
qed

lemma stream_codec_ok: "event_codec_ok stream_codec"
  unfolding event_codec_ok_def
proof
  fix ev show "\<exists>v. event_to_json stream_codec ev = Some v \<and> event_from_json stream_codec v = Some ev"
    by (cases ev) (simp_all add: stream_codec_def three_parts_show)
qed

theorem stream_end_to_end_witness:
  "create_sse_stream stream_codec (Inr ())
     [HeartbeatTick 1, Received (RecvPayload (event_show (Liked 5 3 2))), Received (RecvLagged 4), Cancelled 9,
      HeartbeatTick 10]
   = [SseData (event_show (Heartbeat 1)), SseData (event_show (Liked 5 3 2)), SseData (event_show (Shutdown 9))]"
proof -
  have cx: "ap_codec stream_app = stream_codec" and cfg: "ap_config stream_app = cfg_small"
    by (simp_all add: stream_app_def app_new_fields)
  have u: "uuid_codec_ok stream_codec"
    using sample_uuid_codec unfolding uuid_codec_ok_def stream_codec_def by simp
  have seven: "show_nat 7 = ''7''" by code_simp
  have p: "uuid_parse stream_codec ''7'' = Some 7"
    using parse_nat_show_nat [of 7, unfolded seven] by (simp add: stream_codec_def sample_codec_def)
  have "is_valid_content_type cfg_small ''post''"
    by (simp add: is_valid_content_type_def cfg_small_def config_of_def Let_def)
  then have r: "like_stream stream_app ''post'' ''7'' = Inr ''sse:post:7''"
    by (simp add: like_stream_def cx cfg p ensure_registered_content_type_def)
  have j: "event_to_json stream_codec ev = Some (event_show ev)" "event_from_json stream_codec v = event_read v" for ev v
    by (simp_all add: stream_codec_def)
  note e = stream_end_to_end [of stream_app "''post''" "''7''" "''sse:post:7''" 7, unfolded cx, OF stream_codec_ok u r p]
  then have "event_read (event_show ev) = Some ev" for ev by (simp add: j del: event_show.simps)
  with e show ?thesis by (simp add: List.map_filter_simps j del: event_show.simps)
qed

end
