(* ===== verification/Conversions.thy ===== *)
theory Conversions
  imports Like_Commands
begin

text \<open>
  \<open>social-api/src/grpc/convert.rs\<close>, \<open>grpc/error.rs\<close> and the label of \<open>grpc/interceptors/metrics.rs\<close>: the
  messages of the gRPC interface, the conversions from the types of the service, and the status an error
  becomes. The generated message types are records with the fields of the \<open>.proto\<close> files.
\<close>

section \<open>Messages\<close>

record timestamp =
  ts_seconds :: int
  ts_nanos :: int

record p_content_ref =
  pc_type :: string
  pc_id :: string

record p_like_response =
  plr_liked :: bool
  plr_already_existed :: "bool option"
  plr_was_liked :: "bool option"
  plr_count :: int
  plr_liked_at :: "timestamp option"

record p_count_response =
  pcr_type :: string
  pcr_id :: string
  pcr_count :: int

record p_status_response =
  psr_type :: string
  psr_id :: string
  psr_liked :: bool
  psr_liked_at :: "timestamp option"

record p_like_item =
  pli_type :: string
  pli_id :: string
  pli_liked_at :: "timestamp option"

record p_top_item =
  pti_type :: string
  pti_id :: string
  pti_count :: int

text \<open>The two occurrences carry the content the domain event does not.\<close>

record p_occurred =
  po_type :: string
  po_id :: string
  po_count :: int
  po_user :: string
  po_time :: "timestamp option"

datatype p_like_event =
    PLiked p_occurred
  | PUnliked p_occurred
  | PHeartbeat "timestamp option"
  | PShutdown "timestamp option"

type_synonym status = "grpc_code \<times> string"

section \<open>Conversions\<close>

definition to_proto_timestamp :: "datetime \<Rightarrow> timestamp" where
  "to_proto_timestamp t = \<lparr>ts_seconds = t div 10 ^ 9, ts_nanos = t mod 10 ^ 9\<rparr>"

definition from_proto_window :: "int \<Rightarrow> string + time_window" where
  "from_proto_window v =
     (if v = 1 then Inr Day
      else if v = 2 then Inr Week
      else if v = 3 then Inr Month
      else if v = 4 then Inr All
      else Inl ''invalid or unspecified time window'')"

definition parse_uuid :: "codec \<Rightarrow> string \<Rightarrow> status + uuid" where
  "parse_uuid cx s =
     (case uuid_parse cx s of
        Some u \<Rightarrow> Inr u
      | None \<Rightarrow> Inl (GInvalidArgument, ''invalid UUID: '' @ s))"

fun extract_content_refs :: "codec \<Rightarrow> p_content_ref list \<Rightarrow> status + content_key list" where
  "extract_content_refs cx [] = Inr []"
| "extract_content_refs cx (r # rs) =
     (case parse_uuid cx (pc_id r) of
        Inl e \<Rightarrow> Inl e
      | Inr u \<Rightarrow>
          (case extract_content_refs cx rs of
             Inl e \<Rightarrow> Inl e
           | Inr ks \<Rightarrow> Inr ((pc_type r, u) # ks)))"

definition like_to_proto :: "like_action_response \<Rightarrow> p_like_response" where
  "like_to_proto r =
     \<lparr>plr_liked = lar_liked r, plr_already_existed = lar_already_existed r, plr_was_liked = lar_was_liked r,
      plr_count = lar_count r, plr_liked_at = map_option to_proto_timestamp (lar_liked_at r)\<rparr>"

definition count_to_proto :: "codec \<Rightarrow> like_count_response \<Rightarrow> p_count_response" where
  "count_to_proto cx r = \<lparr>pcr_type = lcr_type r, pcr_id = uuid_show cx (lcr_content r), pcr_count = lcr_count r\<rparr>"

definition batch_count_to_proto :: "codec \<Rightarrow> batch_count_result \<Rightarrow> p_count_response" where
  "batch_count_to_proto cx r = \<lparr>pcr_type = bcr_type r, pcr_id = uuid_show cx (bcr_content r), pcr_count = bcr_count r\<rparr>"

definition batch_status_to_proto :: "codec \<Rightarrow> batch_status_result \<Rightarrow> p_status_response" where
  "batch_status_to_proto cx r =
     \<lparr>psr_type = bsr_type r, psr_id = uuid_show cx (bsr_content r), psr_liked = bsr_liked r,
      psr_liked_at = map_option to_proto_timestamp (bsr_liked_at r)\<rparr>"

definition item_to_proto :: "codec \<Rightarrow> user_like_item \<Rightarrow> p_like_item" where
  "item_to_proto cx r =
     \<lparr>pli_type = uli_type r, pli_id = uuid_show cx (uli_content r),
      pli_liked_at = Some (to_proto_timestamp (uli_liked_at r))\<rparr>"

definition top_to_proto :: "codec \<Rightarrow> top_liked_item \<Rightarrow> p_top_item" where
  "top_to_proto cx r = \<lparr>pti_type = tli_type r, pti_id = uuid_show cx (tli_content r), pti_count = tli_count r\<rparr>"

definition to_proto_status :: "like_status_response \<Rightarrow> string \<Rightarrow> string \<Rightarrow> p_status_response" where
  "to_proto_status r ct cid =
     \<lparr>psr_type = ct, psr_id = cid, psr_liked = lsr_liked r,
      psr_liked_at = map_option to_proto_timestamp (lsr_liked_at r)\<rparr>"

fun event_to_proto :: "codec \<Rightarrow> like_event \<Rightarrow> p_like_event" where
  "event_to_proto cx (Liked user n t) =
     PLiked \<lparr>po_type = [], po_id = [], po_count = n, po_user = uuid_show cx user, po_time = Some (to_proto_timestamp t)\<rparr>"
| "event_to_proto cx (Unliked user n t) =
     PUnliked \<lparr>po_type = [], po_id = [], po_count = n, po_user = uuid_show cx user, po_time = Some (to_proto_timestamp t)\<rparr>"
| "event_to_proto cx (Heartbeat t) = PHeartbeat (Some (to_proto_timestamp t))"
| "event_to_proto cx (Shutdown t) = PShutdown (Some (to_proto_timestamp t))"

definition to_proto_stream_event :: "codec \<Rightarrow> like_event \<Rightarrow> string \<Rightarrow> string \<Rightarrow> p_like_event" where
  "to_proto_stream_event cx ev ct cid =
     (case event_to_proto cx ev of
        PLiked occ \<Rightarrow> PLiked (occ\<lparr>po_type := ct, po_id := cid\<rparr>)
      | PUnliked occ \<Rightarrow> PUnliked (occ\<lparr>po_type := ct, po_id := cid\<rparr>)
      | e \<Rightarrow> e)"

section \<open>Errors\<close>

definition show_u64_dec :: "u64 \<Rightarrow> string" where
  "show_u64_dec n = show_nat (unat n)"

fun app_error_to_status :: "app_error \<Rightarrow> status" where
  "app_error_to_status (Unauthorized msg) = (GUnauthenticated, msg)"
| "app_error_to_status (ContentNotFound ct cid) = (GNotFound, ''Content not found: '' @ ct @ '':'' @ cid)"
| "app_error_to_status (ContentTypeUnknown ct) = (GInvalidArgument, ''Unknown content type: '' @ ct)"
| "app_error_to_status (InvalidContentId i) = (GInvalidArgument, ''Invalid content ID: '' @ i)"
| "app_error_to_status (InvalidCursor msg) = (GInvalidArgument, ''Invalid cursor: '' @ msg)"
| "app_error_to_status (InvalidWindow w) =
     (GInvalidArgument, ''Invalid time window: '' @ w @ ''. Valid values: 24h, 7d, 30d, all'')"
| "app_error_to_status (BatchTooLarge n m) =
     (GInvalidArgument, ''Batch size '' @ show_nat n @ '' exceeds maximum of '' @ show_nat m)"
| "app_error_to_status (RateLimited secs) =
     (GResourceExhausted, ''Rate limit exceeded. Retry after '' @ show_u64_dec secs @ ''s'')"
| "app_error_to_status (DependencyUnavailable svc) = (GUnavailable, ''External service unavailable: '' @ svc)"
| "app_error_to_status (Internal msg) = (GInternal, msg)"
| "app_error_to_status (Database msg) = (GInternal, ''Database error: '' @ msg)"
| "app_error_to_status (Cache msg) = (GInternal, ''Cache error: '' @ msg)"

definition into_status :: "app_error + 'a \<Rightarrow> status + 'a" where
  "into_status = map_err app_error_to_status"

fun grpc_code_label :: "grpc_code \<Rightarrow> string" where
  "grpc_code_label GOk = ''OK''"
| "grpc_code_label GCancelled = ''CANCELLED''"
| "grpc_code_label GUnknown = ''UNKNOWN''"
| "grpc_code_label GInvalidArgument = ''INVALID_ARGUMENT''"
| "grpc_code_label GDeadlineExceeded = ''DEADLINE_EXCEEDED''"
| "grpc_code_label GNotFound = ''NOT_FOUND''"
| "grpc_code_label GAlreadyExists = ''ALREADY_EXISTS''"
| "grpc_code_label GPermissionDenied = ''PERMISSION_DENIED''"
| "grpc_code_label GResourceExhausted = ''RESOURCE_EXHAUSTED''"
| "grpc_code_label GFailedPrecondition = ''FAILED_PRECONDITION''"
| "grpc_code_label GAborted = ''ABORTED''"
| "grpc_code_label GOutOfRange = ''OUT_OF_RANGE''"
| "grpc_code_label GUnimplemented = ''UNIMPLEMENTED''"
| "grpc_code_label GInternal = ''INTERNAL''"
| "grpc_code_label GUnavailable = ''UNAVAILABLE''"
| "grpc_code_label GDataLoss = ''DATA_LOSS''"
| "grpc_code_label GUnauthenticated = ''UNAUTHENTICATED''"

section \<open>What is kept\<close>

text \<open>A timestamp message is in the range its definition asks for and determines the time.\<close>

lemma timestamp_ok:
  "0 \<le> ts_nanos (to_proto_timestamp t) \<and> ts_nanos (to_proto_timestamp t) < 10 ^ 9
   \<and> ts_seconds (to_proto_timestamp t) * 10 ^ 9 + ts_nanos (to_proto_timestamp t) = t"
  by (simp add: to_proto_timestamp_def)

lemma timestamp_inject [simp]: "to_proto_timestamp s = to_proto_timestamp t \<longleftrightarrow> s = t"
  using timestamp_ok [of s] timestamp_ok [of t] by metis

lemma extract_refs_ok:
  "extract_content_refs cx rs = Inr ks \<longleftrightarrow> list_all2 (\<lambda>r k. pc_type r = fst k \<and> uuid_parse cx (pc_id r) = Some (snd k)) rs ks"
proof (induction rs arbitrary: ks)
  case (Cons r rs)
  show ?case
    by (cases ks) (auto simp: parse_uuid_def Cons [symmetric] split: option.splits sum.splits)
qed (auto split: list.splits)

text \<open>The status HTTP answers with and the code gRPC answers with are the same kind of failure.\<close>

definition code_of_http :: "nat \<Rightarrow> grpc_code" where
  "code_of_http n =
     (if n = 401 then GUnauthenticated else if n = 404 then GNotFound else if n = 400 then GInvalidArgument
      else if n = 429 then GResourceExhausted else if n = 503 then GUnavailable else GInternal)"

lemma status_agrees: "fst (app_error_to_status e) = code_of_http (http_status (app_error_code e))"
  by (cases e) (simp_all add: code_of_http_def)

lemma grpc_code_label_inject: "grpc_code_label c = grpc_code_label d \<longleftrightarrow> c = d"
  by (cases c; cases d) simp_all

end
