(* ===== verification/Handlers.thy ===== *)
theory Handlers
  imports Streams Conversions Like_Queries
begin

text \<open>
  \<open>social-api/src/handlers/mod.rs\<close> and \<open>likes.rs\<close>: the HTTP handlers. The state of the process is the
  two circuit breakers, the two databases, the counters and the world; each component runs on its part
  of it. What Axum extracts from a request comes as the handler's argument: \<open>Inl\<close> a rejection with its
  status.
\<close>

section \<open>The process\<close>

record 'w server =
  sv_profile :: inner
  sv_content :: inner
  sv_writer :: db
  sv_reader :: db
  sv_seq :: u64
  sv_requests :: u64
  sv_inflight :: u64
  sv_world :: 'w

definition on_profile :: "('w gated \<Rightarrow> 'r \<times> 'w gated) \<Rightarrow> 'w server \<Rightarrow> 'r \<times> 'w server" where
  "on_profile f s =
     (case f (sv_profile s, sv_world s) of (r, b, w) \<Rightarrow> (r, s\<lparr>sv_profile := b, sv_world := w\<rparr>))"

definition on_limiter :: "(u64 \<times> 'w \<Rightarrow> 'r \<times> u64 \<times> 'w) \<Rightarrow> 'w server \<Rightarrow> 'r \<times> 'w server" where
  "on_limiter f s =
     (case f (sv_seq s, sv_world s) of (r, n, w) \<Rightarrow> (r, s\<lparr>sv_seq := n, sv_world := w\<rparr>))"

definition on_commands :: "('w cmd_state \<Rightarrow> 'r \<times> 'w cmd_state) \<Rightarrow> 'w server \<Rightarrow> 'r \<times> 'w server" where
  "on_commands f s =
     (case f (sv_content s, sv_writer s, sv_world s) of (r, b, d, w) \<Rightarrow>
        (r, s\<lparr>sv_content := b, sv_writer := d, sv_world := w\<rparr>))"

definition on_queries :: "('w query_state \<Rightarrow> 'r \<times> 'w query_state) \<Rightarrow> 'w server \<Rightarrow> 'r \<times> 'w server" where
  "on_queries f s =
     (case f (sv_reader s, sv_world s) of (r, d, w) \<Rightarrow> (r, s\<lparr>sv_reader := d, sv_world := w\<rparr>))"

section \<open>The service\<close>

text \<open>\<open>services/like_service.rs\<close>: the facade, each method the command or the query on the part of the process
  it holds. The commands write to the writer, the queries read from the reader.\<close>

definition ls_like ::
  "'w app \<Rightarrow> uuid \<Rightarrow> string \<Rightarrow> uuid \<Rightarrow> 'w server \<Rightarrow> (app_error + like_action_response) \<times> 'w server" where
  "ls_like a user ct cid = on_commands (like_command a user ct cid)"

definition ls_unlike ::
  "'w app \<Rightarrow> uuid \<Rightarrow> string \<Rightarrow> uuid \<Rightarrow> 'w server \<Rightarrow> (app_error + like_action_response) \<times> 'w server" where
  "ls_unlike a user ct cid = on_commands (unlike_command a user ct cid)"

definition ls_get_count ::
  "'w app \<Rightarrow> string \<Rightarrow> uuid \<Rightarrow> 'w server \<Rightarrow> (app_error + like_count_response) \<times> 'w server" where
  "ls_get_count a ct cid = on_queries (count_query a ct cid)"

definition ls_get_status ::
  "'w app \<Rightarrow> uuid \<Rightarrow> string \<Rightarrow> uuid \<Rightarrow> 'w server \<Rightarrow> (app_error + like_status_response) \<times> 'w server" where
  "ls_get_status a user ct cid = on_queries (status_query a user ct cid)"

definition ls_get_user_likes ::
  "'w app \<Rightarrow> uuid \<Rightarrow> string option \<Rightarrow> string option \<Rightarrow> int \<Rightarrow> 'w server \<Rightarrow> (app_error + paginated_response) \<times> 'w server" where
  "ls_get_user_likes a user filt cursor limit = on_queries (user_likes_query a user filt cursor limit)"

definition ls_batch_counts ::
  "'w app \<Rightarrow> content_key list \<Rightarrow> 'w server \<Rightarrow> (app_error + batch_count_result list) \<times> 'w server" where
  "ls_batch_counts a items = on_queries (batch_counts_query a items)"

definition ls_batch_statuses ::
  "'w app \<Rightarrow> uuid \<Rightarrow> content_key list \<Rightarrow> 'w server \<Rightarrow> (app_error + batch_status_result list) \<times> 'w server" where
  "ls_batch_statuses a user items = on_queries (batch_statuses_query a user items)"

definition ls_get_leaderboard ::
  "'w app \<Rightarrow> string option \<Rightarrow> time_window \<Rightarrow> int \<Rightarrow> 'w server \<Rightarrow> (app_error + top_liked_response) \<times> 'w server" where
  "ls_get_leaderboard a ct win limit = on_queries (leaderboard_query a ct win limit)"

lemmas like_service_defs = ls_like_def ls_unlike_def ls_get_count_def ls_get_status_def ls_get_user_likes_def
  ls_batch_counts_def ls_batch_statuses_def ls_get_leaderboard_def

section \<open>Responses\<close>

text \<open>Bodies by the type they serialize; a rejection is Axum's own text, a stream names its channel.\<close>

datatype body =
    BodyError api_error
  | BodyAction like_action_response
  | BodyCount like_count_response
  | BodyStatus like_status_response
  | BodyLikes paginated_response
  | BodyCounts "batch_count_result list"
  | BodyStatuses "batch_status_result list"
  | BodyTop top_liked_response
  | BodyStream string
  | BodyRejection
  | BodyEmpty

type_synonym 'w handler = "'w server \<Rightarrow> body reply \<times> 'w server"
type_synonym headers = "string \<Rightarrow> string option"

definition json_reply :: "nat \<Rightarrow> body \<Rightarrow> body reply" where
  "json_reply st b = \<lparr>rp_status = st, rp_headers = [], rp_body = b\<rparr>"

definition api_error_response :: "app_error \<Rightarrow> body reply" where
  "api_error_response e =
     (let err = to_api_error e ''unknown'' in json_reply (api_http_status err) (BodyError err))"

text \<open>\<open>?\<close> on an \<open>AppError\<close>, and a successful answer with its status.\<close>

definition answer :: "nat \<Rightarrow> ('r \<Rightarrow> body) \<Rightarrow> app_error + 'r \<Rightarrow> body reply" where
  "answer st f r = (case r of Inl e \<Rightarrow> api_error_response e | Inr v \<Rightarrow> json_reply st (f v))"

text \<open>The extractors: \<open>AuthUser\<close>, \<open>ContentPath\<close>, and \<open>Json\<close> or \<open>Query\<close> with Axum's verdict.\<close>

definition with_user :: "'w app \<Rightarrow> headers \<Rightarrow> (authenticated_user \<Rightarrow> 'w handler) \<Rightarrow> 'w handler" where
  "with_user a hdr k s =
     (case on_profile (auth_user_extract (ap_ext a, ap_profile_breaker a) (ap_token_validator a) hdr) s of
        (Inl f, s) \<Rightarrow> (auth_error_response BodyError f, s)
      | (Inr user, s) \<Rightarrow> k user s)"

definition with_path ::
  "'w app \<Rightarrow> (string \<times> string) option \<Rightarrow> (string \<Rightarrow> uuid \<Rightarrow> 'w handler) \<Rightarrow> 'w handler" where
  "with_path a params k s =
     (case content_path_extract (ap_codec a) (ap_config a) params of
        Inl e \<Rightarrow> (api_error_response e, s)
      | Inr (ct, cid) \<Rightarrow> k ct cid s)"

definition with_input :: "nat + 'i \<Rightarrow> ('i \<Rightarrow> 'w handler) \<Rightarrow> 'w handler" where
  "with_input inp k s =
     (case inp of Inl st \<Rightarrow> (json_reply st BodyRejection, s) | Inr i \<Rightarrow> k i s)"

text \<open>The per-user limits inside the handlers: a refusal is the whole answer; otherwise a successful answer
  carries the headers, an error returned with \<open>?\<close> does not.\<close>

definition limited ::
  "(u64 \<times> 'w \<Rightarrow> rate_limit_result \<times> u64 \<times> 'w) \<Rightarrow> nat \<Rightarrow> ('r \<Rightarrow> body) \<Rightarrow> ('w server \<Rightarrow> (app_error + 'r) \<times> 'w server)
     \<Rightarrow> 'w handler" where
  "limited check st f k s =
     (case on_limiter check s of (rl, s) \<Rightarrow>
       (if \<not> allowed rl then (rate_limited_response BodyError rl, s)
        else (case k s of
            (Inl e, s) \<Rightarrow> (api_error_response e, s)
          | (Inr v, s) \<Rightarrow> (add_rate_limit_headers (json_reply st (f v)) rl, s))))"

definition write_check :: "'w app \<Rightarrow> uuid \<Rightarrow> u64 \<times> 'w \<Rightarrow> rate_limit_result \<times> u64 \<times> 'w" where
  "write_check a user = check_user_write_limit (ap_ext a) (ap_codec a) user (rate_limit_write_per_minute (ap_config a))"

definition read_check :: "'w app \<Rightarrow> uuid \<Rightarrow> u64 \<times> 'w \<Rightarrow> rate_limit_result \<times> u64 \<times> 'w" where
  "read_check a user = check_user_read_limit (ap_ext a) (ap_codec a) user (rate_limit_read_per_minute (ap_config a))"

text \<open>A validation followed by the rest, as \<open>?\<close> composes them.\<close>

definition after_check :: "app_error + unit \<Rightarrow> ('w server \<Rightarrow> (app_error + 'r) \<times> 'w server) \<Rightarrow> 'w server \<Rightarrow> (app_error + 'r) \<times> 'w server" where
  "after_check c k s = (case c of Inl e \<Rightarrow> (Inl e, s) | Inr _ \<Rightarrow> k s)"

definition check_filter :: "'w app \<Rightarrow> string option \<Rightarrow> app_error + unit" where
  "check_filter a filt =
     (case filt of None \<Rightarrow> Inr () | Some ct \<Rightarrow> ensure_registered_content_type (ap_config a) ct)"

definition extract_batch_items :: "content_ref list \<Rightarrow> content_key list" where
  "extract_batch_items items = map (\<lambda>i. (cr_type i, cr_id i)) items"

section \<open>Handlers\<close>

record pagination_params =
  pp_cursor :: "string option"
  pp_limit :: "int option"
  pp_type :: "string option"

record leaderboard_params =
  lp_type :: "string option"
  lp_window :: "string option"
  lp_limit :: "int option"

definition like_content_handler :: "'w app \<Rightarrow> headers \<Rightarrow> nat + string \<times> uuid \<Rightarrow> 'w handler" where
  "like_content_handler a hdr input =
     with_user a hdr (\<lambda>user. with_input input (\<lambda>(ct, cid).
       limited (write_check a (au_user_id user)) 201 BodyAction
         (after_check (ensure_registered_content_type (ap_config a) ct)
           (ls_like a (au_user_id user) ct cid))))"

definition unlike_content_handler :: "'w app \<Rightarrow> headers \<Rightarrow> (string \<times> string) option \<Rightarrow> 'w handler" where
  "unlike_content_handler a hdr params =
     with_user a hdr (\<lambda>user. with_path a params (\<lambda>ct cid.
       limited (write_check a (au_user_id user)) 200 BodyAction
         (ls_unlike a (au_user_id user) ct cid)))"

definition get_count_handler :: "'w app \<Rightarrow> (string \<times> string) option \<Rightarrow> 'w handler" where
  "get_count_handler a params =
     with_path a params (\<lambda>ct cid s.
       (case ls_get_count a ct cid s of (r, s) \<Rightarrow> (answer 200 BodyCount r, s)))"

definition get_status_handler :: "'w app \<Rightarrow> headers \<Rightarrow> (string \<times> string) option \<Rightarrow> 'w handler" where
  "get_status_handler a hdr params =
     with_user a hdr (\<lambda>user. with_path a params (\<lambda>ct cid.
       limited (read_check a (au_user_id user)) 200 BodyStatus
         (ls_get_status a (au_user_id user) ct cid)))"

definition unwrap_limit :: "int option \<Rightarrow> int \<Rightarrow> int" where
  "unwrap_limit l dflt = (case l of None \<Rightarrow> dflt | Some n \<Rightarrow> n)"

definition get_user_likes_handler :: "'w app \<Rightarrow> headers \<Rightarrow> nat + pagination_params \<Rightarrow> 'w handler" where
  "get_user_likes_handler a hdr input =
     with_user a hdr (\<lambda>user. with_input input (\<lambda>params.
       limited (read_check a (au_user_id user)) 200 BodyLikes
         (after_check (check_filter a (pp_type params))
           (ls_get_user_likes a (au_user_id user) (pp_type params) (pp_cursor params)
              (clamp 1 100 (unwrap_limit (pp_limit params) 20))))))"

definition batch_counts_handler :: "'w app \<Rightarrow> nat + content_ref list \<Rightarrow> 'w handler" where
  "batch_counts_handler a input =
     with_input input (\<lambda>items s.
       (case after_check (ensure_registered_batch_items (ap_config a) items)
               (ls_batch_counts a (extract_batch_items items)) s of
          (r, s) \<Rightarrow> (answer 200 BodyCounts r, s)))"

definition batch_statuses_handler :: "'w app \<Rightarrow> headers \<Rightarrow> nat + content_ref list \<Rightarrow> 'w handler" where
  "batch_statuses_handler a hdr input =
     with_user a hdr (\<lambda>user. with_input input (\<lambda>items.
       limited (read_check a (au_user_id user)) 200 BodyStatuses
         (after_check (ensure_registered_batch_items (ap_config a) items)
           (ls_batch_statuses a (au_user_id user) (extract_batch_items items)))))"

definition check_window :: "string option \<Rightarrow> app_error + time_window" where
  "check_window win =
     (let window_str = (case win of None \<Rightarrow> ''all'' | Some w \<Rightarrow> w) in
      case from_str_value window_str of None \<Rightarrow> Inl (InvalidWindow window_str) | Some w \<Rightarrow> Inr w)"

definition get_leaderboard_handler :: "'w app \<Rightarrow> nat + leaderboard_params \<Rightarrow> 'w handler" where
  "get_leaderboard_handler a input =
     with_input input (\<lambda>params s.
       (case after_check (check_filter a (lp_type params))
               (\<lambda>s. case check_window (lp_window params) of
                  Inl e \<Rightarrow> (Inl e, s)
                | Inr win \<Rightarrow> ls_get_leaderboard a (lp_type params) win
                                 (clamp 1 50 (unwrap_limit (lp_limit params) 10)) s) s of
          (r, s) \<Rightarrow> (answer 200 BodyTop r, s)))"

definition stream_handler :: "'w app \<Rightarrow> nat + string \<times> string \<Rightarrow> 'w handler" where
  "stream_handler a input =
     with_input input (\<lambda>(ct, cid) s. (answer 200 BodyStream (like_stream a ct cid), s))"

end
