(* ===== verification/Server.thy ===== *)
theory Server
  imports Handlers
begin

text \<open>
  \<open>social-api/src/server.rs\<close>, the middleware it stacks (\<open>middleware/request_id.rs\<close>, \<open>error_context.rs\<close>,
  \<open>inflight.rs\<close>, the path label of \<open>metrics.rs\<close>) and the health checks (\<open>health.rs\<close>,
  \<open>handlers/health.rs\<close>): a request of the API through the whole stack. Matching a path to its route is
  Axum's; the concurrency limit delays a request and is not modelled.
\<close>

section \<open>Request identifiers\<close>

definition fast_request_id :: "'w ext \<Rightarrow> 'w server \<Rightarrow> string \<times> 'w server" where
  "fast_request_id x s =
     (case unix_millis x (sv_world s) of (ts, w) \<Rightarrow>
        (''req_'' @ show_hex ts @ ''-'' @ show_hex (unat (sv_requests s)),
         s\<lparr>sv_requests := sv_requests s + 1, sv_world := w\<rparr>))"

text \<open>The identifier goes to the rest of the stack and into the response. It is a string of the request's
  headers or the generated one, so that it always is a header value.\<close>

definition inject_request_id :: "'w ext \<Rightarrow> headers \<Rightarrow> (string \<Rightarrow> 'w handler) \<Rightarrow> 'w handler" where
  "inject_request_id x hdr nxt s =
     (case (case hdr ''x-request-id'' of
              Some i \<Rightarrow> (i, s)
            | None \<Rightarrow> fast_request_id x s) of
        (rid, s) \<Rightarrow>
          (case nxt rid s of (response, s) \<Rightarrow> (set_header ''x-request-id'' rid response, s)))"

section \<open>Error responses\<close>

text \<open>A body that does not fit in 64 KiB is dropped; \<open>len\<close> is the length of the JSON of an error.\<close>

definition set_request_id :: "string \<Rightarrow> api_error \<Rightarrow> api_error" where
  "set_request_id rid e = e\<lparr>error := (error e)\<lparr>request_id := rid\<rparr>\<rparr>"

definition patch_error_request_id :: "(api_error \<Rightarrow> nat) \<Rightarrow> string \<Rightarrow> 'w handler \<Rightarrow> 'w handler" where
  "patch_error_request_id len rid nxt s =
     (case nxt s of (response, s) \<Rightarrow>
       ((if 200 \<le> rp_status response \<and> rp_status response < 300 then response
         else (case rp_body response of
             BodyError e \<Rightarrow>
               (if len e > 64 * 1024 then response\<lparr>rp_body := BodyEmpty\<rparr>
                else response\<lparr>rp_body := BodyError (set_request_id rid e)\<rparr>)
           | _ \<Rightarrow> response)), s))"

section \<open>In-flight requests\<close>

definition inflight_increment :: "'w server \<Rightarrow> 'w server" where
  "inflight_increment s = s\<lparr>sv_inflight := sv_inflight s + 1\<rparr>"

definition inflight_decrement :: "'w server \<Rightarrow> 'w server" where
  "inflight_decrement s = s\<lparr>sv_inflight := sv_inflight s - 1\<rparr>"

definition track_inflight :: "'w handler \<Rightarrow> 'w handler" where
  "track_inflight nxt s =
     (case nxt (inflight_increment s) of (response, s) \<Rightarrow> (response, inflight_decrement s))"

section \<open>The path label\<close>

definition looks_like_uuid :: "string \<Rightarrow> bool" where
  "looks_like_uuid s \<longleftrightarrow> length s = 36 \<and> s ! 8 = CHR ''-'' \<and> s ! 13 = CHR ''-'' \<and> s ! 18 = CHR ''-'' \<and> s ! 23 = CHR ''-''"

definition looks_like_number :: "string \<Rightarrow> bool" where
  "looks_like_number s \<longleftrightarrow> s \<noteq> [] \<and> list_all (\<lambda>c. digit_val c \<noteq> None) s"

definition normalize_part :: "string \<Rightarrow> string" where
  "normalize_part p = (if looks_like_uuid p \<or> looks_like_number p then '':id'' else p)"

definition normalize_path :: "string \<Rightarrow> string" where
  "normalize_path path = str_join ''/'' (map normalize_part (str_split (CHR ''/'') path))"

section \<open>Routes\<close>

text \<open>A request by the route it matched, with what the extractors of that route make of it.\<close>

datatype http_call =
    PostLike "nat + string \<times> uuid"
  | DeleteLike "(string \<times> string) option"
  | GetCount "(string \<times> string) option"
  | GetStatus "(string \<times> string) option"
  | GetUserLikes "nat + pagination_params"
  | PostBatchCounts "nat + content_ref list"
  | PostBatchStatuses "nat + content_ref list"
  | GetTop "nat + leaderboard_params"
  | GetStream "nat + string \<times> string"

fun public_read :: "http_call \<Rightarrow> bool" where
  "public_read (GetCount _) = True"
| "public_read (PostBatchCounts _) = True"
| "public_read (GetTop _) = True"
| "public_read (GetStream _) = True"
| "public_read _ = False"

fun route :: "'w app \<Rightarrow> headers \<Rightarrow> http_call \<Rightarrow> 'w handler" where
  "route a hdr (PostLike inp) = like_content_handler a hdr inp"
| "route a hdr (DeleteLike p) = unlike_content_handler a hdr p"
| "route a hdr (GetCount p) = get_count_handler a p"
| "route a hdr (GetStatus p) = get_status_handler a hdr p"
| "route a hdr (GetUserLikes inp) = get_user_likes_handler a hdr inp"
| "route a hdr (PostBatchCounts inp) = batch_counts_handler a inp"
| "route a hdr (PostBatchStatuses inp) = batch_statuses_handler a hdr inp"
| "route a hdr (GetTop inp) = get_leaderboard_handler a inp"
| "route a hdr (GetStream inp) = stream_handler a inp"

definition server_check :: "'w app \<Rightarrow> string \<Rightarrow> nat \<Rightarrow> nat \<Rightarrow> 'w server \<Rightarrow> rate_limit_result \<times> 'w server" where
  "server_check a key limit secs = on_limiter (check_rate_limit_inner (ap_ext a) key limit secs)"

text \<open>The stack, outermost first: in-flight count, request identifier, error context, then on the public
  reads the limit per address.\<close>

definition serve :: "(api_error \<Rightarrow> nat) \<Rightarrow> 'w app \<Rightarrow> headers \<Rightarrow> http_call \<Rightarrow> 'w handler" where
  "serve len a hdr call =
     track_inflight (inject_request_id (ap_ext a) hdr (\<lambda>rid. patch_error_request_id len rid
       (if public_read call then read_rate_limit (server_check a) (ap_config a) BodyError hdr (route a hdr call)
        else route a hdr call)))"

section \<open>The access log\<close>

datatype access_log_level = LogFull | LogErrors | LogNone

definition access_log_from_env :: "(string \<Rightarrow> string option) \<Rightarrow> access_log_level" where
  "access_log_from_env env =
     (let v = to_lowercase (case env ''ACCESS_LOG'' of None \<Rightarrow> [] | Some v \<Rightarrow> v) in
      if v = ''full'' \<or> v = ''all'' then LogFull
      else if v = ''none'' \<or> v = ''off'' \<or> v = ''false'' \<or> v = ''0'' then LogNone
      else LogErrors)"

text \<open>Whether a response is logged; the latency in nanoseconds.\<close>

fun logs_response :: "access_log_level \<Rightarrow> nat \<Rightarrow> nat \<Rightarrow> bool" where
  "logs_response LogFull status latency = True"
| "logs_response LogErrors status latency = (status \<ge> 400 \<and> status \<noteq> 429 \<or> latency > 2000 * 10 ^ 6)"
| "logs_response LogNone status latency = False"

section \<open>Health\<close>

record dependency_health =
  dh_database :: bool
  dh_redis :: bool
  dh_content_api :: bool

definition all_healthy :: "dependency_health \<Rightarrow> bool" where
  "all_healthy h \<longleftrightarrow> dh_database h \<and> dh_redis h \<and> dh_content_api h"

text \<open>The first content service that answers, in the map's order.\<close>

fun check_any_content_api :: "'w ext \<Rightarrow> string list \<Rightarrow> 'w \<Rightarrow> bool \<times> 'w" where
  "check_any_content_api x [] w = (False, w)"
| "check_any_content_api x (url # urls) w =
     (case http_send x \<lparr>hr_url = url @ ''/health'', hr_bearer = None, hr_timeout_secs = 2\<rparr> w of
        (Inr resp, w) \<Rightarrow> (if is_success (hs_status resp) then (True, w) else check_any_content_api x urls w)
      | (Inl _, w) \<Rightarrow> check_any_content_api x urls w)"

text \<open>A pool is healthy when \<open>SELECT 1\<close> runs; the checks run concurrently, here in their written order.\<close>

definition db_is_healthy :: "'w ext \<Rightarrow> 'w \<Rightarrow> bool \<times> 'w" where
  "db_is_healthy x w =
     (case db_fault x w of (f1, w) \<Rightarrow> (case db_fault x w of (f2, w) \<Rightarrow> (f1 = None \<and> f2 = None, w)))"

definition check_dependencies :: "'w app \<Rightarrow> 'w \<Rightarrow> dependency_health \<times> 'w" where
  "check_dependencies a w =
     (case db_is_healthy (ap_ext a) w of (d, w) \<Rightarrow>
       (case cm_is_healthy (ap_ext a) w of (r, w) \<Rightarrow>
         (case hash_order (ap_ext a) w of (p, w) \<Rightarrow>
           (case check_any_content_api (ap_ext a) (permute_by p (map snd (content_api_urls (ap_config a)))) w of
              (c, w) \<Rightarrow> (\<lparr>dh_database = d, dh_redis = r, dh_content_api = c\<rparr>, w)))))"

definition make_health_detail :: "bool \<Rightarrow> string \<Rightarrow> health_detail" where
  "make_health_detail healthy down_message =
     \<lparr>hd_status = (if healthy then ''up'' else ''down''), hd_error = (if healthy then None else Some down_message)\<rparr>"

record health_response =
  hl_status :: string
  hl_details :: "(string \<times> health_detail) list option"

definition liveness :: "nat \<times> health_response" where
  "liveness = (200, \<lparr>hl_status = ''ok'', hl_details = None\<rparr>)"

definition readiness :: "'w app \<Rightarrow> 'w \<Rightarrow> (nat \<times> health_response) \<times> 'w" where
  "readiness a w =
     (case check_dependencies a w of (h, w) \<Rightarrow>
       ((if all_healthy h then 200 else 503,
         \<lparr>hl_status = (if all_healthy h then ''ok'' else ''degraded''),
          hl_details = Some
            [(''database'', make_health_detail (dh_database h) ''Database unreachable''),
             (''redis'', make_health_detail (dh_redis h) ''Redis unreachable''),
             (''content_api'', make_health_detail (dh_content_api h) ''No content API reachable'')]\<rparr>), w))"

section \<open>A process\<close>

text \<open>The process the witnesses run in: nothing has happened yet and Redis is down.\<close>

definition sample_server :: "sample server" where
  "sample_server =
     \<lparr>sv_profile = cb_new, sv_content = cb_new, sv_writer = db_small, sv_reader = db_small, sv_seq = 0, sv_requests = 0,
      sv_inflight = 0, sv_world = sample_start\<lparr>sm_up := False\<rparr>\<rparr>"

definition from_address :: "string \<Rightarrow> string option" where
  "from_address = [''x-real-ip'' \<mapsto> ''10.0.0.1'']"

lemma sample_check_down:
  "server_check sample_app key limit secs sample_server
     = (\<lparr>allowed = True, rl_current = 0, rl_limit = as_i64 limit, reset_secs = secs\<rparr>, sample_server\<lparr>sv_seq := 1\<rparr>)"
  by (simp add: server_check_def on_limiter_def sample_server_def sample_app_def app_new_fields check_rate_limit_inner_def
      cm_invoke_script_def sample_ext_def rate_limit_of_reply_def Let_def)

lemma sample_stream: "like_stream sample_app ''post'' ''7'' = Inr ''sse:post:7''"
proof -
  have p: "parse_nat ''7'' = Some 7" using parse_nat_show_nat [of 7] by code_simp
  have "is_valid_content_type cfg_small ''post''"
    by (simp add: is_valid_content_type_def cfg_small_def config_of_def Let_def)
  then show ?thesis
    by (simp add: like_stream_def sample_app_def app_new_fields ensure_registered_content_type_def sample_codec_def p)
qed

end
