(* ===== verification/Grpc.thy ===== *)
theory Grpc
  imports Server
begin

text \<open>
  \<open>social-api/src/grpc/likes_service.rs\<close>, \<open>grpc/health_service.rs\<close> and \<open>grpc/interceptors/request_id.rs\<close>:
  the RPCs, thin wrappers that authenticate, check a limit, validate the request, call the service and
  convert its answer. They run on the same process state as the HTTP handlers.
\<close>

section \<open>Sequencing\<close>

text \<open>An RPC step; \<open>?\<close> on its result; a step that only computes.\<close>

type_synonym ('w, 'r) rpc = "'w server \<Rightarrow> (status + 'r) \<times> 'w server"

definition rpc_then :: "('w, 'r) rpc \<Rightarrow> ('r \<Rightarrow> ('w, 'q) rpc) \<Rightarrow> ('w, 'q) rpc" where
  "rpc_then f k s = (case f s of (Inl e, s) \<Rightarrow> (Inl e, s) | (Inr v, s) \<Rightarrow> k v s)"

definition rpc_pure :: "status + 'r \<Rightarrow> ('w, 'r) rpc" where
  "rpc_pure r s = (r, s)"

definition rpc_service :: "('w server \<Rightarrow> (app_error + 'r) \<times> 'w server) \<Rightarrow> ('w, 'r) rpc" where
  "rpc_service f s = (case f s of (r, s) \<Rightarrow> (into_status r, s))"

section \<open>Guards\<close>

definition grpc_authenticate :: "'w app \<Rightarrow> headers \<Rightarrow> ('w, authenticated_user) rpc" where
  "grpc_authenticate a md =
     rpc_then (rpc_pure (extract_token md))
       (\<lambda>token. on_profile (validate_token (ap_ext a, ap_profile_breaker a) (ap_token_validator a) token))"

fun limit_error :: "app_error \<Rightarrow> status" where
  "limit_error (RateLimited secs) =
     (GResourceExhausted, ''Rate limit exceeded. Retry after '' @ show_u64_dec secs @ ''s'')"
| "limit_error _ = (GInternal, ''Rate limit check failed'')"

definition grpc_user_write_limit :: "'w app \<Rightarrow> uuid \<Rightarrow> ('w, unit) rpc" where
  "grpc_user_write_limit a user s =
     (case on_limiter (enforce_user_write_limit (ap_ext a) (ap_codec a) user (rate_limit_write_per_minute (ap_config a))) s of
        (r, s) \<Rightarrow> (map_err limit_error r, s))"

definition grpc_user_read_limit :: "'w app \<Rightarrow> uuid \<Rightarrow> ('w, unit) rpc" where
  "grpc_user_read_limit a user s =
     (case on_limiter (enforce_user_read_limit (ap_ext a) (ap_codec a) user (rate_limit_read_per_minute (ap_config a))) s of
        (r, s) \<Rightarrow> (map_err limit_error r, s))"

text \<open>\<open>md\<close> looks a metadata value up, \<open>None\<close> also when it is not a string; \<open>remote\<close> is the peer address.\<close>

definition extract_client_ip :: "headers \<Rightarrow> string option \<Rightarrow> string" where
  "extract_client_ip md remote =
     (let peer = (case remote of Some ip \<Rightarrow> ip | None \<Rightarrow> ''unknown'');
          by_real_ip = (case md ''x-real-ip'' of
              Some v \<Rightarrow> (let trimmed = str_trim v in if trimmed \<noteq> [] then trimmed else peer)
            | None \<Rightarrow> peer) in
      case md ''x-forwarded-for'' of
        Some v \<Rightarrow> (let ip = extract_real_ip v in if ip \<noteq> ''unknown'' then ip else by_real_ip)
      | None \<Rightarrow> by_real_ip)"

definition grpc_public_read_limit :: "'w app \<Rightarrow> headers \<Rightarrow> string option \<Rightarrow> ('w, unit) rpc" where
  "grpc_public_read_limit a md remote =
     on_limiter (check_grpc_rate_limit (ap_ext a) (extract_client_ip md remote) False
       (rate_limit_write_per_minute (ap_config a)) (rate_limit_read_per_minute (ap_config a)))"

definition grpc_validate_type :: "'w app \<Rightarrow> string \<Rightarrow> ('w, unit) rpc" where
  "grpc_validate_type a ct = rpc_pure (into_status (ensure_registered_content_type (ap_config a) ct))"

definition grpc_validate_filter :: "'w app \<Rightarrow> string option \<Rightarrow> ('w, unit) rpc" where
  "grpc_validate_filter a filt = (case filt of None \<Rightarrow> rpc_pure (Inr ()) | Some ct \<Rightarrow> grpc_validate_type a ct)"

definition grpc_content :: "'w app \<Rightarrow> p_content_ref \<Rightarrow> ('w, uuid) rpc" where
  "grpc_content a r =
     rpc_then (grpc_validate_type a (pc_type r)) (\<lambda>_. rpc_pure (parse_uuid (ap_codec a) (pc_id r)))"

definition grpc_refs :: "'w app \<Rightarrow> p_content_ref list \<Rightarrow> ('w, content_key list) rpc" where
  "grpc_refs a items =
     rpc_then (rpc_pure (extract_content_refs (ap_codec a) items))
       (\<lambda>refs. rpc_then (rpc_pure (into_status (ensure_registered_content_types (ap_config a) (map fst refs))))
         (\<lambda>_. rpc_pure (Inr refs)))"

section \<open>RPCs\<close>

definition grpc_like :: "'w app \<Rightarrow> headers \<Rightarrow> p_content_ref \<Rightarrow> ('w, p_like_response) rpc" where
  "grpc_like a md req =
     rpc_then (grpc_authenticate a md) (\<lambda>user.
     rpc_then (grpc_user_write_limit a (au_user_id user)) (\<lambda>_.
     rpc_then (grpc_content a req) (\<lambda>cid.
     rpc_then (rpc_service (ls_like a (au_user_id user) (pc_type req) cid)) (\<lambda>r.
     rpc_pure (Inr (like_to_proto r))))))"

definition grpc_unlike :: "'w app \<Rightarrow> headers \<Rightarrow> p_content_ref \<Rightarrow> ('w, p_like_response) rpc" where
  "grpc_unlike a md req =
     rpc_then (grpc_authenticate a md) (\<lambda>user.
     rpc_then (grpc_user_write_limit a (au_user_id user)) (\<lambda>_.
     rpc_then (grpc_content a req) (\<lambda>cid.
     rpc_then (rpc_service (ls_unlike a (au_user_id user) (pc_type req) cid)) (\<lambda>r.
     rpc_pure (Inr (like_to_proto r))))))"

definition grpc_get_count :: "'w app \<Rightarrow> headers \<Rightarrow> string option \<Rightarrow> p_content_ref \<Rightarrow> ('w, p_count_response) rpc" where
  "grpc_get_count a md remote req =
     rpc_then (grpc_public_read_limit a md remote) (\<lambda>_.
     rpc_then (grpc_content a req) (\<lambda>cid.
     rpc_then (rpc_service (ls_get_count a (pc_type req) cid)) (\<lambda>r.
     rpc_pure (Inr (count_to_proto (ap_codec a) r)))))"

definition grpc_get_status :: "'w app \<Rightarrow> headers \<Rightarrow> p_content_ref \<Rightarrow> ('w, p_status_response) rpc" where
  "grpc_get_status a md req =
     rpc_then (grpc_authenticate a md) (\<lambda>user.
     rpc_then (grpc_user_read_limit a (au_user_id user)) (\<lambda>_.
     rpc_then (grpc_content a req) (\<lambda>cid.
     rpc_then (rpc_service (ls_get_status a (au_user_id user) (pc_type req) cid)) (\<lambda>r.
     rpc_pure (Inr (to_proto_status r (pc_type req) (pc_id req)))))))"

definition grpc_batch_counts ::
  "'w app \<Rightarrow> headers \<Rightarrow> string option \<Rightarrow> p_content_ref list \<Rightarrow> ('w, p_count_response list) rpc" where
  "grpc_batch_counts a md remote items =
     rpc_then (grpc_public_read_limit a md remote) (\<lambda>_.
     rpc_then (grpc_refs a items) (\<lambda>refs.
     rpc_then (rpc_service (ls_batch_counts a refs)) (\<lambda>rs.
     rpc_pure (Inr (map (batch_count_to_proto (ap_codec a)) rs)))))"

definition grpc_batch_statuses :: "'w app \<Rightarrow> headers \<Rightarrow> p_content_ref list \<Rightarrow> ('w, p_status_response list) rpc" where
  "grpc_batch_statuses a md items =
     rpc_then (grpc_authenticate a md) (\<lambda>user.
     rpc_then (grpc_user_read_limit a (au_user_id user)) (\<lambda>_.
     rpc_then (grpc_refs a items) (\<lambda>refs.
     rpc_then (rpc_service (ls_batch_statuses a (au_user_id user) refs)) (\<lambda>rs.
     rpc_pure (Inr (map (batch_status_to_proto (ap_codec a)) rs))))))"

record p_user_likes_request =
  pur_page :: "(string option \<times> int) option"
  pur_type :: "string option"

record p_user_likes_response =
  pus_items :: "p_like_item list"
  pus_next_cursor :: "string option"
  pus_has_more :: bool

definition grpc_get_user_likes ::
  "'w app \<Rightarrow> headers \<Rightarrow> p_user_likes_request \<Rightarrow> ('w, p_user_likes_response) rpc" where
  "grpc_get_user_likes a md req =
     rpc_then (grpc_authenticate a md) (\<lambda>user.
     rpc_then (grpc_user_read_limit a (au_user_id user)) (\<lambda>_.
     rpc_then (grpc_validate_filter a (pur_type req)) (\<lambda>_.
       (let (cursor, limit) = (case pur_page req of Some p \<Rightarrow> p | None \<Rightarrow> (None, 20)) in
     rpc_then (rpc_service (ls_get_user_likes a (au_user_id user) (pur_type req) cursor limit)) (\<lambda>r.
     rpc_pure (Inr \<lparr>pus_items = map (item_to_proto (ap_codec a)) (pg_items r), pus_next_cursor = pg_next_cursor r,
                    pus_has_more = pg_has_more r\<rparr>))))))"

record p_leaderboard_request =
  plb_window :: int
  plb_type :: "string option"
  plb_limit :: int

record p_leaderboard_response =
  plo_items :: "p_top_item list"
  plo_window :: string
  plo_type :: "string option"

definition grpc_get_leaderboard ::
  "'w app \<Rightarrow> headers \<Rightarrow> string option \<Rightarrow> p_leaderboard_request \<Rightarrow> ('w, p_leaderboard_response) rpc" where
  "grpc_get_leaderboard a md remote req =
     rpc_then (grpc_public_read_limit a md remote) (\<lambda>_.
     rpc_then (rpc_pure (map_err (\<lambda>m. (GInvalidArgument, m)) (from_proto_window (plb_window req)))) (\<lambda>win.
     rpc_then (grpc_validate_filter a (plb_type req)) (\<lambda>_.
     rpc_then (rpc_service (ls_get_leaderboard a (plb_type req) win (plb_limit req))) (\<lambda>r.
     rpc_pure (Inr \<lparr>plo_items = map (top_to_proto (ap_codec a)) (tlr_items r), plo_window = tlr_window r,
                    plo_type = tlr_type r\<rparr>)))))"

text \<open>The stream opens on a channel; its items become messages, a closed bridge a shutdown.\<close>

definition grpc_stream_likes :: "'w app \<Rightarrow> headers \<Rightarrow> string option \<Rightarrow> p_content_ref \<Rightarrow> ('w, string) rpc" where
  "grpc_stream_likes a md remote req =
     rpc_then (grpc_public_read_limit a md remote) (\<lambda>_.
     rpc_then (grpc_content a req) (\<lambda>_.
     rpc_pure (Inr (''sse:'' @ pc_type req @ '':'' @ pc_id req))))"

fun stream_message :: "codec \<Rightarrow> p_content_ref \<Rightarrow> datetime \<Rightarrow> like_stream_item \<Rightarrow> p_like_event option" where
  "stream_message cx req now (StreamEvent ev) = Some (to_proto_stream_event cx ev (pc_type req) (pc_id req))"
| "stream_message cx req now (StreamLagged _) = None"
| "stream_message cx req now StreamClosed =
     Some (to_proto_stream_event cx (Shutdown now) (pc_type req) (pc_id req))"

definition grpc_stream :: "codec \<Rightarrow> p_content_ref \<Rightarrow> datetime \<Rightarrow> select_branch list \<Rightarrow> p_like_event list" where
  "grpc_stream cx req now bs = List.map_filter (stream_message cx req now) (create_like_event_stream cx bs)"

section \<open>Interceptor and health\<close>

text \<open>The identifier the metadata and the extensions get.\<close>

definition grpc_inject_request_id :: "'w ext \<Rightarrow> headers \<Rightarrow> 'w server \<Rightarrow> string \<times> 'w server" where
  "grpc_inject_request_id x md s =
     (case md ''x-request-id'' of Some i \<Rightarrow> (i, s) | None \<Rightarrow> fast_request_id x s)"

datatype serving_status = Serving | NotServing

definition grpc_health_check :: "'w app \<Rightarrow> 'w \<Rightarrow> (serving_status \<times> (string \<times> string) list) \<times> 'w" where
  "grpc_health_check a w =
     (case check_dependencies a w of (h, w) \<Rightarrow>
       ((if all_healthy h then Serving else NotServing,
         [(''database'', if dh_database h then ''ok'' else ''error''),
          (''redis'', if dh_redis h then ''ok'' else ''error''),
          (''content_api'', if dh_content_api h then ''ok'' else ''error'')]), w))"

end
