(* ===== verification/Transports.thy ===== *)
theory Transports
  imports Grpc
begin

text \<open>
  The two transports together: which HTTP request and which RPC ask for the same thing, that they then do
  the same thing and answer alike, what every HTTP reply looks like, and what a request has to pass
  before it can write.
\<close>

section \<open>Calls and answers\<close>

datatype rpc_call =
    RpcLike p_content_ref
  | RpcUnlike p_content_ref
  | RpcGetCount p_content_ref
  | RpcGetStatus p_content_ref
  | RpcBatchCounts "p_content_ref list"
  | RpcBatchStatuses "p_content_ref list"
  | RpcGetUserLikes p_user_likes_request
  | RpcGetLeaderboard p_leaderboard_request
  | RpcStreamLikes p_content_ref

datatype rpc_reply =
    ReplyLike p_like_response
  | ReplyCount p_count_response
  | ReplyStatus p_status_response
  | ReplyCounts "p_count_response list"
  | ReplyStatuses "p_status_response list"
  | ReplyUserLikes p_user_likes_response
  | ReplyLeaderboard p_leaderboard_response
  | ReplyStream string

definition rpc_map :: "('r \<Rightarrow> 'q) \<Rightarrow> ('w, 'r) rpc \<Rightarrow> ('w, 'q) rpc" where
  "rpc_map f g = rpc_then g (\<lambda>v. rpc_pure (Inr (f v)))"

fun grpc_serve :: "'w app \<Rightarrow> headers \<Rightarrow> string option \<Rightarrow> rpc_call \<Rightarrow> ('w, rpc_reply) rpc" where
  "grpc_serve a md remote (RpcLike c) = rpc_map ReplyLike (grpc_like a md c)"
| "grpc_serve a md remote (RpcUnlike c) = rpc_map ReplyLike (grpc_unlike a md c)"
| "grpc_serve a md remote (RpcGetCount c) = rpc_map ReplyCount (grpc_get_count a md remote c)"
| "grpc_serve a md remote (RpcGetStatus c) = rpc_map ReplyStatus (grpc_get_status a md c)"
| "grpc_serve a md remote (RpcBatchCounts cs) = rpc_map ReplyCounts (grpc_batch_counts a md remote cs)"
| "grpc_serve a md remote (RpcBatchStatuses cs) = rpc_map ReplyStatuses (grpc_batch_statuses a md cs)"
| "grpc_serve a md remote (RpcGetUserLikes q) = rpc_map ReplyUserLikes (grpc_get_user_likes a md q)"
| "grpc_serve a md remote (RpcGetLeaderboard q) = rpc_map ReplyLeaderboard (grpc_get_leaderboard a md remote q)"
| "grpc_serve a md remote (RpcStreamLikes c) = rpc_map ReplyStream (grpc_stream_likes a md remote c)"

text \<open>A route with the limit layer it sits under.\<close>

definition http_route :: "'w app \<Rightarrow> headers \<Rightarrow> http_call \<Rightarrow> 'w handler" where
  "http_route a hdr call =
     (if public_read call then read_rate_limit (server_check a) (ap_config a) BodyError hdr (route a hdr call)
      else route a hdr call)"

text \<open>The same request on both transports. Where HTTP takes the content from the path it checks it before
  the limit, gRPC after; there the content has to be valid for the two to count alike.\<close>

definition window_number :: "time_window \<Rightarrow> int" where
  "window_number w = (case w of Day \<Rightarrow> 1 | Week \<Rightarrow> 2 | Month \<Rightarrow> 3 | All \<Rightarrow> 4)"

definition content_given :: "'w app \<Rightarrow> string \<Rightarrow> string \<Rightarrow> bool" where
  "content_given a ct cid \<longleftrightarrow> is_valid_content_type (ap_config a) ct \<and> uuid_parse (ap_codec a) cid \<noteq> None"

definition same_items :: "codec \<Rightarrow> content_ref list \<Rightarrow> p_content_ref list \<Rightarrow> bool" where
  "same_items cx is rs \<longleftrightarrow> list_all2 (\<lambda>i r. pc_type r = cr_type i \<and> uuid_parse cx (pc_id r) = Some (cr_id i)) is rs"

inductive same_call :: "'w app \<Rightarrow> http_call \<Rightarrow> rpc_call \<Rightarrow> bool" for a where
  like: "uuid_parse (ap_codec a) s = Some cid \<Longrightarrow>
     same_call a (PostLike (Inr (ct, cid))) (RpcLike \<lparr>pc_type = ct, pc_id = s\<rparr>)"
| unlike: "content_given a ct s \<Longrightarrow>
     same_call a (DeleteLike (Some (ct, s))) (RpcUnlike \<lparr>pc_type = ct, pc_id = s\<rparr>)"
| count: "same_call a (GetCount (Some (ct, s))) (RpcGetCount \<lparr>pc_type = ct, pc_id = s\<rparr>)"
| status: "content_given a ct s \<Longrightarrow>
     same_call a (GetStatus (Some (ct, s))) (RpcGetStatus \<lparr>pc_type = ct, pc_id = s\<rparr>)"
| batch_counts: "same_items (ap_codec a) is rs \<Longrightarrow> same_call a (PostBatchCounts (Inr is)) (RpcBatchCounts rs)"
| batch_statuses: "same_items (ap_codec a) is rs \<Longrightarrow> same_call a (PostBatchStatuses (Inr is)) (RpcBatchStatuses rs)"
| user_likes: "same_call a (GetUserLikes (Inr \<lparr>pp_cursor = c, pp_limit = Some l, pp_type = t\<rparr>))
     (RpcGetUserLikes \<lparr>pur_page = Some (c, l), pur_type = t\<rparr>)"
| user_likes_default: "same_call a (GetUserLikes (Inr \<lparr>pp_cursor = None, pp_limit = None, pp_type = t\<rparr>))
     (RpcGetUserLikes \<lparr>pur_page = None, pur_type = t\<rparr>)"
| leaderboard: "same_call a (GetTop (Inr \<lparr>lp_type = t, lp_window = Some (tw_as_str w), lp_limit = Some l\<rparr>))
     (RpcGetLeaderboard \<lparr>plb_window = window_number w, plb_type = t, plb_limit = l\<rparr>)"
| stream: "same_call a (GetStream (Inr (ct, s))) (RpcStreamLikes \<lparr>pc_type = ct, pc_id = s\<rparr>)"

text \<open>The message a JSON body corresponds to.\<close>

fun proto_of_body :: "codec \<Rightarrow> rpc_call \<Rightarrow> body \<Rightarrow> rpc_reply option" where
  "proto_of_body cx (RpcLike c) b =
     (case b of BodyAction r \<Rightarrow> Some (ReplyLike (like_to_proto r)) | _ \<Rightarrow> None)"
| "proto_of_body cx (RpcUnlike c) b =
     (case b of BodyAction r \<Rightarrow> Some (ReplyLike (like_to_proto r)) | _ \<Rightarrow> None)"
| "proto_of_body cx (RpcGetCount c) b =
     (case b of BodyCount r \<Rightarrow> Some (ReplyCount (count_to_proto cx r)) | _ \<Rightarrow> None)"
| "proto_of_body cx (RpcGetStatus c) b =
     (case b of BodyStatus r \<Rightarrow> Some (ReplyStatus (to_proto_status r (pc_type c) (pc_id c))) | _ \<Rightarrow> None)"
| "proto_of_body cx (RpcBatchCounts cs) b =
     (case b of BodyCounts rs \<Rightarrow> Some (ReplyCounts (map (batch_count_to_proto cx) rs)) | _ \<Rightarrow> None)"
| "proto_of_body cx (RpcBatchStatuses cs) b =
     (case b of BodyStatuses rs \<Rightarrow> Some (ReplyStatuses (map (batch_status_to_proto cx) rs)) | _ \<Rightarrow> None)"
| "proto_of_body cx (RpcGetUserLikes q) b =
     (case b of BodyLikes r \<Rightarrow> Some (ReplyUserLikes \<lparr>pus_items = map (item_to_proto cx) (pg_items r), pus_next_cursor = pg_next_cursor r,
                           pus_has_more = pg_has_more r\<rparr>) | _ \<Rightarrow> None)"
| "proto_of_body cx (RpcGetLeaderboard q) b =
     (case b of BodyTop r \<Rightarrow> Some (ReplyLeaderboard \<lparr>plo_items = map (top_to_proto cx) (tlr_items r), plo_window = tlr_window r, plo_type = tlr_type r\<rparr>) | _ \<Rightarrow> None)"
| "proto_of_body cx (RpcStreamLikes c) b =
     (case b of BodyStream ch \<Rightarrow> Some (ReplyStream ch) | _ \<Rightarrow> None)"

definition answers_alike :: "codec \<Rightarrow> rpc_call \<Rightarrow> body reply \<Rightarrow> status + rpc_reply \<Rightarrow> bool" where
  "answers_alike cx call r q \<longleftrightarrow>
     (case q of
        Inr v \<Rightarrow> rp_status r \<in> {200, 201} \<and> proto_of_body cx call (rp_body r) = Some v
      | Inl st \<Rightarrow> (\<exists>e. rp_body r = BodyError e \<and> rp_status r = api_http_status e) \<and> fst st = code_of_http (rp_status r))"

section \<open>Simulation\<close>

definition alike :: "codec \<Rightarrow> rpc_call \<Rightarrow> 'w handler \<Rightarrow> ('w, rpc_reply) rpc \<Rightarrow> bool" where
  "alike cx call h g \<longleftrightarrow> (\<forall>s. snd (h s) = snd (g s) \<and> answers_alike cx call (fst (h s)) (fst (g s)))"

text \<open>The part after the guards: a service call with its error.\<close>

definition serves_alike ::
  "codec \<Rightarrow> rpc_call \<Rightarrow> ('r \<Rightarrow> body) \<Rightarrow> ('w server \<Rightarrow> (app_error + 'r) \<times> 'w server) \<Rightarrow> ('w, rpc_reply) rpc \<Rightarrow> bool" where
  "serves_alike cx call f k g \<longleftrightarrow>
     (\<forall>s. snd (k s) = snd (g s)
        \<and> (case fst (k s) of
             Inl e \<Rightarrow> (\<exists>st. fst (g s) = Inl st \<and> fst st = code_of_http (http_status (app_error_code e)))
           | Inr v \<Rightarrow> (\<exists>p. fst (g s) = Inr p \<and> proto_of_body cx call (f v) = Some p)))"

lemma rpc_then_assoc: "rpc_then (rpc_then f g) h = rpc_then f (\<lambda>v. rpc_then (g v) h)"
  by (rule ext) (simp add: rpc_then_def split: prod.splits sum.splits)

lemma rpc_pure_then [simp]: "rpc_then (rpc_pure (Inr v)) k = k v"
  by (rule ext) (simp add: rpc_then_def rpc_pure_def)

lemma rpc_map_then [simp]: "rpc_map f (rpc_then g k) = rpc_then g (\<lambda>v. rpc_map f (k v))"
  by (simp add: rpc_map_def rpc_then_assoc)

lemma rpc_map_pure [simp]: "rpc_map f (rpc_pure (Inr v)) = rpc_pure (Inr (f v))"
  by (simp add: rpc_map_def)

lemma error_answers: "fst st = code_of_http (http_status (app_error_code e)) \<Longrightarrow> answers_alike cx call (api_error_response e) (Inl st)"
  by (simp add: answers_alike_def api_error_response_def json_reply_def api_http_status_def Let_def)

lemma json_answers: "st \<in> {200, 201} \<Longrightarrow> proto_of_body cx call b = Some p \<Longrightarrow> answers_alike cx call (json_reply st b) (Inr p)"
  by (simp add: answers_alike_def json_reply_def)

lemma auth_answers: "answers_alike cx call (auth_error_response BodyError f) (Inl (auth_failure_to_status f))"
  by (cases f) (simp_all add: answers_alike_def auth_error_response_def api_http_status_def api_error_new_def code_of_http_def)

lemma limited_answers: "answers_alike cx call (rate_limited_response BodyError rl) (Inl (GResourceExhausted, m))"
  by (simp add: answers_alike_def rate_limited_response_def add_rate_limit_headers_def set_header_def
      api_http_status_def api_error_new_def code_of_http_def Let_def)

lemma add_headers_fields [simp]:
  "rp_status (add_rate_limit_headers r rl) = rp_status r" "rp_body (add_rate_limit_headers r rl) = rp_body r"
  by (simp_all add: add_rate_limit_headers_def set_header_def Let_def)

lemma headers_answers [simp]: "answers_alike cx call (add_rate_limit_headers r rl) q = answers_alike cx call r q"
  by (cases q) (simp_all add: answers_alike_def)

lemma alike_user:
  assumes "\<And>user. alike cx call (k user) (k' user)"
  shows "alike cx call (with_user a hdr k) (rpc_then (grpc_authenticate a hdr) k')"
proof -
  have "snd (with_user a hdr k s) = snd (rpc_then (grpc_authenticate a hdr) k' s) \<and>
      answers_alike cx call (fst (with_user a hdr k s)) (fst (rpc_then (grpc_authenticate a hdr) k' s))" for s
  proof (cases "hdr ''authorization''")
    case None
    then show ?thesis using auth_answers [of cx call MissingToken]
      by (simp add: with_user_def on_profile_def auth_user_extract_def grpc_authenticate_def extract_token_def
          rpc_then_def rpc_pure_def)
  next
    case (Some h)
    show ?thesis
    proof (cases "parse_bearer_token h")
      case (Inl f)
      then show ?thesis using Some auth_answers [of cx call f]
        by (simp add: with_user_def on_profile_def auth_user_extract_def grpc_authenticate_def extract_token_def
            rpc_then_def rpc_pure_def)
    next
      case (Inr token)
      obtain r b w where v: "authenticate_token (ap_ext a, ap_profile_breaker a) (ap_token_validator a) token
          (sv_profile s, sv_world s) = (r, b, w)" by (metis prod_cases3)
      show ?thesis using Some Inr v auth_answers assms
        by (cases r) (simp_all add: alike_def with_user_def on_profile_def auth_user_extract_def grpc_authenticate_def
            extract_token_def rpc_then_def rpc_pure_def validate_token_def)
    qed
  qed
  then show ?thesis by (simp add: alike_def)
qed

lemma limited_runs:
  assumes "on_limiter check s = (rl, s1)"
  shows "\<not> allowed rl \<Longrightarrow> limited check st f k s = (rate_limited_response BodyError rl, s1)"
    and "allowed rl \<Longrightarrow> k s1 = (Inl e, s2) \<Longrightarrow> limited check st f k s = (api_error_response e, s2)"
    and "allowed rl \<Longrightarrow> k s1 = (Inr v, s2) \<Longrightarrow>
      limited check st f k s = (add_rate_limit_headers (json_reply st (f v)) rl, s2)"
  using assms by (simp_all add: limited_def)

lemma limit_runs:
  assumes "on_limiter check s = (rl, s1)"
    and "limit s = (case on_limiter check s of (r, s) \<Rightarrow> (map_err limit_error (enforce_result r), s))"
  shows "\<not> allowed rl \<Longrightarrow> \<exists>m. rpc_then limit (\<lambda>_. g) s = (Inl (GResourceExhausted, m), s1)"
    and "allowed rl \<Longrightarrow> rpc_then limit (\<lambda>_. g) s = g s1"
  using assms by (simp_all add: rpc_then_def enforce_result_def)

lemma alike_limited:
  assumes "serves_alike cx call f k g" "st \<in> {200, 201}"
    and g': "\<And>s. limit s = (case on_limiter check s of (r, s) \<Rightarrow> (map_err limit_error (enforce_result r), s))"
  shows "alike cx call (limited check st f k) (rpc_then limit (\<lambda>_. g))"
proof -
  have "snd (limited check st f k s) = snd (rpc_then limit (\<lambda>_. g) s) \<and>
      answers_alike cx call (fst (limited check st f k s)) (fst (rpc_then limit (\<lambda>_. g) s))" for s
  proof -
    obtain rl s1 where c: "on_limiter check s = (rl, s1)" by fastforce
    show ?thesis
    proof (cases "allowed rl")
      case False
      then obtain m where "rpc_then limit (\<lambda>_. g) s = (Inl (GResourceExhausted, m), s1)"
        using limit_runs(1) [where limit = limit and s = s, OF c g' [of s]] by metis
      then show ?thesis by (simp add: limited_runs(1) [OF c False] limited_answers)
    next
      case True
      note runs = limit_runs(2) [where limit = limit and s = s and g = g, OF c g' [of s] True]
      obtain q s3 where q: "g s1 = (q, s3)" by fastforce
      obtain v s2 where k: "k s1 = (v, s2)" by fastforce
      have sim: "s2 = s3" "case v of Inl e \<Rightarrow> (\<exists>st. q = Inl st \<and> fst st = code_of_http (http_status (app_error_code e)))
           | Inr v \<Rightarrow> (\<exists>p. q = Inr p \<and> proto_of_body cx call (f v) = Some p)"
        using assms(1) [unfolded serves_alike_def, rule_format, of s1] by (cases v; simp add: k q)+
      show ?thesis
      proof (cases v)
        case (Inl e)
        then obtain t where "q = Inl t" "fst t = code_of_http (http_status (app_error_code e))" using sim by auto
        then show ?thesis using sim(1) error_answers [of t e cx call]
          by (simp add: runs q limited_runs(2) [where k = k, OF c True k [unfolded Inl]])
      next
        case (Inr x)
        then obtain p where p: "q = Inr p" "proto_of_body cx call (f x) = Some p" using sim by auto
        then have "answers_alike cx call (json_reply st (f x)) q" using json_answers [OF assms(2)] by simp
        then show ?thesis using sim(1) by (simp add: runs q limited_runs(3) [where k = k, OF c True k [unfolded Inr]])
      qed
    qed
  qed
  then show ?thesis by (simp add: alike_def)
qed

lemma alike_input: "alike cx call (k i) g \<Longrightarrow> alike cx call (with_input (Inr i) k) g"
  by (simp add: alike_def with_input_def)

lemma alike_answer:
  assumes "serves_alike cx call f k g" "st \<in> {200, 201}"
  shows "alike cx call (\<lambda>s. case k s of (r, s) \<Rightarrow> (answer st f r, s)) g"
proof -
  have "snd (case k s of (r, s) \<Rightarrow> (answer st f r, s)) = snd (g s) \<and>
      answers_alike cx call (fst (case k s of (r, s) \<Rightarrow> (answer st f r, s))) (fst (g s))" for s
  proof -
    obtain r s' where k: "k s = (r, s')" by fastforce
    show ?thesis using assms(1) [unfolded serves_alike_def, rule_format, of s]
      by (cases r) (auto simp: k answer_def error_answers intro: json_answers [OF assms(2)])
  qed
  then show ?thesis by (simp add: alike_def)
qed

lemma alike_public:
  assumes "alike cx call h g" "client_ip hdr = extract_client_ip hdr remote"
  shows "alike cx call (read_rate_limit (server_check a) (ap_config a) BodyError hdr h)
           (rpc_then (grpc_public_read_limit a hdr remote) (\<lambda>_. g))"
proof -
  have "snd (read_rate_limit (server_check a) (ap_config a) BodyError hdr h s)
        = snd (rpc_then (grpc_public_read_limit a hdr remote) (\<lambda>_. g) s) \<and>
      answers_alike cx call (fst (read_rate_limit (server_check a) (ap_config a) BodyError hdr h s))
        (fst (rpc_then (grpc_public_read_limit a hdr remote) (\<lambda>_. g) s))" for s
  proof -
    let ?check = "check_rate_limit_inner (ap_ext a) (''rl:ip:read:'' @ show_u64 (fnv1a_hash (client_ip hdr)))
      (rate_limit_read_per_minute (ap_config a)) 60 (sv_seq s, sv_world s)"
    obtain rl n w where c: "?check = (rl, n, w)" by (metis prod_cases3)
    let ?s = "s\<lparr>sv_seq := n, sv_world := w\<rparr>"
    obtain r s' where h: "h ?s = (r, s')" by fastforce
    show ?thesis
      using c h assms(1) [unfolded alike_def, rule_format, of ?s] limited_answers
      by (cases "allowed rl") (simp_all add: read_rate_limit_def server_check_def on_limiter_def rpc_then_def
          grpc_public_read_limit_def check_grpc_rate_limit_def assms(2))
  qed
  then show ?thesis by (simp add: alike_def)
qed

lemma write_limit_steps:
  "grpc_user_write_limit a u s = (case on_limiter (write_check a u) s of (r, s) \<Rightarrow> (map_err limit_error (enforce_result r), s))"
  by (simp add: grpc_user_write_limit_def write_check_def on_limiter_def enforce_user_write_limit_def split: prod.splits)

lemma read_limit_steps:
  "grpc_user_read_limit a u s = (case on_limiter (read_check a u) s of (r, s) \<Rightarrow> (map_err limit_error (enforce_result r), s))"
  by (simp add: grpc_user_read_limit_def read_check_def on_limiter_def enforce_user_read_limit_def split: prod.splits)

text \<open>After the guards: the service call, with what is checked before it.\<close>

lemma serves_service:
  assumes "\<And>v. proto_of_body cx call (f v) = Some (F v)"
  shows "serves_alike cx call f k (rpc_then (rpc_service k) (\<lambda>v. rpc_pure (Inr (F v))))"
  unfolding serves_alike_def
proof
  fix s
  obtain r s' where "k s = (r, s')" by fastforce
  then show "snd (k s) = snd (rpc_then (rpc_service k) (\<lambda>v. rpc_pure (Inr (F v))) s) \<and>
      (case fst (k s) of
         Inl e \<Rightarrow> \<exists>st. fst (rpc_then (rpc_service k) (\<lambda>v. rpc_pure (Inr (F v))) s) = Inl st
             \<and> fst st = code_of_http (http_status (app_error_code e))
       | Inr v \<Rightarrow> \<exists>p. fst (rpc_then (rpc_service k) (\<lambda>v. rpc_pure (Inr (F v))) s) = Inr p
             \<and> proto_of_body cx call (f v) = Some p)"
    using assms status_agrees
    by (cases r) (simp_all add: rpc_then_def rpc_service_def rpc_pure_def into_status_def)
qed

lemma serves_after_check:
  assumes "serves_alike cx call f k g"
    and "\<And>s. case c of Inl e \<Rightarrow> fst (g' s) = Inl (app_error_to_status e) \<and> snd (g' s) = s | Inr u \<Rightarrow> g' s = g s"
  shows "serves_alike cx call f (after_check c k) g'"
proof (cases c)
  case (Inl e)
  then show ?thesis using assms(2) status_agrees by (simp add: serves_alike_def after_check_def)
next
  case (Inr u)
  then have "g' = g" using assms(2) by (simp add: fun_eq_iff)
  moreover have "after_check c k = k" using Inr by (simp add: fun_eq_iff after_check_def)
  ultimately show ?thesis using assms(1) by simp
qed

lemma serves_checked:
  assumes "serves_alike cx call f k g"
  shows "serves_alike cx call f (after_check c k) (rpc_then (rpc_pure (into_status c)) (\<lambda>_. g))"
  using assms by (rule serves_after_check) (simp add: rpc_then_def rpc_pure_def into_status_def split: sum.splits)

lemma validate_filter: "grpc_validate_filter a filt = rpc_pure (into_status (check_filter a filt))"
  by (cases filt) (simp_all add: grpc_validate_filter_def grpc_validate_type_def check_filter_def into_status_def)

lemma content_steps:
  assumes "uuid_parse (ap_codec a) s = Some cid"
  shows "rpc_then (grpc_content a \<lparr>pc_type = ct, pc_id = s\<rparr>) k
    = rpc_then (rpc_pure (into_status (ensure_registered_content_type (ap_config a) ct))) (\<lambda>_. k cid)"
  by (simp add: grpc_content_def grpc_validate_type_def parse_uuid_def assms rpc_then_assoc)

lemma refs_steps:
  assumes "same_items (ap_codec a) is rs"
  shows "rpc_then (grpc_refs a rs) k
    = rpc_then (rpc_pure (into_status (ensure_registered_batch_items (ap_config a) is))) (\<lambda>_. k (extract_batch_items is))"
proof -
  have "extract_content_refs (ap_codec a) rs = Inr (extract_batch_items is)"
    using assms unfolding extract_refs_ok same_items_def extract_batch_items_def
    by (simp add: list_all2_conv_all_nth)
  moreover have "map fst (extract_batch_items is) = map cr_type is"
    by (simp add: extract_batch_items_def comp_def)
  ultimately show ?thesis
    by (simp add: grpc_refs_def rpc_then_assoc ensure_registered_batch_items_def)
qed

lemma path_steps:
  "content_path_extract (ap_codec a) (ap_config a) (Some (ct, s)) =
     (case ensure_registered_content_type (ap_config a) ct of
        Inl e \<Rightarrow> Inl e
      | Inr _ \<Rightarrow> (case uuid_parse (ap_codec a) s of None \<Rightarrow> Inl (InvalidContentId s) | Some cid \<Rightarrow> Inr (ct, cid)))"
  by (simp add: content_path_extract_def)

text \<open>Content from the path: refused alike, or the same content.\<close>

lemma alike_path:
  assumes "\<And>cid. uuid_parse (ap_codec a) s = Some cid \<Longrightarrow> alike cx call (k ct cid) (g cid)"
  shows "alike cx call (with_path a (Some (ct, s)) k) (rpc_then (grpc_content a \<lparr>pc_type = ct, pc_id = s\<rparr>) g)"
proof (cases "is_valid_content_type (ap_config a) ct")
  case False
  then show ?thesis using error_answers [of _ "ContentTypeUnknown ct"]
    by (simp add: alike_def with_path_def path_steps ensure_registered_content_type_def grpc_content_def
        grpc_validate_type_def into_status_def rpc_then_def rpc_pure_def code_of_http_def)
next
  case True
  show ?thesis
  proof (cases "uuid_parse (ap_codec a) s")
    case None
    then show ?thesis using True error_answers [of _ "InvalidContentId s"]
      by (simp add: alike_def with_path_def path_steps ensure_registered_content_type_def grpc_content_def
          grpc_validate_type_def into_status_def rpc_then_def rpc_pure_def parse_uuid_def code_of_http_def)
  next
    case (Some cid)
    then have "with_path a (Some (ct, s)) k = k ct cid"
      by (simp add: fun_eq_iff with_path_def path_steps ensure_registered_content_type_def True)
    moreover have "rpc_then (grpc_content a \<lparr>pc_type = ct, pc_id = s\<rparr>) g = g cid"
      by (simp add: content_steps [OF Some] ensure_registered_content_type_def True into_status_def)
    ultimately show ?thesis using assms [OF Some] by simp
  qed
qed

lemma given_path:
  assumes "content_given a ct s"
  shows "with_path a (Some (ct, s)) k = k ct (the (uuid_parse (ap_codec a) s))"
    and "rpc_then (grpc_content a \<lparr>pc_type = ct, pc_id = s\<rparr>) g = g (the (uuid_parse (ap_codec a) s))"
proof -
  obtain cid where c: "uuid_parse (ap_codec a) s = Some cid" and v: "is_valid_content_type (ap_config a) ct"
    using assms by (auto simp: content_given_def)
  show "with_path a (Some (ct, s)) k = k ct (the (uuid_parse (ap_codec a) s))"
    by (simp add: fun_eq_iff with_path_def path_steps ensure_registered_content_type_def c v)
  show "rpc_then (grpc_content a \<lparr>pc_type = ct, pc_id = s\<rparr>) g = g (the (uuid_parse (ap_codec a) s))"
    by (simp add: content_steps [OF c] ensure_registered_content_type_def v into_status_def c)
qed

lemma clamp_again: "clamp 1 100 (clamp 1 100 n) = clamp 1 100 n" "clamp 1 50 (clamp 1 50 n) = clamp 1 50 n"
  by simp_all

lemma clamped_queries:
  "user_likes_query a user filt cursor (clamp 1 100 n) = user_likes_query a user filt cursor n"
  "leaderboard_query a ct win (clamp 1 50 n) = leaderboard_query a ct win n"
  unfolding user_likes_query_def leaderboard_query_def clamp_again by (rule refl)+

lemma window_back [simp]: "from_proto_window (window_number w) = Inr w"
  by (cases w) (simp_all add: from_proto_window_def window_number_def)

lemma check_window_back [simp]: "check_window (Some (tw_as_str w)) = Inr w"
  by (simp add: check_window_def)

text \<open>The transports agree, route by route.\<close>

lemma alike_post_like:
  assumes "uuid_parse (ap_codec a) s = Some cid"
  shows "alike (ap_codec a) (RpcLike \<lparr>pc_type = ct, pc_id = s\<rparr>) (like_content_handler a hdr (Inr (ct, cid)))
    (rpc_map ReplyLike (grpc_like a hdr \<lparr>pc_type = ct, pc_id = s\<rparr>))"
  unfolding like_content_handler_def grpc_like_def rpc_map_then rpc_map_pure like_service_defs content_steps [OF assms] p_content_ref.simps
  by (intro alike_user alike_input, unfold prod.case, intro alike_limited serves_checked serves_service)
    (simp_all add: write_limit_steps)

lemma alike_delete_like:
  assumes "content_given a ct s"
  shows "alike (ap_codec a) (RpcUnlike \<lparr>pc_type = ct, pc_id = s\<rparr>) (unlike_content_handler a hdr (Some (ct, s)))
    (rpc_map ReplyLike (grpc_unlike a hdr \<lparr>pc_type = ct, pc_id = s\<rparr>))"
  unfolding unlike_content_handler_def grpc_unlike_def rpc_map_then rpc_map_pure like_service_defs p_content_ref.simps given_path [OF assms]
  by (intro alike_user alike_limited serves_service) (simp_all add: write_limit_steps)

lemma alike_get_status:
  assumes "content_given a ct s"
  shows "alike (ap_codec a) (RpcGetStatus \<lparr>pc_type = ct, pc_id = s\<rparr>) (get_status_handler a hdr (Some (ct, s)))
    (rpc_map ReplyStatus (grpc_get_status a hdr \<lparr>pc_type = ct, pc_id = s\<rparr>))"
  unfolding get_status_handler_def grpc_get_status_def rpc_map_then rpc_map_pure like_service_defs p_content_ref.simps given_path [OF assms]
  by (intro alike_user alike_limited serves_service) (simp_all add: read_limit_steps)

lemma alike_batch_statuses:
  assumes "same_items (ap_codec a) is rs"
  shows "alike (ap_codec a) (RpcBatchStatuses rs) (batch_statuses_handler a hdr (Inr is))
    (rpc_map ReplyStatuses (grpc_batch_statuses a hdr rs))"
  unfolding batch_statuses_handler_def grpc_batch_statuses_def rpc_map_then rpc_map_pure like_service_defs refs_steps [OF assms]
  by (intro alike_user alike_input alike_limited serves_checked serves_service) (simp_all add: read_limit_steps)

text \<open>The public reads, under the limit layer.\<close>

lemma alike_get_count:
  assumes "client_ip hdr = extract_client_ip hdr remote"
  shows "alike (ap_codec a) (RpcGetCount \<lparr>pc_type = ct, pc_id = s\<rparr>)
    (read_rate_limit (server_check a) (ap_config a) BodyError hdr (get_count_handler a (Some (ct, s))))
    (rpc_map ReplyCount (grpc_get_count a hdr remote \<lparr>pc_type = ct, pc_id = s\<rparr>))"
  unfolding get_count_handler_def grpc_get_count_def rpc_map_then rpc_map_pure like_service_defs p_content_ref.simps
  by (intro alike_public [OF _ assms] alike_path alike_answer serves_service) simp_all

lemma alike_batch_counts:
  assumes "client_ip hdr = extract_client_ip hdr remote" "same_items (ap_codec a) is rs"
  shows "alike (ap_codec a) (RpcBatchCounts rs)
    (read_rate_limit (server_check a) (ap_config a) BodyError hdr (batch_counts_handler a (Inr is)))
    (rpc_map ReplyCounts (grpc_batch_counts a hdr remote rs))"
  unfolding batch_counts_handler_def grpc_batch_counts_def rpc_map_then rpc_map_pure like_service_defs refs_steps [OF assms(2)]
  by (intro alike_public [OF _ assms(1)] alike_input alike_answer serves_checked serves_service) simp_all

lemma alike_leaderboard:
  assumes "client_ip hdr = extract_client_ip hdr remote"
  shows "alike (ap_codec a) (RpcGetLeaderboard \<lparr>plb_window = window_number w, plb_type = t, plb_limit = l\<rparr>)
    (read_rate_limit (server_check a) (ap_config a) BodyError hdr
      (get_leaderboard_handler a (Inr \<lparr>lp_type = t, lp_window = Some (tw_as_str w), lp_limit = Some l\<rparr>)))
    (rpc_map ReplyLeaderboard (grpc_get_leaderboard a hdr remote
      \<lparr>plb_window = window_number w, plb_type = t, plb_limit = l\<rparr>))"
  unfolding get_leaderboard_handler_def grpc_get_leaderboard_def rpc_map_then rpc_map_pure like_service_defs p_leaderboard_request.simps
    window_back map_err.simps rpc_pure_then validate_filter
  by (intro alike_public [OF _ assms] alike_input,
      unfold leaderboard_params.simps check_window_back sum.case unwrap_limit_def option.case clamped_queries,
      intro alike_answer serves_checked serves_service) simp_all

lemma alike_stream:
  assumes "client_ip hdr = extract_client_ip hdr remote"
  shows "alike (ap_codec a) (RpcStreamLikes \<lparr>pc_type = ct, pc_id = s\<rparr>)
    (read_rate_limit (server_check a) (ap_config a) BodyError hdr (stream_handler a (Inr (ct, s))))
    (rpc_map ReplyStream (grpc_stream_likes a hdr remote \<lparr>pc_type = ct, pc_id = s\<rparr>))"
proof -
  have "alike (ap_codec a) (RpcStreamLikes \<lparr>pc_type = ct, pc_id = s\<rparr>) (stream_handler a (Inr (ct, s)))
      (rpc_then (grpc_content a \<lparr>pc_type = ct, pc_id = s\<rparr>)
        (\<lambda>_. rpc_pure (Inr (ReplyStream (''sse:'' @ ct @ '':'' @ s)))))"
    using error_answers [of _ "ContentTypeUnknown ct"] error_answers [of _ "InvalidContentId s"]
    by (cases "is_valid_content_type (ap_config a) ct"; cases "uuid_parse (ap_codec a) s")
      (simp_all add: alike_def stream_handler_def with_input_def like_stream_def grpc_content_def grpc_validate_type_def
        ensure_registered_content_type_def parse_uuid_def into_status_def rpc_then_def rpc_pure_def answer_def
        code_of_http_def json_answers)
  then show ?thesis
    unfolding grpc_stream_likes_def rpc_map_then rpc_map_pure like_service_defs p_content_ref.simps
    by (rule alike_public [OF _ assms])
qed

lemma alike_user_likes:
  "alike (ap_codec a) (RpcGetUserLikes \<lparr>pur_page = Some (c, l), pur_type = t\<rparr>)
     (get_user_likes_handler a hdr (Inr \<lparr>pp_cursor = c, pp_limit = Some l, pp_type = t\<rparr>))
     (rpc_map ReplyUserLikes (grpc_get_user_likes a hdr \<lparr>pur_page = Some (c, l), pur_type = t\<rparr>))"
  "alike (ap_codec a) (RpcGetUserLikes \<lparr>pur_page = None, pur_type = t\<rparr>)
     (get_user_likes_handler a hdr (Inr \<lparr>pp_cursor = None, pp_limit = None, pp_type = t\<rparr>))
     (rpc_map ReplyUserLikes (grpc_get_user_likes a hdr \<lparr>pur_page = None, pur_type = t\<rparr>))"
  unfolding get_user_likes_handler_def grpc_get_user_likes_def rpc_map_then rpc_map_pure like_service_defs p_user_likes_request.simps
    option.case Let_def prod.case validate_filter
  by (intro alike_user alike_input,
      unfold pagination_params.simps unwrap_limit_def option.case clamped_queries,
      intro alike_limited serves_checked serves_service; simp add: read_limit_steps)+

lemma same_call_alike:
  assumes "same_call a call rpc" "public_read call \<Longrightarrow> client_ip hdr = extract_client_ip hdr remote"
  shows "alike (ap_codec a) rpc (http_route a hdr call) (grpc_serve a hdr remote rpc)"
  using assms
  by (cases rule: same_call.cases)
    (simp_all add: http_route_def alike_post_like alike_delete_like alike_get_count alike_get_status alike_batch_counts
      alike_batch_statuses alike_user_likes alike_leaderboard alike_stream)

text \<open>C5. The two transports agree. When an HTTP request and an RPC ask for the same thing (\<open>same_call\<close>) with
  the same headers, and for a public read both see the same client address, they leave the same process state
  behind - the same writes, cache entries, published events, breaker and limiter state - and the answers
  correspond: success with the body's message, or failures of the same kind.\<close>

theorem transports_agree:
  assumes "same_call a call rpc"
    and "public_read call \<Longrightarrow> client_ip hdr = extract_client_ip hdr remote"
  shows "snd (http_route a hdr call s) = snd (grpc_serve a hdr remote rpc s)
    \<and> answers_alike (ap_codec a) rpc (fst (http_route a hdr call s)) (fst (grpc_serve a hdr remote rpc s))"
  using same_call_alike [OF assms] by (simp add: alike_def)

theorem transports_agree_witness:
  "fst (grpc_serve sample_app from_address None (RpcStreamLikes \<lparr>pc_type = ''post'', pc_id = ''7''\<rparr>) sample_server)
   = Inr (ReplyStream ''sse:post:7'')"
proof -
  have ip: "client_ip from_address = extract_client_ip from_address None"
    by (simp add: from_address_def) code_simp
  have "rp_body (fst (http_route sample_app from_address (GetStream (Inr (''post'', ''7''))) sample_server))
      = BodyStream ''sse:post:7''"
    by (simp add: http_route_def read_rate_limit_def sample_check_down stream_handler_def with_input_def sample_stream
        answer_def json_reply_def)
  with transports_agree [OF same_call.stream ip, of sample_app "''post''" "''7''" sample_server]
  show ?thesis by (auto simp: answers_alike_def split: sum.splits)
qed

end
