(* ===== verification/Requests.thy ===== *)
theory Requests
  imports Transports
begin

text \<open>
  Whole requests on either transport, and what the process keeps over any sequence of them: a hierarchy of
  locales for properties that the steps of a request keep, with its instances on the model.
\<close>

section \<open>Requests\<close>

text \<open>\<open>handle\<close> is the state a request leaves: \<open>serve\<close> for HTTP; for gRPC the interceptor, then the service.\<close>

datatype request =
    OverHttp headers http_call
  | OverGrpc headers "string option" rpc_call

fun handle :: "(api_error \<Rightarrow> nat) \<Rightarrow> 'w app \<Rightarrow> request \<Rightarrow> 'w server \<Rightarrow> 'w server" where
  "handle len a (OverHttp hdr call) s = snd (serve len a hdr call s)"
| "handle len a (OverGrpc md remote call) s =
     (case grpc_inject_request_id (ap_ext a) md s of
        (rid, s) \<Rightarrow> snd (grpc_serve a (md(''x-request-id'' \<mapsto> rid)) remote call s))"

fun handle_all :: "(api_error \<Rightarrow> nat) \<Rightarrow> 'w app \<Rightarrow> request list \<Rightarrow> 'w server \<Rightarrow> 'w server" where
  "handle_all len a [] s = s"
| "handle_all len a (r # rs) s = handle_all len a rs (handle len a r s)"

fun request_headers :: "request \<Rightarrow> headers" where
  "request_headers (OverHttp hdr _) = hdr"
| "request_headers (OverGrpc md _ _) = md"

section \<open>What every step keeps\<close>

definition keeps :: "('s \<Rightarrow> bool) \<Rightarrow> ('s \<Rightarrow> 'r \<times> 's) \<Rightarrow> bool" where
  "keeps P f \<longleftrightarrow> (\<forall>s. P s \<longrightarrow> P (snd (f s)))"

lemma keepsD: "keeps P f \<Longrightarrow> P s \<Longrightarrow> P (snd (f s))"
  by (simp add: keeps_def)

text \<open>A query changes the database it reads only as far as other connections commit meanwhile.\<close>

definition others_keep :: "'w ext \<Rightarrow> (db \<Rightarrow> bool) \<Rightarrow> bool" where
  "others_keep x I \<longleftrightarrow> (\<forall>w d. I d \<longrightarrow> I (fst (db_others x w) d))"

definition reads :: "'w ext \<Rightarrow> ('w query_state \<Rightarrow> 'r \<times> 'w query_state) \<Rightarrow> bool" where
  "reads x q \<longleftrightarrow> (\<forall>I d w. others_keep x I \<longrightarrow> I d \<longrightarrow> I (fst (snd (q (d, w)))))"

text \<open>The interface: a property of the process that authentication, a limiter call and a read-only query
  keep; with the two commands, every request keeps it.\<close>

locale request_steps =
  fixes a :: "'w app" and P :: "'w server \<Rightarrow> bool"
  assumes profile_step: "keeps P (on_profile (authenticate_token (ap_ext a, ap_profile_breaker a) (ap_token_validator a) token))"
    and limiter_step: "keeps P (on_limiter (check_rate_limit_inner (ap_ext a) key limit secs))"
    and query_step: "P s \<Longrightarrow> (\<And>I. others_keep (ap_ext a) I \<Longrightarrow> I (sv_reader s) \<Longrightarrow> I d) \<Longrightarrow> P (s\<lparr>sv_reader := d, sv_world := w\<rparr>)"
    and clock_step: "keeps P (fast_request_id (ap_ext a))"
begin

lemma keeps_user: "(\<And>u. keeps P (k u)) \<Longrightarrow> keeps P (with_user a hdr k)"
proof -
  assume k: "\<And>u. keeps P (k u)"
  have "P (snd (with_user a hdr k s))" if p: "P s" for s
  proof (cases "hdr ''authorization''")
    case None
    then show ?thesis using p by (simp add: with_user_def on_profile_def auth_user_extract_def)
  next
    case (Some h)
    show ?thesis
    proof (cases "parse_bearer_token h")
      case (Inl f)
      then show ?thesis using Some p by (simp add: with_user_def on_profile_def auth_user_extract_def)
    next
      case (Inr token)
      obtain r b w where v: "authenticate_token (ap_ext a, ap_profile_breaker a) (ap_token_validator a) token
          (sv_profile s, sv_world s) = (r, b, w)" by (metis prod_cases3)
      have "P (s\<lparr>sv_profile := b, sv_world := w\<rparr>)"
        using keepsD [OF profile_step p, of token] v by (simp add: on_profile_def)
      then show ?thesis using Some Inr v keepsD [OF k]
        by (cases r) (simp_all add: with_user_def on_profile_def auth_user_extract_def)
    qed
  qed
  then show ?thesis by (simp add: keeps_def)
qed

lemma keeps_path: "(\<And>ct cid. keeps P (k ct cid)) \<Longrightarrow> keeps P (with_path a params k)"
  by (simp add: keeps_def with_path_def split: sum.split prod.split)

lemma keeps_input: "(\<And>i. keeps P (k i)) \<Longrightarrow> keeps P (with_input inp k)"
  by (simp add: keeps_def with_input_def split: sum.split)

lemma keeps_limited: "keeps P (on_limiter check) \<Longrightarrow> keeps P k \<Longrightarrow> keeps P (limited check st f k)"
proof -
  assume c: "keeps P (on_limiter check)" and k: "keeps P k"
  have "P (snd (limited check st f k s))" if p: "P s" for s
  proof -
    obtain rl s1 where r: "on_limiter check s = (rl, s1)" by fastforce
    obtain v s2 where v: "k s1 = (v, s2)" by fastforce
    have "P s1" "P s2" using keepsD [OF c p] keepsD [OF k, of s1] r v by simp_all
    then show ?thesis using r v by (cases v) (simp_all add: limited_def)
  qed
  then show ?thesis by (simp add: keeps_def)
qed

lemma keeps_checks: "keeps P (on_limiter (write_check a u))" "keeps P (on_limiter (read_check a u))"
  by (simp_all add: write_check_def read_check_def check_user_write_limit_def check_user_read_limit_def limiter_step)

lemma keeps_after_check: "keeps P k \<Longrightarrow> keeps P (after_check c k)"
  by (simp add: keeps_def after_check_def split: sum.split)

lemma keeps_answer: "keeps P k \<Longrightarrow> keeps P (\<lambda>s. case k s of (r, s) \<Rightarrow> (f r, s))"
  by (simp add: keeps_def case_prod_unfold)

lemma keeps_public:
  assumes "keeps P h"
  shows "keeps P (read_rate_limit (server_check a) (ap_config a) BodyError hdr h)"
proof -
  have "P (snd (read_rate_limit (server_check a) (ap_config a) BodyError hdr h s))" if p: "P s" for s
  proof -
    let ?key = "''rl:ip:read:'' @ show_u64 (fnv1a_hash (client_ip hdr))"
    obtain rl s1 where c: "server_check a ?key (rate_limit_read_per_minute (ap_config a)) 60 s = (rl, s1)" by fastforce
    obtain r s2 where h: "h s1 = (r, s2)" by fastforce
    have "P s1" using keepsD [OF limiter_step p] c by (metis server_check_def snd_conv)
    then have "P s2" using keepsD [OF assms] h by fastforce
    with \<open>P s1\<close> show ?thesis using c h by (simp add: read_rate_limit_def)
  qed
  then show ?thesis by (simp add: keeps_def)
qed

lemmas keeps_rules = keeps_user keeps_path keeps_input keeps_limited keeps_checks keeps_after_check keeps_public

end

section \<open>Queries only read\<close>

lemma readsI:
  "(\<And>I d w r d' w'. others_keep x I \<Longrightarrow> I d \<Longrightarrow> q (d, w) = (r, d', w') \<Longrightarrow> I d') \<Longrightarrow> reads x q"
  unfolding reads_def by (metis prod.collapse)

lemma readsD: "reads x q \<Longrightarrow> q (d, w) = (r, d', w') \<Longrightarrow> others_keep x I \<Longrightarrow> I d \<Longrightarrow> I d'"
  unfolding reads_def by (metis fst_conv snd_conv)

lemma meanwhile_keeps: "sql_meanwhile x (d, w) = (d', w') \<Longrightarrow> others_keep x I \<Longrightarrow> I d \<Longrightarrow> I d'"
  by (auto simp: sql_meanwhile_def others_keep_def split: prod.splits) (metis fst_conv)

lemma reads_sql [simp]: "reads x (sql_read x q)"
  by (rule readsI) (auto dest: sql_read_db)

lemma reads_repositories [simp]:
  "reads x (get_count x ct cid)" "reads x (get_like_status x user ct cid)" "reads x (batch_get_counts x items)"
  "reads x (batch_get_statuses x user items)" "reads x (get_user_likes x user filt ts i n)"
  "reads x (get_leaderboard x filt since n)"
proof -
  show "reads x (get_count x ct cid)" "reads x (get_like_status x user ct cid)"
    by (simp_all add: get_count_def get_like_status_def)
  show "reads x (batch_get_counts x items)" "reads x (batch_get_statuses x user items)"
      "reads x (get_user_likes x user filt ts i n)" "reads x (get_leaderboard x filt since n)"
    by (rule readsI; auto simp: batch_get_counts_def batch_get_statuses_def get_user_likes_def get_leaderboard_def Let_def
        split: if_splits prod.splits dest: sql_read_db)+
qed

lemma reads_late_count: "reads x (\<lambda>s. get_count x ct cid (sql_meanwhile x s))"
proof (rule readsI)
  fix I d w r d' w' assume a: "others_keep x I" "I d" "get_count x ct cid (sql_meanwhile x (d, w)) = (r, d', w')"
  obtain d1 w1 where m: "sql_meanwhile x (d, w) = (d1, w1)" by fastforce
  show "I d'" using meanwhile_keeps [OF m a(1,2)] readsD [OF reads_repositories(1), of x ct cid d1 w1 r d' w' I] a m by simp
qed

lemma reads_count: "reads (ap_ext a) (count_query a ct cid)"
proof -
  have lead: "reads x (lead_count x cx cfg ct cid)" for x :: "'a ext" and cx cfg
    by (rule readsI) (auto simp: lead_count_def split: prod.splits sum.splits dest: readsD [OF reads_repositories(1)])
  have follow: "reads x (follow_count x cx ct cid)" for x :: "'a ext" and cx
    by (rule readsI) (auto simp: follow_count_def split: prod.splits option.splits dest: readsD [OF reads_late_count])
  have val: "reads x (get_count_value x cx cfg ct cid)" for x :: "'a ext" and cx cfg
    by (rule readsI) (auto simp: get_count_value_def split: prod.splits option.splits bool.splits
        dest: readsD [OF lead] readsD [OF follow])
  show ?thesis by (rule readsI) (auto simp: count_query_def split: prod.splits sum.splits dest: readsD [OF val])
qed

lemma reads_followers: "reads x (await_followers x cx cfg items follows rs)"
proof (induction follows arbitrary: rs)
  case Nil
  show ?case by (rule readsI) simp
next
  case (Cons f follows)
  obtain k ps where f: "f = (k, ps)" by fastforce
  show ?case
    by (rule readsI)
      (auto simp: f split: prod.splits option.splits sum.splits dest: readsD [OF Cons.IH] readsD [OF reads_late_count])
qed

lemma reads_batch_counts: "reads (ap_ext a) (batch_counts_query a items)"
proof -
  have lead: "reads x (lead_batch x cfg items leads rs)" for x :: "'a ext" and cfg leads rs
    by (rule readsI)
      (auto simp: lead_batch_def split: prod.splits sum.splits if_splits dest: readsD [OF reads_repositories(3)])
  show ?thesis
    by (rule readsI)
      (auto simp: batch_counts_query_def batch_counts_def split: prod.splits sum.splits if_splits
        dest: readsD [OF lead] readsD [OF reads_followers])
qed

lemma reads_status: "reads (ap_ext a) (status_query a user ct cid)"
  by (rule readsI)
    (auto simp: status_query_def split: prod.splits sum.splits option.splits dest: readsD [OF reads_repositories(2)])

lemma reads_batch_statuses: "reads (ap_ext a) (batch_statuses_query a user items)"
  by (rule readsI)
    (auto simp: batch_statuses_query_def split: prod.splits sum.splits if_splits dest: readsD [OF reads_repositories(4)])

lemma reads_user_likes: "reads (ap_ext a) (user_likes_query a user filt cursor n)"
  by (rule readsI)
    (auto simp: user_likes_query_def Let_def split: prod.splits sum.splits option.splits dest: readsD [OF reads_repositories(5)])

lemma reads_leaderboard: "reads (ap_ext a) (leaderboard_query a ct win n)"
proof -
  have db: "reads (ap_ext a) (board_from_db a ct win n)" for ct n
    by (rule readsI) (auto simp: board_from_db_def split: prod.splits sum.splits dest: readsD [OF reads_repositories(6)])
  show ?thesis
    by (rule readsI)
      (auto simp: leaderboard_query_def Let_def split: prod.splits option.splits if_splits dest: readsD [OF db])
qed

lemmas reads_queries = reads_count reads_batch_counts reads_status reads_batch_statuses reads_user_likes reads_leaderboard

section \<open>What requests keep\<close>

fun call_writes :: "http_call \<Rightarrow> bool" where
  "call_writes (PostLike _) = True"
| "call_writes (DeleteLike _) = True"
| "call_writes _ = False"

fun rpc_writes :: "rpc_call \<Rightarrow> bool" where
  "rpc_writes (RpcLike _) = True"
| "rpc_writes (RpcUnlike _) = True"
| "rpc_writes _ = False"

context request_steps
begin

lemma keeps_query: "reads (ap_ext a) q \<Longrightarrow> keeps P (on_queries q)"
proof -
  assume q: "reads (ap_ext a) q"
  have "P (snd (on_queries q s))" if p: "P s" for s
  proof -
    obtain r d w where v: "q (sv_reader s, sv_world s) = (r, d, w)" by (metis prod_cases3)
    have "P (s\<lparr>sv_reader := d, sv_world := w\<rparr>)" using p readsD [OF q v] by (rule query_step)
    then show ?thesis using v by (simp add: on_queries_def)
  qed
  then show ?thesis by (simp add: keeps_def)
qed

lemma keeps_queries:
  "keeps P (on_queries (count_query a ct cid))" "keeps P (on_queries (batch_counts_query a items))"
  "keeps P (on_queries (status_query a user ct cid))" "keeps P (on_queries (batch_statuses_query a user items))"
  "keeps P (on_queries (user_likes_query a user filt cursor n))" "keeps P (on_queries (leaderboard_query a filt win n))"
  by (rule keeps_query, rule reads_queries)+

lemma keeps_leaderboard_handler: "keeps P (get_leaderboard_handler a inp)"
  unfolding get_leaderboard_handler_def like_service_defs
proof (intro keeps_input keeps_answer keeps_after_check)
  fix params :: leaderboard_params
  show "keeps P (\<lambda>s. case check_window (lp_window params) of Inl e \<Rightarrow> (Inl e, s)
      | Inr win \<Rightarrow> on_queries (leaderboard_query a (lp_type params) win (clamp 1 50 (unwrap_limit (lp_limit params) 10))) s)"
    by (cases "check_window (lp_window params)") (auto simp: keeps_def intro: keepsD [OF keeps_queries(6)])
qed

lemma read_routes: "\<not> call_writes call \<Longrightarrow> keeps P (route a hdr call)"
proof (cases call)
  case (GetStream inp)
  then show ?thesis
    by (auto simp: keeps_def stream_handler_def with_input_def split: sum.split)
next
  case (GetTop inp)
  then show ?thesis by (simp add: keeps_leaderboard_handler)
next
  case (GetCount p)
  then show ?thesis unfolding route.simps GetCount get_count_handler_def like_service_defs
    by (intro keeps_path keeps_answer keeps_queries)
next
  case (PostBatchCounts inp)
  then show ?thesis unfolding route.simps PostBatchCounts batch_counts_handler_def like_service_defs
    by (intro keeps_input keeps_answer keeps_after_check keeps_queries)
qed (auto simp: like_service_defs get_status_handler_def get_user_likes_handler_def batch_statuses_handler_def
    intro!: keeps_rules keeps_queries)

lemma keeps_http_route: "keeps P (route a hdr call) \<Longrightarrow> keeps P (http_route a hdr call)"
  by (simp add: http_route_def keeps_public)

lemma keeps_then: "keeps P f \<Longrightarrow> (\<And>v. keeps P (k v)) \<Longrightarrow> keeps P (rpc_then f k)"
  unfolding keeps_def rpc_then_def by (fastforce split: prod.split sum.split)

lemma keeps_pure: "keeps P (rpc_pure r)"
  by (simp add: keeps_def rpc_pure_def)

lemma keeps_service: "keeps P f \<Longrightarrow> keeps P (rpc_service f)"
  by (simp add: keeps_def rpc_service_def case_prod_unfold)

lemma keeps_map: "keeps P f \<Longrightarrow> keeps P (rpc_map g f)"
  unfolding rpc_map_def by (intro keeps_then keeps_pure)

lemma keeps_authenticate: "keeps P (grpc_authenticate a md)"
  unfolding grpc_authenticate_def
proof (intro keeps_then keeps_pure)
  fix token
  show "keeps P (on_profile (validate_token (ap_ext a, ap_profile_breaker a) (ap_token_validator a) token))"
    using profile_step [of token] by (simp add: keeps_def on_profile_def validate_token_def case_prod_unfold)
qed

lemma keeps_grpc_limits:
  "keeps P (grpc_user_write_limit a u)" "keeps P (grpc_user_read_limit a u)" "keeps P (grpc_public_read_limit a md remote)"
proof -
  show "keeps P (grpc_user_write_limit a u)" "keeps P (grpc_user_read_limit a u)"
    using keeps_checks [of u] by (simp_all add: keeps_def write_limit_steps read_limit_steps case_prod_unfold)
  show "keeps P (grpc_public_read_limit a md remote)"
    using limiter_step by (auto simp: keeps_def grpc_public_read_limit_def on_limiter_def check_grpc_rate_limit_def Let_def
        split: prod.splits) (metis snd_conv prod.case)+
qed

lemma keeps_grpc_checks: "keeps P (grpc_content a c)" "keeps P (grpc_refs a cs)" "keeps P (grpc_validate_filter a filt)"
  unfolding grpc_content_def grpc_refs_def grpc_validate_type_def validate_filter by (intro keeps_then keeps_pure)+

lemmas keeps_rpc_rules = keeps_then keeps_pure keeps_service keeps_map keeps_authenticate keeps_grpc_limits keeps_grpc_checks

lemma read_rpcs: "\<not> rpc_writes call \<Longrightarrow> keeps P (grpc_serve a md remote call)"
  by (cases call)
    (auto simp: like_service_defs grpc_get_count_def grpc_get_status_def grpc_batch_counts_def grpc_batch_statuses_def grpc_get_user_likes_def
      grpc_get_leaderboard_def grpc_stream_likes_def split: prod.split intro!: keeps_rpc_rules keeps_queries)

end

text \<open>With the commands, every route; with the in-flight count, every request that only reads; with both,
  every request.\<close>

locale write_steps = request_steps +
  assumes command_step: "keeps P (on_commands (run_command a c))"
begin

lemma keeps_commands:
  "keeps P (on_commands (like_command a user ct cid))" "keeps P (on_commands (unlike_command a user ct cid))"
  using command_step [of "CLike user ct cid"] command_step [of "CUnlike user ct cid"]
  by (simp_all add: keeps_def on_commands_def)

lemma all_routes: "keeps P (http_route a hdr call)"
proof (rule keeps_http_route)
  show "keeps P (route a hdr call)"
  proof (cases "call_writes call")
    case True
    then show ?thesis
      by (cases call) (auto simp: like_content_handler_def unlike_content_handler_def like_service_defs intro!: keeps_rules keeps_commands)
  qed (rule read_routes)
qed

lemma all_rpcs: "keeps P (grpc_serve a md remote call)"
proof (cases "rpc_writes call")
  case True
  then show ?thesis
    by (cases call) (auto simp: grpc_like_def grpc_unlike_def like_service_defs intro!: keeps_rpc_rules keeps_commands)
qed (rule read_rpcs)

end

locale request_invariant = request_steps +
  assumes inflight_step: "P s \<Longrightarrow> P (s\<lparr>sv_inflight := n\<rparr>)"
begin

lemma keeps_request_id: "(\<And>rid. keeps P (h rid)) \<Longrightarrow> keeps P (inject_request_id (ap_ext a) hdr h)"
  using clock_step by (cases "hdr ''x-request-id''") (simp_all add: keeps_def inject_request_id_def case_prod_unfold)

lemma keeps_serve: "keeps P (http_route a hdr call) \<Longrightarrow> keeps P (serve len a hdr call)"
proof -
  assume r: "keeps P (http_route a hdr call)"
  have "keeps P (inject_request_id (ap_ext a) hdr (\<lambda>rid. patch_error_request_id len rid (http_route a hdr call)))"
    using r by (intro keeps_request_id) (auto simp: keeps_def patch_error_request_id_def case_prod_unfold)
  then show ?thesis
    by (auto simp: keeps_def serve_def http_route_def track_inflight_def inflight_increment_def inflight_decrement_def
        case_prod_unfold intro!: inflight_step)
qed

lemma keeps_interceptor: "P s \<Longrightarrow> P (snd (grpc_inject_request_id (ap_ext a) md s))"
  using keepsD [OF clock_step, of s] by (cases "md ''x-request-id''") (simp_all add: grpc_inject_request_id_def)

lemma keeps_handle:
  assumes "\<And>hdr call. req = OverHttp hdr call \<Longrightarrow> keeps P (http_route a hdr call)"
    and "\<And>md md' remote call. req = OverGrpc md remote call \<Longrightarrow> keeps P (grpc_serve a md' remote call)"
    and "P s"
  shows "P (handle len a req s)"
  using assms keepsD [OF keeps_serve] keepsD [OF assms(2)] keeps_interceptor [of s]
  by (cases req) (auto simp: case_prod_unfold)

end

locale process_invariant = write_steps + request_invariant
begin

lemma keeps_all: "P s \<Longrightarrow> P (handle_all len a rs s)"
  by (induction rs arbitrary: s) (simp_all add: keeps_handle all_routes all_rpcs)

end

section \<open>The instances\<close>

lemma on_profile_same:
  "sv_inflight (snd (on_profile f s)) = sv_inflight s" "sv_writer (snd (on_profile f s)) = sv_writer s"
  "sv_reader (snd (on_profile f s)) = sv_reader s" "sv_content (snd (on_profile f s)) = sv_content s"
  by (simp_all add: on_profile_def case_prod_unfold)

lemma on_limiter_same:
  "sv_inflight (snd (on_limiter f s)) = sv_inflight s" "sv_writer (snd (on_limiter f s)) = sv_writer s"
  "sv_reader (snd (on_limiter f s)) = sv_reader s" "sv_content (snd (on_limiter f s)) = sv_content s"
  "sv_profile (snd (on_limiter f s)) = sv_profile s"
  by (simp_all add: on_limiter_def case_prod_unfold)

lemma request_id_same:
  "sv_inflight (snd (fast_request_id x s)) = sv_inflight s" "sv_writer (snd (fast_request_id x s)) = sv_writer s"
  "sv_reader (snd (fast_request_id x s)) = sv_reader s" "sv_content (snd (fast_request_id x s)) = sv_content s"
  "sv_profile (snd (fast_request_id x s)) = sv_profile s"
  by (simp_all add: fast_request_id_def case_prod_unfold)

lemmas steps_same = on_profile_same on_limiter_same request_id_same

interpretation inflight: write_steps a "\<lambda>s. sv_inflight s = n" for a n
  by unfold_locales (simp_all add: keeps_def steps_same on_commands_def case_prod_unfold)

interpretation writer: request_invariant a "\<lambda>s. sv_writer s = d" for a d
  by unfold_locales (simp_all add: keeps_def steps_same)

text \<open>What the process keeps: well-formed breakers, and in both databases the counts that count.\<close>

definition server_inv :: "'w app \<Rightarrow> 'w server \<Rightarrow> bool" where
  "server_inv a s \<longleftrightarrow> cb_inv (ap_profile_breaker a) (sv_profile s) \<and> cb_inv (ap_content_breaker a) (sv_content s)
     \<and> db_inv (sv_writer s) \<and> db_inv (sv_reader s)"

lemma authenticate_keeps_breaker:
  "br_good c s \<Longrightarrow> br_good c (snd (authenticate_token c validate token s))"
  by (auto simp: authenticate_token_def br_good_def br_allow_def br_success_def br_failure_def case_prod_unfold
      intro!: inv_intros split: sum.split app_error.split bool.split)

lemma validate_keeps_breaker:
  "validate_content a ct cid (b, w) = (r, b', w') \<Longrightarrow> cb_inv (ap_content_breaker a) b \<Longrightarrow> cb_inv (ap_content_breaker a) b'"
  by (auto simp: validate_content_def Let_def br_allow_def br_success_def br_failure_def case_prod_unfold
      split: bool.splits sum.splits validation_outcome.splits) (metis fst_conv inv_intros snd_conv)+

lemma command_keeps:
  assumes ok: "others_ok (ap_ext a)" and b: "cb_inv (ap_content_breaker a) b" and d: "db_inv d"
    and run: "run_command a c (b, d, w) = (r, b', d', w')"
  shows "cb_inv (ap_content_breaker a) b' \<and> db_inv d'"
proof -
  have ins: "insert_like (ap_ext a) user ct cid (d, w) = (r, d', w') \<Longrightarrow> db_inv d'" for user ct cid w r d' w'
    using insert_like_outcome [OF ok d] by (auto simp: insert_outcome_def)
  have del: "delete_like (ap_ext a) user ct cid (d, w) = (r, d', w') \<Longrightarrow> db_inv d'" for user ct cid w r d' w'
    using delete_like_outcome [OF ok d] by (auto simp: delete_outcome_def)
  show ?thesis
  proof (cases c)
    case (CLike user ct cid)
    obtain v b1 w1 where v: "validate_content a ct cid (b, w) = (v, b1, w1)" by (metis prod_cases3)
    show ?thesis using run d validate_keeps_breaker [OF v b] ins
      by (auto simp: CLike like_command_def v split: sum.splits prod.splits)
  next
    case (CUnlike user ct cid)
    obtain v b1 w1 where v: "validate_content a ct cid (b, w) = (v, b1, w1)" by (metis prod_cases3)
    show ?thesis using run d validate_keeps_breaker [OF v b] del
      by (auto simp: CUnlike unlike_command_def v split: sum.splits prod.splits)
  qed
qed

interpretation process: process_invariant a "\<lambda>s. others_ok (ap_ext a) \<and> server_inv a s" for a
proof
  show "keeps (\<lambda>s. others_ok (ap_ext a) \<and> server_inv a s)
      (on_profile (authenticate_token (ap_ext a, ap_profile_breaker a) (ap_token_validator a) token))" for token
    using authenticate_keeps_breaker [of "(ap_ext a, ap_profile_breaker a)"]
    by (simp add: keeps_def server_inv_def on_profile_def br_good_def case_prod_unfold)
  show "keeps (\<lambda>s. others_ok (ap_ext a) \<and> server_inv a s) (on_limiter (check_rate_limit_inner (ap_ext a) key limit secs))"
    for key limit secs by (simp add: keeps_def server_inv_def steps_same)
  show "others_ok (ap_ext a) \<and> server_inv a (s\<lparr>sv_reader := d, sv_world := w\<rparr>)"
    if "others_ok (ap_ext a) \<and> server_inv a s"
      "\<And>I. others_keep (ap_ext a) I \<Longrightarrow> I (sv_reader s) \<Longrightarrow> I d" for s d w
    using that(1) that(2) [of db_inv] by (simp add: server_inv_def others_keep_def others_ok_def)
  show "keeps (\<lambda>s. others_ok (ap_ext a) \<and> server_inv a s) (fast_request_id (ap_ext a))"
    by (simp add: keeps_def server_inv_def steps_same)
  show "keeps (\<lambda>s. others_ok (ap_ext a) \<and> server_inv a s) (on_commands (run_command a c))" for c
    unfolding keeps_def
  proof (intro allI impI)
    fix s assume p: "others_ok (ap_ext a) \<and> server_inv a s"
    obtain r b d w where v: "run_command a c (sv_content s, sv_writer s, sv_world s) = (r, b, d, w)" by (metis prod_cases4)
    show "others_ok (ap_ext a) \<and> server_inv a (snd (on_commands (run_command a c) s))"
      using p command_keeps [OF _ _ _ v] by (simp add: server_inv_def on_commands_def v)
  qed
  show "others_ok (ap_ext a) \<and> server_inv a (s\<lparr>sv_inflight := n\<rparr>)" if "others_ok (ap_ext a) \<and> server_inv a s" for s n
    using that by (simp add: server_inv_def)
qed

text \<open>What the process keeps. From a state in which both circuit breakers are well formed and in both
  databases every materialised count is the number of like rows, no sequence of requests over either
  transport, however the services, the databases and other connections behave, leads out of such states;
  in particular each counter is exact after it and no user likes an item twice.\<close>

theorem process_keeps_invariant:
  assumes "others_ok (ap_ext a)" "server_inv a s"
  shows "server_inv a (handle_all len a rs s)
    \<and> sql_count c (sv_writer (handle_all len a rs s)) = int (rows_of c (sv_writer (handle_all len a rs s)))
    \<and> distinct (map like_key (likes (sv_writer (handle_all len a rs s))))"
proof -
  have "server_inv a (handle_all len a rs s)" using process.keeps_all [of a s len rs] assms by blast
  then show ?thesis using db_inv_count [of "sv_writer (handle_all len a rs s)" c]
    by (auto simp: server_inv_def db_inv_def)
qed

theorem process_keeps_invariant_witness:
  "server_inv sample_app (handle_all (\<lambda>_. 100) sample_app
      [OverGrpc from_address None (RpcLike \<lparr>pc_type = ''post'', pc_id = ''8''\<rparr>), OverHttp from_address (GetTop (Inl 400))]
      sample_server)"
proof -
  have "others_ok (ap_ext sample_app)" using sample_others_ok by (simp add: sample_app_def app_new_fields)
  moreover have "server_inv sample_app sample_server" by (simp add: server_inv_def sample_server_def)
  ultimately show ?thesis using process_keeps_invariant [of sample_app sample_server] by blast
qed

end
