(* ===== verification/Replies.thy ===== *)
theory Replies
  imports Requests
begin

text \<open>
  The replies of the HTTP server: for every request, state and behaviour of the dependencies, which
  statuses, bodies and identifiers a client can see.
\<close>

section \<open>What a reply looks like\<close>

text \<open>The success of each call; the rejection of its extractor; any other reply carries an error.\<close>

fun success_fits :: "http_call \<Rightarrow> nat \<Rightarrow> body \<Rightarrow> bool" where
  "success_fits (PostLike _) st b \<longleftrightarrow> st = 201 \<and> (\<exists>r. b = BodyAction r)"
| "success_fits (DeleteLike _) st b \<longleftrightarrow> st = 200 \<and> (\<exists>r. b = BodyAction r)"
| "success_fits (GetCount _) st b \<longleftrightarrow> st = 200 \<and> (\<exists>r. b = BodyCount r)"
| "success_fits (GetStatus _) st b \<longleftrightarrow> st = 200 \<and> (\<exists>r. b = BodyStatus r)"
| "success_fits (GetUserLikes _) st b \<longleftrightarrow> st = 200 \<and> (\<exists>r. b = BodyLikes r)"
| "success_fits (PostBatchCounts _) st b \<longleftrightarrow> st = 200 \<and> (\<exists>r. b = BodyCounts r)"
| "success_fits (PostBatchStatuses _) st b \<longleftrightarrow> st = 200 \<and> (\<exists>r. b = BodyStatuses r)"
| "success_fits (GetTop _) st b \<longleftrightarrow> st = 200 \<and> (\<exists>r. b = BodyTop r)"
| "success_fits (GetStream _) st b \<longleftrightarrow> st = 200 \<and> (\<exists>ch. b = BodyStream ch)"

definition rejected :: "nat + 'i \<Rightarrow> nat option" where
  "rejected inp = (case inp of Inl st \<Rightarrow> Some st | Inr _ \<Rightarrow> None)"

fun call_rejection :: "http_call \<Rightarrow> nat option" where
  "call_rejection (PostLike inp) = rejected inp"
| "call_rejection (GetUserLikes inp) = rejected inp"
| "call_rejection (PostBatchCounts inp) = rejected inp"
| "call_rejection (PostBatchStatuses inp) = rejected inp"
| "call_rejection (GetTop inp) = rejected inp"
| "call_rejection (GetStream inp) = rejected inp"
| "call_rejection _ = None"

definition reply_fits :: "http_call \<Rightarrow> body reply \<Rightarrow> bool" where
  "reply_fits call r \<longleftrightarrow>
     (case rp_body r of
        BodyError e \<Rightarrow> rp_status r = api_http_status e
      | BodyRejection \<Rightarrow> call_rejection call = Some (rp_status r)
      | b \<Rightarrow> success_fits call (rp_status r) b)"

lemma fits_error [simp]: "reply_fits call (api_error_response e)" "reply_fits call (auth_error_response BodyError f)"
    "reply_fits call (rate_limited_response BodyError rl)"
  by (simp_all add: reply_fits_def api_error_response_def json_reply_def auth_error_response_def rate_limited_response_def
      set_header_def api_http_status_def api_error_new_def Let_def split: prod.split)

lemma fits_headers [simp]: "reply_fits call (add_rate_limit_headers r rl) = reply_fits call r"
  by (simp add: reply_fits_def cong: body.case_cong)

definition fits :: "http_call \<Rightarrow> 'w handler \<Rightarrow> bool" where
  "fits call h \<longleftrightarrow> (\<forall>s. reply_fits call (fst (h s)))"

lemma fits_user: "(\<And>u. fits call (k u)) \<Longrightarrow> fits call (with_user a hdr k)"
  by (simp add: fits_def with_user_def split: prod.split sum.split)

lemma fits_path: "(\<And>ct cid. fits call (k ct cid)) \<Longrightarrow> fits call (with_path a p k)"
  by (simp add: fits_def with_path_def split: prod.split sum.split)

lemma fits_input: "call_rejection call = rejected inp \<Longrightarrow> (\<And>i. fits call (k i)) \<Longrightarrow> fits call (with_input inp k)"
  by (simp add: fits_def with_input_def rejected_def reply_fits_def json_reply_def split: sum.split)

lemma fits_limited: "(\<And>v. reply_fits call (json_reply st (f v))) \<Longrightarrow> fits call (limited check st f k)"
  by (simp add: fits_def limited_def split: prod.split sum.split)

lemma fits_answer: "(\<And>v. reply_fits call (json_reply st (f v))) \<Longrightarrow> fits call (\<lambda>s. case k s of (r, s) \<Rightarrow> (answer st f r, s))"
  by (simp add: fits_def answer_def split: prod.split sum.split)

lemma fits_public: "fits call h \<Longrightarrow> fits call (read_rate_limit check cfg BodyError hdr h)"
  by (simp add: fits_def read_rate_limit_def Let_def case_prod_unfold)

lemma fits_json [simp]:
  "reply_fits call (json_reply st BodyRejection) \<longleftrightarrow> call_rejection call = Some st"
  "reply_fits (GetStream i) (json_reply 200 (BodyStream ch))"
  by (simp_all add: reply_fits_def json_reply_def)

lemma route_fits: "fits call (route a hdr call)"
proof (cases call)
  case (GetStream inp)
  then show ?thesis
    by (auto simp: fits_def stream_handler_def with_input_def answer_def rejected_def split: sum.split)
qed (auto simp: like_content_handler_def unlike_content_handler_def get_count_handler_def get_status_handler_def get_user_likes_handler_def
    batch_counts_handler_def batch_statuses_handler_def get_leaderboard_handler_def reply_fits_def json_reply_def
    intro!: fits_user fits_path fits_input fits_limited fits_answer)

text \<open>After the stack: the identifier in the header and in the error, an error too long without a body.\<close>

definition reply_ok :: "(api_error \<Rightarrow> nat) \<Rightarrow> string \<Rightarrow> http_call \<Rightarrow> body reply \<Rightarrow> bool" where
  "reply_ok len rid call r \<longleftrightarrow>
     map_of (rp_headers r) ''x-request-id'' = Some rid
     \<and> (case rp_body r of
          BodyError e \<Rightarrow> rp_status r = api_http_status e \<and> request_id (error e) = rid
        | BodyRejection \<Rightarrow> call_rejection call = Some (rp_status r)
        | BodyEmpty \<Rightarrow> (\<exists>e. 64 * 1024 < len e \<and> rp_status r = api_http_status e)
        | b \<Rightarrow> success_fits call (rp_status r) b)"

lemma not_empty: "\<not> success_fits call st BodyEmpty"
  by (cases call) simp_all

lemma error_not_2xx: "\<not> (200 \<le> api_http_status e \<and> api_http_status e < 300)"
  using http_status_cases [of "code (error e)"] by (auto simp: api_http_status_def)

lemma set_request_id_same [simp]: "api_http_status (set_request_id rid e) = api_http_status e"
    "request_id (error (set_request_id rid e)) = rid"
  by (simp_all add: set_request_id_def api_http_status_def)

lemma patched_ok:
  assumes "reply_fits call (fst (h s))"
  shows "reply_ok len rid call (set_header ''x-request-id'' rid (fst (patch_error_request_id len rid h s)))"
proof -
  obtain r s' where h: "h s = (r, s')" by fastforce
  have hd: "map_of (rp_headers (set_header ''x-request-id'' rid q)) ''x-request-id'' = Some rid" for q :: "body reply"
    by (simp add: set_header_def update_conv)
  have eq: "rp_body (set_header n v q) = rp_body q" "rp_status (set_header n v q) = rp_status q" for n v and q :: "body reply"
    by (simp_all add: set_header_def)
  show ?thesis
    using assms not_empty error_not_2xx
    by (cases "rp_body r") (auto simp: reply_ok_def hd eq patch_error_request_id_def h reply_fits_def)
qed

text \<open>C25. Every HTTP reply is well formed. Whatever the request, the state and the dependencies: the reply
  carries the request's identifier, the caller's or a fresh one; an error body has that identifier and the
  status of its code (and is dropped only when it is longer than 64 KiB); a rejected extraction keeps its
  status; any other reply is the success of that call, with its status and its type of body. The count of
  requests in flight is back to what it was.\<close>

theorem replies_well_formed:
  "\<exists>rid. (case hdr ''x-request-id'' of
            Some i \<Rightarrow> rid = i
          | None \<Rightarrow> \<exists>t. rid = ''req_'' @ show_hex t @ ''-'' @ show_hex (unat (sv_requests s)))
    \<and> reply_ok len rid call (fst (serve len a hdr call s))
    \<and> sv_inflight (snd (serve len a hdr call s)) = sv_inflight s"
proof -
  let ?h = "http_route a hdr call" and ?s = "inflight_increment s"
  obtain rid s1 where i: "(case hdr ''x-request-id'' of Some i \<Rightarrow> (i, ?s) | None \<Rightarrow> fast_request_id (ap_ext a) ?s) = (rid, s1)"
    by fastforce
  obtain r s2 where p: "patch_error_request_id len rid ?h s1 = (r, s2)" by fastforce
  have run: "serve len a hdr call s = (set_header ''x-request-id'' rid r, inflight_decrement s2)"
    using i p by (simp add: serve_def http_route_def [symmetric] track_inflight_def inject_request_id_def)
  have rid: "case hdr ''x-request-id'' of
      Some i \<Rightarrow> rid = i | None \<Rightarrow> \<exists>t. rid = ''req_'' @ show_hex t @ ''-'' @ show_hex (unat (sv_requests s))"
    using i by (auto simp: fast_request_id_def inflight_increment_def split: option.splits prod.splits)
  have "fits call ?h" using route_fits by (auto simp: http_route_def intro: fits_public)
  then have ok: "reply_ok len rid call (set_header ''x-request-id'' rid r)"
    using patched_ok [of call ?h s1 len rid] p by (simp add: fits_def)
  have "sv_inflight s1 = sv_inflight s + 1"
    using i request_id_same(1) [of "ap_ext a" ?s] by (auto simp: inflight_increment_def split: option.splits)
  moreover have "sv_inflight (snd (?h s1)) = sv_inflight s1"
    using keepsD [OF inflight.all_routes, of s1 "sv_inflight s1" a hdr call] by simp
  ultimately have "sv_inflight s2 = sv_inflight s + 1"
    using p by (auto simp: patch_error_request_id_def split: prod.splits)
  then have "sv_inflight (inflight_decrement s2) = sv_inflight s" by (simp add: inflight_decrement_def)
  with rid ok show ?thesis unfolding run by auto
qed

end
