(* ===== verification/Write_Gate.thy ===== *)
theory Write_Gate
  imports Requests
begin

text \<open>
  What a request has to pass before it can change the database, on either transport.
\<close>

section \<open>Before a write\<close>

text \<open>\<open>granted\<close>: from one state to the next the user of the headers was authenticated and the write limit
  admitted the request, and the content type is registered.\<close>

definition granted :: "'w app \<Rightarrow> headers \<Rightarrow> uuid \<Rightarrow> string \<Rightarrow> 'w server \<Rightarrow> 'w server \<Rightarrow> bool" where
  "granted a hdr user ct s s' \<longleftrightarrow> is_valid_content_type (ap_config a) ct \<and>
     (\<exists>u s1 rl. on_profile (auth_user_extract (ap_ext a, ap_profile_breaker a) (ap_token_validator a) hdr) s = (Inr u, s1)
        \<and> au_user_id u = user \<and> on_limiter (write_check a user) s1 = (rl, s') \<and> allowed rl)"

definition gated_write :: "'w app \<Rightarrow> headers \<Rightarrow> 'w server \<Rightarrow> db \<Rightarrow> bool" where
  "gated_write a hdr s d \<longleftrightarrow>
     (\<exists>user ct cid c s1. granted a hdr user ct s s1 \<and> c \<in> {CLike user ct cid, CUnlike user ct cid}
        \<and> fst (validate_content a ct cid (sv_content s1, sv_world s1)) = Inr ()
        \<and> d = sv_writer (snd (on_commands (run_command a c) s1)))"

text \<open>A command whose content is not valid writes nothing.\<close>

lemma command_validated:
  assumes "c \<in> {CLike user ct cid, CUnlike user ct cid}"
    and "sv_writer (snd (on_commands (run_command a c) s)) \<noteq> sv_writer s"
  shows "fst (validate_content a ct cid (sv_content s, sv_world s)) = Inr ()"
proof -
  obtain v b w where v: "validate_content a ct cid (sv_content s, sv_world s) = (v, b, w)" by (metis prod_cases3)
  show ?thesis using assms by (cases v) (auto simp: on_commands_def like_command_def unlike_command_def v)
qed

lemma granted_writer: "granted a hdr user ct s s1 \<Longrightarrow> sv_writer s1 = sv_writer s"
  unfolding granted_def using on_profile_same(2) on_limiter_same(2) by (metis snd_conv)

lemma gatedI:
  assumes "granted a hdr user ct s s1" "c \<in> {CLike user ct cid, CUnlike user ct cid}"
    and "sv_writer (snd (on_commands (run_command a c) s1)) \<noteq> sv_writer s"
  shows "gated_write a hdr s (sv_writer (snd (on_commands (run_command a c) s1)))"
  unfolding gated_write_def using assms command_validated [OF assms(2), of a s1] granted_writer [OF assms(1)] by metis

text \<open>The two writing routes. What runs after the guards is a command, whatever \<open>st\<close> and the answer.\<close>

lemma limited_command:
  assumes "sv_writer (snd (limited (write_check a user) st f k s)) \<noteq> sv_writer s"
  obtains rl s1 where "on_limiter (write_check a user) s = (rl, s1)" "allowed rl"
    "sv_writer (snd (limited (write_check a user) st f k s)) = sv_writer (snd (k s1))"
proof -
  obtain rl s1 where r: "on_limiter (write_check a user) s = (rl, s1)" by fastforce
  obtain v s2 where k: "k s1 = (v, s2)" by fastforce
  have "sv_writer s1 = sv_writer s" using on_limiter_same(2) [of "write_check a user" s] r by simp
  then have "allowed rl" using assms r by (auto simp: limited_def split: if_splits)
  moreover have "sv_writer (snd (limited (write_check a user) st f k s)) = sv_writer (snd (k s1))"
    using calculation r k by (cases v) (simp_all add: limited_def)
  ultimately show thesis using that r by blast
qed

lemma after_check_command:
  "sv_writer (snd (after_check c k s)) \<noteq> sv_writer s \<Longrightarrow> c = Inr () \<and> sv_writer (snd (after_check c k s)) = sv_writer (snd (k s))"
  by (cases c) (simp_all add: after_check_def)

lemma user_passed:
  assumes "sv_writer (snd (with_user a hdr k s)) \<noteq> sv_writer s"
  obtains u s1 where "on_profile (auth_user_extract (ap_ext a, ap_profile_breaker a) (ap_token_validator a) hdr) s = (Inr u, s1)"
    "sv_writer s1 = sv_writer s" "snd (with_user a hdr k s) = snd (k u s1)"
proof -
  obtain r s1 where r: "on_profile (auth_user_extract (ap_ext a, ap_profile_breaker a) (ap_token_validator a) hdr) s = (r, s1)"
    by fastforce
  have w: "sv_writer s1 = sv_writer s"
    using on_profile_same(2) [of "auth_user_extract (ap_ext a, ap_profile_breaker a) (ap_token_validator a) hdr" s] r by simp
  then show thesis using assms r that by (cases r) (auto simp: with_user_def)
qed

lemma path_passed:
  assumes "sv_writer (snd (with_path a p k s)) \<noteq> sv_writer s"
  obtains ct cid where "is_valid_content_type (ap_config a) ct" "with_path a p k s = k ct cid s"
  using assms by (auto simp: with_path_def content_path_extract_def ensure_registered_content_type_def
      split: option.splits if_splits)

lemma like_route_gated:
  assumes "sv_writer (snd (like_content_handler a hdr inp s)) \<noteq> sv_writer s"
  shows "gated_write a hdr s (sv_writer (snd (like_content_handler a hdr inp s)))"
proof -
  let ?k = "\<lambda>user. with_input inp (\<lambda>(ct, cid). limited (write_check a (au_user_id user)) 201 BodyAction
       (after_check (ensure_registered_content_type (ap_config a) ct) (on_commands (like_command a (au_user_id user) ct cid))))"
  obtain u s1 where u: "on_profile (auth_user_extract (ap_ext a, ap_profile_breaker a) (ap_token_validator a) hdr) s = (Inr u, s1)"
      "sv_writer s1 = sv_writer s" "snd (like_content_handler a hdr inp s) = snd (?k u s1)"
    using user_passed [of a hdr ?k s] assms by (auto simp: like_content_handler_def like_service_defs)
  have "inp \<noteq> Inl st" for st using assms u by (auto simp: with_input_def)
  then obtain ct cid where i: "inp = Inr (ct, cid)" by (metis prod.collapse sumE)
  let ?c = "after_check (ensure_registered_content_type (ap_config a) ct) (on_commands (like_command a (au_user_id u) ct cid))"
  have l: "snd (like_content_handler a hdr inp s) = snd (limited (write_check a (au_user_id u)) 201 BodyAction ?c s1)"
    using u(3) by (simp add: i with_input_def)
  obtain rl s2 where r: "on_limiter (write_check a (au_user_id u)) s1 = (rl, s2)" "allowed rl"
      "sv_writer (snd (like_content_handler a hdr inp s)) = sv_writer (snd (?c s2))"
    using limited_command [of a "au_user_id u" 201 BodyAction ?c s1] assms u(2) l by metis
  have "sv_writer s2 = sv_writer s" using on_limiter_same(2) [of "write_check a (au_user_id u)" s1] r(1) u(2) by simp
  then have v: "is_valid_content_type (ap_config a) ct"
      "sv_writer (snd (?c s2)) = sv_writer (snd (on_commands (run_command a (CLike (au_user_id u) ct cid)) s2))"
    using after_check_command [of "ensure_registered_content_type (ap_config a) ct"
        "on_commands (like_command a (au_user_id u) ct cid)" s2] assms r(3) by (simp_all add: on_commands_def)
  have "granted a hdr (au_user_id u) ct s s2" using u(1) r(1,2) v(1) by (auto simp: granted_def)
  from gatedI [OF this, of "CLike (au_user_id u) ct cid" cid] show ?thesis using assms r(3) v(2) by simp
qed

lemma unlike_route_gated:
  assumes "sv_writer (snd (unlike_content_handler a hdr p s)) \<noteq> sv_writer s"
  shows "gated_write a hdr s (sv_writer (snd (unlike_content_handler a hdr p s)))"
proof -
  let ?l = "\<lambda>user ct cid. limited (write_check a (au_user_id user)) 200 BodyAction
       (on_commands (unlike_command a (au_user_id user) ct cid))"
  obtain u s1 where u: "on_profile (auth_user_extract (ap_ext a, ap_profile_breaker a) (ap_token_validator a) hdr) s = (Inr u, s1)"
      "sv_writer s1 = sv_writer s" "snd (unlike_content_handler a hdr p s) = snd (with_path a p (?l u) s1)"
    using user_passed [of a hdr "\<lambda>user. with_path a p (?l user)" s] assms by (auto simp: unlike_content_handler_def like_service_defs)
  obtain ct cid where c: "is_valid_content_type (ap_config a) ct" "with_path a p (?l u) s1 = ?l u ct cid s1"
    using path_passed [of a p "?l u" s1] assms u by metis
  obtain rl s2 where r: "on_limiter (write_check a (au_user_id u)) s1 = (rl, s2)" "allowed rl"
      "sv_writer (snd (?l u ct cid s1)) = sv_writer (snd (on_commands (unlike_command a (au_user_id u) ct cid) s2))"
    using limited_command [of a "au_user_id u" 200 BodyAction "on_commands (unlike_command a (au_user_id u) ct cid)" s1]
      assms u(2,3) c(2) by metis
  have "granted a hdr (au_user_id u) ct s s2" using u(1) r(1,2) c(1) by (auto simp: granted_def)
  from gatedI [OF this, of "CUnlike (au_user_id u) ct cid" cid] show ?thesis
    using assms r(3) u(3) c(2) by (simp add: on_commands_def)
qed

text \<open>The same for the two RPCs.\<close>

lemma rpc_passed:
  assumes "sv_writer (snd (rpc_then f k s)) \<noteq> sv_writer s" "\<And>d. keeps (\<lambda>s. sv_writer s = d) f"
  obtains v s1 where "f s = (Inr v, s1)" "sv_writer s1 = sv_writer s" "rpc_then f k s = k v s1"
proof -
  obtain r s1 where r: "f s = (r, s1)" by fastforce
  have w: "sv_writer s1 = sv_writer s" using keepsD [OF assms(2), of s "sv_writer s"] r by simp
  show thesis using assms(1) r w that by (cases r) (auto simp: rpc_then_def)
qed

lemma authenticated_rpc:
  assumes "grpc_authenticate a md s = (Inr u, s1)"
  shows "on_profile (auth_user_extract (ap_ext a, ap_profile_breaker a) (ap_token_validator a) md) s = (Inr u, s1)"
proof (cases "md ''authorization''")
  case None
  then show ?thesis using assms by (simp add: grpc_authenticate_def extract_token_def rpc_then_def rpc_pure_def)
next
  case (Some h)
  show ?thesis
  proof (cases "parse_bearer_token h")
    case (Inl f)
    then show ?thesis using Some assms by (simp add: grpc_authenticate_def extract_token_def rpc_then_def rpc_pure_def)
  next
    case (Inr token)
    obtain r b w where v: "authenticate_token (ap_ext a, ap_profile_breaker a) (ap_token_validator a) token
        (sv_profile s, sv_world s) = (r, b, w)" by (metis prod_cases3)
    then show ?thesis using Some Inr assms
      by (cases r) (simp_all add: on_profile_def auth_user_extract_def grpc_authenticate_def extract_token_def
          rpc_then_def rpc_pure_def validate_token_def)
  qed
qed

lemma admitted_rpc:
  assumes "grpc_user_write_limit a user s = (Inr v, s1)"
  obtains rl where "on_limiter (write_check a user) s = (rl, s1)" "allowed rl"
  using assms that by (auto simp: write_limit_steps enforce_result_def split: prod.splits if_splits)

lemma content_rpc:
  "grpc_content a c s = (Inr cid, s1) \<Longrightarrow> s1 = s \<and> is_valid_content_type (ap_config a) (pc_type c)"
  by (auto simp: grpc_content_def grpc_validate_type_def rpc_then_def rpc_pure_def into_status_def
      ensure_registered_content_type_def split: if_splits)

definition write_rpc :: "'w app \<Rightarrow> headers \<Rightarrow> p_content_ref \<Rightarrow> (uuid \<Rightarrow> string \<Rightarrow> uuid \<Rightarrow> command) \<Rightarrow> (like_action_response \<Rightarrow> 'r) \<Rightarrow> ('w, 'r) rpc" where
  "write_rpc a md req cmd f =
     rpc_then (grpc_authenticate a md) (\<lambda>user.
     rpc_then (grpc_user_write_limit a (au_user_id user)) (\<lambda>_.
     rpc_then (grpc_content a req) (\<lambda>cid.
     rpc_then (rpc_service (on_commands (run_command a (cmd (au_user_id user) (pc_type req) cid)))) (\<lambda>r.
     rpc_pure (Inr (f r))))))"

lemma write_rpcs:
  "grpc_serve a md remote (RpcLike c) = write_rpc a md c CLike (\<lambda>r. ReplyLike (like_to_proto r))"
  "grpc_serve a md remote (RpcUnlike c) = write_rpc a md c CUnlike (\<lambda>r. ReplyLike (like_to_proto r))"
proof -
  have "run_command a (CLike u ct cid) = like_command a u ct cid" "run_command a (CUnlike u ct cid) = unlike_command a u ct cid"
    for u ct cid by (simp_all add: fun_eq_iff)
  then show "grpc_serve a md remote (RpcLike c) = write_rpc a md c CLike (\<lambda>r. ReplyLike (like_to_proto r))"
    "grpc_serve a md remote (RpcUnlike c) = write_rpc a md c CUnlike (\<lambda>r. ReplyLike (like_to_proto r))"
    by (simp_all add: write_rpc_def grpc_like_def grpc_unlike_def like_service_defs)
qed

lemma write_rpc_gated:
  assumes "sv_writer (snd (write_rpc a md req cmd f s)) \<noteq> sv_writer s" "cmd \<in> {CLike, CUnlike}"
  shows "gated_write a md s (sv_writer (snd (write_rpc a md req cmd f s)))"
proof -
  let ?k2 = "\<lambda>u cid. rpc_then (rpc_service (on_commands (run_command a (cmd (au_user_id u) (pc_type req) cid)))) (\<lambda>r. rpc_pure (Inr (f r)))"
  let ?k1 = "\<lambda>u. rpc_then (grpc_content a req) (?k2 u)"
  let ?k0 = "\<lambda>u. rpc_then (grpc_user_write_limit a (au_user_id u)) (\<lambda>_. ?k1 u)"
  have w0: "write_rpc a md req cmd f s = rpc_then (grpc_authenticate a md) ?k0 s" by (simp add: write_rpc_def)
  obtain u s1 where u: "grpc_authenticate a md s = (Inr u, s1)" "sv_writer s1 = sv_writer s"
      and w1: "rpc_then (grpc_authenticate a md) ?k0 s = ?k0 u s1"
    by (rule rpc_passed [OF assms(1) [unfolded w0] writer.keeps_authenticate])
  obtain v s2 where l: "grpc_user_write_limit a (au_user_id u) s1 = (Inr v, s2)" "sv_writer s2 = sv_writer s1"
      and w2: "?k0 u s1 = ?k1 u s2"
    by (rule rpc_passed [OF assms(1) [unfolded w0 w1, folded u(2)] writer.keeps_grpc_limits(1)])
  obtain cid s3 where c: "grpc_content a req s2 = (Inr cid, s3)" and w3: "?k1 u s2 = ?k2 u cid s3"
    by (rule rpc_passed [OF assms(1) [unfolded w0 w1 w2, folded u(2), folded l(2)] writer.keeps_grpc_checks(1)])
  have v: "s3 = s2" "is_valid_content_type (ap_config a) (pc_type req)" using content_rpc [OF c] by simp_all
  obtain rl where r: "on_limiter (write_check a (au_user_id u)) s1 = (rl, s2)" "allowed rl"
    by (rule admitted_rpc [OF l(1)])
  let ?c = "cmd (au_user_id u) (pc_type req) cid"
  obtain q s4 where q: "on_commands (run_command a ?c) s2 = (q, s4)" by fastforce
  have run: "sv_writer (snd (write_rpc a md req cmd f s)) = sv_writer (snd (on_commands (run_command a ?c) s2))"
    unfolding w0 w1 w2 w3 v(1) by (cases q) (simp_all add: rpc_then_def rpc_service_def rpc_pure_def q into_status_def)
  have "granted a md (au_user_id u) (pc_type req) s s2"
    using authenticated_rpc [OF u(1)] r v(2) by (auto simp: granted_def)
  from gatedI [OF this, of ?c cid] show ?thesis using assms run by auto
qed

lemma gated_headers: "hdr ''authorization'' = hdr' ''authorization'' \<Longrightarrow> gated_write a hdr s d = gated_write a hdr' s d"
  by (simp add: gated_write_def granted_def on_profile_def auth_user_extract_def)

lemma route_gated:
  assumes "sv_writer (snd (http_route a hdr call s)) \<noteq> sv_writer s"
  shows "gated_write a hdr s (sv_writer (snd (http_route a hdr call s)))"
proof (cases "call_writes call")
  case True
  then show ?thesis using assms like_route_gated unlike_route_gated
    by (cases call) (auto simp: http_route_def)
next
  case False
  then have "sv_writer (snd (http_route a hdr call s)) = sv_writer s"
    using keepsD [OF writer.keeps_http_route [OF writer.read_routes], of call s "sv_writer s" a hdr] by simp
  with assms show ?thesis by simp
qed

lemma rpc_gated:
  assumes "sv_writer (snd (grpc_serve a md remote call s)) \<noteq> sv_writer s"
  shows "gated_write a md s (sv_writer (snd (grpc_serve a md remote call s)))"
proof (cases "rpc_writes call")
  case True
  then show ?thesis using assms
    by (cases call) (auto simp: write_rpcs simp del: grpc_serve.simps intro: write_rpc_gated)
next
  case False
  then have "sv_writer (snd (grpc_serve a md remote call s)) = sv_writer s"
    using keepsD [OF writer.read_rpcs, of call s "sv_writer s" a md remote] by simp
  with assms show ?thesis by simp
qed

text \<open>C4. Nothing is written past the guards. When a request over either transport changes the database, then
  before the write its bearer was authenticated by the profile service, the user's write limit admitted the
  request, the content type is registered and the content validated; and the new database is what the like or
  unlike command of that very user, for that content, left.\<close>

theorem writes_are_gated:
  assumes "sv_writer (handle len a req s) \<noteq> sv_writer s"
  shows "\<exists>s0. sv_writer s0 = sv_writer s \<and> sv_profile s0 = sv_profile s
    \<and> gated_write a (request_headers req) s0 (sv_writer (handle len a req s))"
proof (cases req)
  case (OverHttp hdr call)
  let ?s = "inflight_increment s"
  obtain rid s1 where i: "(case hdr ''x-request-id'' of Some i \<Rightarrow> (i, ?s) | None \<Rightarrow> fast_request_id (ap_ext a) ?s) = (rid, s1)"
    by fastforce
  have same: "sv_writer s1 = sv_writer s" "sv_profile s1 = sv_profile s"
    using i request_id_same(2,5) [of "ap_ext a" ?s] by (auto simp: inflight_increment_def split: option.splits)
  have "sv_writer (handle len a req s) = sv_writer (snd (http_route a hdr call s1))"
    using i by (simp add: OverHttp serve_def http_route_def [symmetric] track_inflight_def inject_request_id_def
        patch_error_request_id_def inflight_decrement_def case_prod_unfold)
  then show ?thesis using assms route_gated [of a hdr call s1] same by (auto simp: OverHttp)
next
  case (OverGrpc md remote call)
  obtain rid s1 where i: "grpc_inject_request_id (ap_ext a) md s = (rid, s1)" by fastforce
  have same: "sv_writer s1 = sv_writer s" "sv_profile s1 = sv_profile s"
    using i request_id_same(2,5) [of "ap_ext a" s] by (auto simp: grpc_inject_request_id_def split: option.splits)
  let ?md = "md(''x-request-id'' \<mapsto> rid)"
  have run: "sv_writer (handle len a req s) = sv_writer (snd (grpc_serve a ?md remote call s1))"
    by (simp add: OverGrpc i)
  moreover have "gated_write a ?md s1 d = gated_write a md s1 d" for d by (rule gated_headers) simp
  ultimately show ?thesis using assms rpc_gated [of a ?md remote call s1] same by (auto simp: OverGrpc)
qed

text \<open>An application whose remote services say yes: the token is Bo's, the content exists.\<close>

definition open_app :: "sample app" where
  "open_app = sample_app
     \<lparr>ap_token_validator := (\<lambda>token w. (Inr \<lparr>au_user_id = 2, au_display_name = ''Bo''\<rparr>, w)),
      ap_content_validator := (\<lambda>ct cid w. (Inr (Remote True), w))\<rparr>"

definition bearer :: headers where
  "bearer = [''authorization'' \<mapsto> ''Bearer t'', ''x-request-id'' \<mapsto> ''r'']"

abbreviation bo_likes_8 :: request where
  "bo_likes_8 \<equiv> OverGrpc bearer None (RpcLike \<lparr>pc_type = ''post'', pc_id = ''8''\<rparr>)"

lemma open_app_fields:
  "ap_ext open_app = sample_yes" "ap_codec open_app = sample_codec" "ap_config open_app = cfg_small"
  "ap_token_validator open_app = (\<lambda>token w. (Inr \<lparr>au_user_id = 2, au_display_name = ''Bo''\<rparr>, w))"
  "ap_content_validator open_app = (\<lambda>ct cid w. (Inr (Remote True), w))"
  by (simp_all add: open_app_def sample_app_def app_new_fields)

lemma bo_is_known: "\<exists>b. grpc_authenticate open_app bearer sample_server
    = (Inr \<lparr>au_user_id = 2, au_display_name = ''Bo''\<rparr>, sample_server\<lparr>sv_profile := b\<rparr>)"
proof -
  have "parse_bearer_token ''Bearer t'' = Inr ''t''" by code_simp
  moreover have "br_allow (sample_yes, c) (cb_new, w) = (True, cb_new, w)" for c w
    by (simp add: br_allow_def allow_request_def cb_new_def sample_ext_def)
  ultimately show ?thesis
    by (simp add: grpc_authenticate_def extract_token_def bearer_def rpc_then_def rpc_pure_def on_profile_def
        validate_token_def authenticate_token_def open_app_fields sample_server_def br_success_def sample_ext_def)
qed

lemma bo_is_admitted: "grpc_user_write_limit open_app u (sample_server\<lparr>sv_profile := b\<rparr>)
    = (Inr (), sample_server\<lparr>sv_profile := b, sv_seq := 1\<rparr>)"
  by (simp add: write_limit_steps write_check_def check_user_write_limit_def on_limiter_def sample_server_def open_app_fields
      check_rate_limit_inner_def cm_invoke_script_def sample_ext_def rate_limit_of_reply_def enforce_result_def Let_def)

lemma post_8_is_content: "grpc_content open_app \<lparr>pc_type = ''post'', pc_id = ''8''\<rparr> s = (Inr 8, s)"
proof -
  have "parse_nat ''8'' = Some 8" by code_simp
  moreover have "is_valid_content_type cfg_small ''post''"
    by (simp add: is_valid_content_type_def cfg_small_def config_of_def Let_def)
  ultimately show ?thesis
    by (simp add: grpc_content_def grpc_validate_type_def open_app_fields ensure_registered_content_type_def into_status_def
        parse_uuid_def sample_codec_def rpc_then_def rpc_pure_def)
qed

lemma bo_is_served: "\<exists>now. sv_writer (snd (on_commands (run_command open_app (CLike 2 ''post'' 8))
    (sample_server\<lparr>sv_profile := b, sv_seq := 1\<rparr>))) = snd (tx_insert 2 (''post'', 8) now db_small)"
proof -
  have "br_allow (sample_yes, c) (cb_new, w) = (True, cb_new, w)" for c w
    by (simp add: br_allow_def allow_request_def cb_new_def sample_ext_def)
  then have "fst (validate_content open_app ''post'' 8 (cb_new, sample_start\<lparr>sm_up := False\<rparr>)) = Inr ()"
    by (simp add: validate_content_def open_app_fields verdict_def Let_def)
  then obtain b' w where v: "validate_content open_app ''post'' 8 (cb_new, sample_start\<lparr>sm_up := False\<rparr>) = (Inr (), b', w)"
    by (metis prod.collapse)
  have "varchar50_ok ''post''" by (simp add: varchar50_ok_def byte_in_def)
  from quiet_insert [OF sample_quiet [of yes_http no_content no_token] this, of 2 8 db_small w] v show ?thesis
    by (force simp: on_commands_def like_command_def sample_server_def open_app_fields split: prod.splits)
qed

lemma bo_writes: "sv_writer (handle len open_app bo_likes_8 sample_server) \<noteq> sv_writer sample_server"
proof -
  obtain b where u: "grpc_authenticate open_app bearer sample_server
      = (Inr \<lparr>au_user_id = 2, au_display_name = ''Bo''\<rparr>, sample_server\<lparr>sv_profile := b\<rparr>)" using bo_is_known by blast
  let ?s = "sample_server\<lparr>sv_profile := b, sv_seq := 1\<rparr>"
  obtain q s4 where q: "on_commands (run_command open_app (CLike 2 ''post'' 8)) ?s = (q, s4)" by fastforce
  have same: "bearer(''x-request-id'' \<mapsto> ''r'') = bearer" "bearer ''x-request-id'' = Some ''r''"
    by (simp_all add: bearer_def fun_eq_iff)
  have "handle len open_app bo_likes_8 sample_server
      = snd (write_rpc open_app bearer \<lparr>pc_type = ''post'', pc_id = ''8''\<rparr> CLike (\<lambda>r. ReplyLike (like_to_proto r)) sample_server)"
    by (simp add: grpc_inject_request_id_def same write_rpcs del: grpc_serve.simps)
  also have "\<dots> = s4"
    using u bo_is_admitted post_8_is_content q
    by (cases q) (simp_all add: write_rpc_def rpc_then_def rpc_service_def rpc_pure_def into_status_def)
  finally have "sv_writer (handle len open_app bo_likes_8 sample_server) = sv_writer s4" by simp
  moreover obtain now where "sv_writer s4 = snd (tx_insert 2 (''post'', 8) now db_small)"
    using bo_is_served [of b] q by auto
  then have "liked 2 (''post'', 8) (sv_writer s4)" by (simp add: liked_tx_insert)
  moreover have "\<not> liked 2 (''post'', 8) db_small"
    by (simp add: liked_ex db_small_def like_key_def like_content_def)
  ultimately show ?thesis by (auto simp: sample_server_def)
qed

theorem writes_are_gated_witness:
  "\<exists>s0. sv_writer s0 = db_small \<and> gated_write open_app bearer s0 (sv_writer (handle (\<lambda>_. 100) open_app bo_likes_8 sample_server))"
  using writes_are_gated [OF bo_writes, of "\<lambda>_. 100"] by (auto simp: sample_server_def simp del: handle.simps)

end
