(* ===== verification/Shutdown.thy ===== *)
theory Shutdown
  imports Prelude
begin

text \<open>
  \<open>social-api/src/main.rs\<close> from the end of both servers on: the loop that waits for requests in flight, the
  time the background tasks then have, and the closing of the pools; and \<open>tasks/db_pool_metrics.rs\<close>, the other
  background task. The requests still running, the tasks and the clock are the world's: they come in as
  functions, the clock in milliseconds.
\<close>

datatype drain_end = Drained | DrainTimeout nat

datatype task_end = TaskStopped | TaskPanicked string | TaskNotInTime

record 'w drain_ext =
  dr_inflight :: "'w \<Rightarrow> nat \<times> 'w"
  dr_now :: "'w \<Rightarrow> nat \<times> 'w"
  dr_sleep :: "nat \<Rightarrow> 'w \<Rightarrow> 'w"
  dr_join_refresh :: "nat \<Rightarrow> 'w \<Rightarrow> task_end \<times> 'w"
  dr_join_metrics :: "nat \<Rightarrow> 'w \<Rightarrow> task_end \<times> 'w"
  dr_close_writer :: "'w \<Rightarrow> 'w"
  dr_close_reader :: "'w \<Rightarrow> 'w"

partial_function (option) drain_loop :: "'w drain_ext \<Rightarrow> nat \<Rightarrow> 'w \<Rightarrow> (drain_end \<times> 'w) option" where
  "drain_loop x deadline w =
     (case dr_inflight x w of (count, w) \<Rightarrow>
       (if count = 0 then Some (Drained, w)
        else (case dr_now x w of (t, w) \<Rightarrow>
          (if t \<ge> deadline then Some (DrainTimeout count, w)
           else drain_loop x deadline (dr_sleep x 100 w)))))"

text \<open>What is left for the background tasks: at least a second.\<close>

definition task_timeout_ms :: "nat \<Rightarrow> nat \<Rightarrow> nat" where
  "task_timeout_ms deadline now = max (deadline - now) 1000"

definition shut_down :: "'w drain_ext \<Rightarrow> nat \<Rightarrow> 'w \<Rightarrow> (drain_end \<times> task_end \<times> 'w) option" where
  "shut_down x shutdown_timeout_secs w =
     (case dr_now x w of (t, w) \<Rightarrow>
       (let deadline = t + shutdown_timeout_secs * 1000 in
        case drain_loop x deadline w of
          None \<Rightarrow> None
        | Some (r, w) \<Rightarrow>
            (case dr_now x w of (now, w) \<Rightarrow>
              (case dr_join_refresh x (task_timeout_ms deadline now) w of (e, w) \<Rightarrow>
                (case dr_join_metrics x 1000 w of (_, w) \<Rightarrow>
                  Some (r, e, dr_close_reader x (dr_close_writer x w)))))))"

section \<open>The pool gauges\<close>

text \<open>The three gauges of a pool. \<open>num_idle() as u32\<close> keeps 32 bits, \<open>saturating_sub\<close> is the subtraction of
  natural numbers.\<close>

definition pool_gauges :: "string \<Rightarrow> nat \<Rightarrow> nat \<Rightarrow> nat \<Rightarrow> (string \<times> string \<times> nat) list" where
  "pool_gauges pool size_now num_idle max_connections =
     (let idle = num_idle mod 2 ^ 32; active = size_now - idle in
      [(pool, ''active'', active), (pool, ''idle'', idle), (pool, ''max'', max_connections)])"

definition record_pool_metrics :: "nat \<times> nat \<Rightarrow> nat \<times> nat \<Rightarrow> nat \<Rightarrow> (string \<times> string \<times> nat) list" where
  "record_pool_metrics writer reader max_connections =
     pool_gauges ''writer'' (fst writer) (snd writer) max_connections
     @ pool_gauges ''reader'' (fst reader) (snd reader) max_connections"

text \<open>The task: each time its sleep ends before the shutdown it reads the pools and sets the gauges; \<open>rounds\<close> are
  the sizes it reads.\<close>

fun pool_metrics_task :: "nat \<Rightarrow> ((nat \<times> nat) \<times> (nat \<times> nat)) list \<Rightarrow> (string \<times> string \<times> nat) list list" where
  "pool_metrics_task max_connections [] = []"
| "pool_metrics_task max_connections ((writer, reader) # rounds) =
     record_pool_metrics writer reader max_connections # pool_metrics_task max_connections rounds"

text \<open>As long as a pool is no larger than its maximum, the gauges are: active and idle add up to the size of
  the pool and stay below the maximum.\<close>

lemma pool_gauges_consistent:
  assumes "idle \<le> t" "t \<le> m" "m < 2 ^ 32"
  shows "\<exists>a i. pool_gauges pool t idle m = [(pool, ''active'', a), (pool, ''idle'', i), (pool, ''max'', m)]
     \<and> a + i = t \<and> a + i \<le> m"
  using assms by (simp add: pool_gauges_def Let_def)

section \<open>The wait ends\<close>

text \<open>\<open>clock\<close> is the time of a world and \<open>polls\<close> how often the count has been read. Nothing turns the clock
  back, and a sleep takes its time.\<close>

definition drain_world :: "'w drain_ext \<Rightarrow> ('w \<Rightarrow> nat) \<Rightarrow> ('w \<Rightarrow> nat) \<Rightarrow> bool" where
  "drain_world x clock polls \<longleftrightarrow>
     (\<forall>w. clock w \<le> clock (snd (dr_inflight x w)) \<and> polls (snd (dr_inflight x w)) = polls w + 1)
     \<and> (\<forall>w. clock w \<le> fst (dr_now x w) \<and> fst (dr_now x w) \<le> clock (snd (dr_now x w)) \<and> polls (snd (dr_now x w)) = polls w)
     \<and> (\<forall>ms w. clock w + ms \<le> clock (dr_sleep x ms w) \<and> polls (dr_sleep x ms w) = polls w)
     \<and> (\<forall>ms w. clock w \<le> clock (snd (dr_join_refresh x ms w)) \<and> polls (snd (dr_join_refresh x ms w)) = polls w)
     \<and> (\<forall>ms w. clock w \<le> clock (snd (dr_join_metrics x ms w)) \<and> polls (snd (dr_join_metrics x ms w)) = polls w)
     \<and> (\<forall>w. clock w \<le> clock (dr_close_writer x w) \<and> polls (dr_close_writer x w) = polls w)
     \<and> (\<forall>w. clock w \<le> clock (dr_close_reader x w) \<and> polls (dr_close_reader x w) = polls w)"

definition never_idle :: "'w drain_ext \<Rightarrow> bool" where
  "never_idle x \<longleftrightarrow> (\<forall>w. fst (dr_inflight x w) \<noteq> 0)"

text \<open>What the loop sees: the world at its \<open>k\<close>-th round, the count it reads there and, if it reads the
  clock, the time.\<close>

fun after_rounds :: "'w drain_ext \<Rightarrow> nat \<Rightarrow> 'w \<Rightarrow> 'w" where
  "after_rounds x 0 w = w"
| "after_rounds x (Suc k) w = after_rounds x k (dr_sleep x 100 (snd (dr_now x (snd (dr_inflight x w)))))"

definition poll_count :: "'w drain_ext \<Rightarrow> 'w \<Rightarrow> nat \<Rightarrow> nat" where
  "poll_count x w k = fst (dr_inflight x (after_rounds x k w))"

definition poll_time :: "'w drain_ext \<Rightarrow> 'w \<Rightarrow> nat \<Rightarrow> nat" where
  "poll_time x w k = fst (dr_now x (snd (dr_inflight x (after_rounds x k w))))"

text \<open>The loop leaves at its first round that reads zero or finds the deadline passed, and says which.\<close>

definition drain_stops :: "'w drain_ext \<Rightarrow> nat \<Rightarrow> 'w \<Rightarrow> nat \<Rightarrow> drain_end \<Rightarrow> bool" where
  "drain_stops x deadline w k r \<longleftrightarrow>
     (\<forall>j < k. poll_count x w j \<noteq> 0 \<and> poll_time x w j < deadline)
     \<and> (if poll_count x w k = 0 then r = Drained
        else r = DrainTimeout (poll_count x w k) \<and> deadline \<le> poll_time x w k)"

lemma drain_stops_now:
  assumes "dr_inflight x w = (n, w1)" "dr_now x w1 = (t, w2)"
  shows "n = 0 \<Longrightarrow> drain_stops x deadline w 0 Drained"
    and "n \<noteq> 0 \<Longrightarrow> deadline \<le> t \<Longrightarrow> drain_stops x deadline w 0 (DrainTimeout n)"
    and "n \<noteq> 0 \<Longrightarrow> t < deadline \<Longrightarrow> drain_stops x deadline (dr_sleep x 100 w2) k r \<Longrightarrow> drain_stops x deadline w (Suc k) r"
  using assms by (auto simp: drain_stops_def poll_count_def poll_time_def less_Suc_eq_0_disj)

lemma drain_stops_idle: "drain_stops x deadline w k r \<Longrightarrow> never_idle x \<Longrightarrow> r \<noteq> Drained"
  by (auto simp: drain_stops_def poll_count_def never_idle_def)

lemma drain_loop_ends:
  assumes "drain_world x clock polls"
  shows "\<exists>k r w'. drain_loop x deadline w = Some (r, w') \<and> drain_stops x deadline w k r
     \<and> polls w' = polls w + k + 1 \<and> k \<le> (deadline - clock w + 99) div 100
     \<and> (r \<noteq> Drained \<longrightarrow> deadline \<le> clock w')"
proof (induction "deadline - clock w" arbitrary: w rule: less_induct)
  case less
  obtain n w1 where 1: "dr_inflight x w = (n, w1)" by fastforce
  obtain t w2 where 2: "dr_now x w1 = (t, w2)" by fastforce
  note stop = drain_stops_now [OF 1 2, of deadline]
  have c: "clock w \<le> clock w1" "polls w1 = polls w + 1" "clock w1 \<le> t" "t \<le> clock w2" "polls w2 = polls w1"
    using assms 1 2 unfolding drain_world_def by (metis fst_conv snd_conv)+
  consider "n = 0" | "n \<noteq> 0" "deadline \<le> t" | "n \<noteq> 0" "t < deadline" by linarith
  then show ?case
  proof cases
    assume z: "n = 0"
    then have "drain_loop x deadline w = Some (Drained, w1)" using 1 by (subst drain_loop.simps) simp
    then show ?thesis using stop(1) z c by (intro exI [of _ 0] exI [of _ Drained] exI [of _ w1]) simp
  next
    assume z: "n \<noteq> 0" "deadline \<le> t"
    then have "drain_loop x deadline w = Some (DrainTimeout n, w2)" using 1 2 by (subst drain_loop.simps) simp
    then show ?thesis using stop(2) z c by (intro exI [of _ 0] exI [of _ "DrainTimeout n"] exI [of _ w2]) simp
  next
    assume z: "n \<noteq> 0" "t < deadline"
    let ?w = "dr_sleep x 100 w2"
    have s: "clock w2 + 100 \<le> clock ?w" "polls ?w = polls w2" using assms unfolding drain_world_def by blast+
    have "deadline - clock ?w < deadline - clock w" using s(1) c z by linarith
    from less [OF this] obtain k r w' where r: "drain_loop x deadline ?w = Some (r, w')"
        "drain_stops x deadline ?w k r" "polls w' = polls ?w + k + 1"
        "k \<le> (deadline - clock ?w + 99) div 100" "r \<noteq> Drained \<longrightarrow> deadline \<le> clock w'" by blast
    have "drain_loop x deadline w = Some (r, w')" using r(1) 1 2 z by (subst drain_loop.simps) simp
    moreover have "(deadline - clock ?w + 99) div 100 + 1 \<le> (deadline - clock w + 99) div 100"
    proof -
      have "deadline - clock ?w + 99 + 100 \<le> deadline - clock w + 99 \<or> deadline \<le> clock ?w" using s(1) c by linarith
      moreover have "deadline - clock w + 99 \<ge> 100" using c z by linarith
      ultimately show ?thesis by (auto simp: div_le_mono2 less_eq_div_iff_mult_less_eq)
    qed
    ultimately show ?thesis using stop(3) [OF z r(2)] r(3-5) s(2) c
      by (intro exI [of _ "Suc k"] exI [of _ r] exI [of _ w']) simp
  qed
qed

text \<open>What follows the wait only takes time.\<close>

lemma shut_down_after:
  assumes "drain_world x clock polls" "dr_now x w = (t, w1)" "drain_loop x (t + secs * 1000) w1 = Some (r, w2)"
  shows "\<exists>e w'. shut_down x secs w = Some (r, e, w') \<and> clock w2 \<le> clock w' \<and> polls w' = polls w2"
proof -
  obtain now w3 where 3: "dr_now x w2 = (now, w3)" by fastforce
  obtain e w4 where 4: "dr_join_refresh x (task_timeout_ms (t + secs * 1000) now) w3 = (e, w4)" by fastforce
  obtain e' w5 where 5: "dr_join_metrics x 1000 w4 = (e', w5)" by fastforce
  have "shut_down x secs w = Some (r, e, dr_close_reader x (dr_close_writer x w5))"
    using assms(2,3) 3 4 5 by (simp add: shut_down_def Let_def)
  moreover have "clock w2 \<le> clock w3" "polls w3 = polls w2" "clock w3 \<le> clock w4" "polls w4 = polls w3"
    "clock w4 \<le> clock w5" "polls w5 = polls w4"
    using assms(1) 3 4 5 unfolding drain_world_def by (metis fst_conv snd_conv order.trans)+
  moreover have "clock w5 \<le> clock (dr_close_reader x (dr_close_writer x w5))"
    "polls (dr_close_reader x (dr_close_writer x w5)) = polls w5"
    using assms(1) unfolding drain_world_def by (metis order.trans)+
  ultimately show ?thesis by fastforce
qed

text \<open>C39. The shutdown ends, and no later than it has to. However the requests in flight and the tasks
  behave, it returns. The wait leaves at the first read of the count that is zero, and then reports that
  the requests are done; it reports a timeout, with the count it read last, only when no read was zero
  and the clock it then read had passed the deadline; it never sleeps again after reading such a clock,
  and makes at most ten reads of the count per second of the timeout and one more. When the count never is
  zero - a request that was cancelled between its increment and its decrement has this effect - the whole
  timeout passes.\<close>

theorem drain_ends:
  assumes "drain_world x clock polls"
  shows "\<exists>k r e w'. shut_down x secs w = Some (r, e, w')
     \<and> drain_stops x (fst (dr_now x w) + secs * 1000) (snd (dr_now x w)) k r
     \<and> polls w' = polls w + k + 1 \<and> k \<le> 10 * secs
     \<and> ((\<exists>n. r = DrainTimeout n) \<or> never_idle x \<longrightarrow> r \<noteq> Drained \<and> clock w + secs * 1000 \<le> clock w')"
proof -
  obtain t w1 where 1: "dr_now x w = (t, w1)" by fastforce
  have c: "clock w \<le> t" "t \<le> clock w1" "polls w1 = polls w"
    using assms 1 unfolding drain_world_def by (metis fst_conv snd_conv)+
  obtain k r w2 where r: "drain_loop x (t + secs * 1000) w1 = Some (r, w2)"
      "drain_stops x (t + secs * 1000) w1 k r" "polls w2 = polls w1 + k + 1"
      "k \<le> (t + secs * 1000 - clock w1 + 99) div 100" "r \<noteq> Drained \<longrightarrow> t + secs * 1000 \<le> clock w2"
    using drain_loop_ends [OF assms] by blast
  obtain e w' where a: "shut_down x secs w = Some (r, e, w')" "clock w2 \<le> clock w'" "polls w' = polls w2"
    using shut_down_after [OF assms 1 r(1)] by blast
  have "(t + secs * 1000 - clock w1 + 99) div 100 \<le> (secs * 1000 + 99) div 100"
    using c by (intro div_le_mono) linarith
  also have "\<dots> = 10 * secs" by simp
  finally have "k \<le> 10 * secs" using r(4) by linarith
  moreover have "never_idle x \<Longrightarrow> r \<noteq> Drained" using drain_stops_idle [OF r(2)] by blast
  ultimately show ?thesis using a r(2,3,5) c 1
    by (intro exI [of _ k] exI [of _ r] exI [of _ e] exI [of _ w']) auto
qed

text \<open>A clock that only sleeping moves, with a request that never ends, and with one that is done after
  two reads of the count.\<close>

definition waiting_on :: "(nat \<Rightarrow> nat) \<Rightarrow> (nat \<times> nat) drain_ext" where
  "waiting_on left =
     \<lparr>dr_inflight = \<lambda>(t, p). (left p, t, p + 1), dr_now = \<lambda>(t, p). (t, t, p), dr_sleep = \<lambda>ms (t, p). (t + ms, p),
      dr_join_refresh = \<lambda>ms w. (TaskStopped, w), dr_join_metrics = \<lambda>ms w. (TaskNotInTime, w),
      dr_close_writer = \<lambda>w. w, dr_close_reader = \<lambda>w. w\<rparr>"

theorem drain_ends_witness:
  "(\<exists>r e w'. shut_down (waiting_on (\<lambda>p. 1)) 30 (0, 0) = Some (r, e, w') \<and> r \<noteq> Drained \<and> 30000 \<le> fst w' \<and> snd w' \<le> 301)
   \<and> (\<exists>e w'. shut_down (waiting_on (\<lambda>p. if p < 2 then 1 else 0)) 30 (0, 0) = Some (Drained, e, w') \<and> snd w' = 3)"
proof -
  have world: "drain_world (waiting_on f) fst snd" for f by (auto simp: drain_world_def waiting_on_def)
  have "never_idle (waiting_on (\<lambda>p. 1))" by (auto simp: never_idle_def waiting_on_def)
  then have stuck: "\<exists>r e w'. shut_down (waiting_on (\<lambda>p. 1)) 30 (0, 0) = Some (r, e, w') \<and> r \<noteq> Drained
      \<and> 30000 \<le> fst w' \<and> snd w' \<le> 301"
    using drain_ends [OF world, of "\<lambda>p. 1" 30 "(0, 0)"] by auto
  let ?x = "waiting_on (\<lambda>p. if p < 2 then 1 else 0)"
  obtain k r e w' where d: "shut_down ?x 30 (0, 0) = Some (r, e, w')" "drain_stops ?x 30000 (0, 0) k r" "snd w' = k + 1"
    using drain_ends [OF world, of "\<lambda>p. if p < 2 then 1 else 0" 30 "(0, 0)"] by (auto simp: waiting_on_def)
  have counts: "poll_count ?x (0, 0) 0 = 1" "poll_count ?x (0, 0) 1 = 1" "poll_count ?x (0, 0) 2 = 0"
    "poll_time ?x (0, 0) 0 = 0" "poll_time ?x (0, 0) 1 = 100"
    by (simp_all add: poll_count_def poll_time_def waiting_on_def numeral_2_eq_2)
  have "k \<noteq> i" if "poll_count ?x (0, 0) i = 1" "poll_time ?x (0, 0) i < 30000" for i
    using d(2) that by (auto simp: drain_stops_def)
  then have "k \<noteq> 0" "k \<noteq> 1" using counts by simp_all
  moreover have "\<not> 2 < k" using d(2) counts by (auto simp: drain_stops_def)
  ultimately have "k = 2" by simp
  then have "r = Drained" using d(2) counts by (simp add: drain_stops_def)
  then show ?thesis using stuck d(1,3) \<open>k = 2\<close> by auto
qed

end
