(* ===== verification/Process.thy ===== *)
theory Process
  imports Requests Shutdown
begin

text \<open>
  \<open>social-api/src/main.rs\<close> up to the servers, with \<open>DbPools::from_config\<close> of \<open>db.rs\<close> and the connections
  \<open>AppState::new\<close> of \<open>state.rs\<close> opens: how the process starts, and the invariant of \<open>Requests\<close> from there on.
\<close>

section \<open>Start-up\<close>

text \<open>What the start-up calls: opening a database pool, the migrations, Redis, the metrics recorder, a gRPC channel
  (\<open>True\<close> when it opens), spawning the two tasks, and binding the port.\<close>

record 'w start_ext =
  st_connect :: "string \<Rightarrow> 'w \<Rightarrow> (string + unit) \<times> 'w"
  st_migrate :: "'w \<Rightarrow> (string + unit) \<times> 'w"
  st_redis :: "string \<Rightarrow> 'w \<Rightarrow> (string + unit) \<times> 'w"
  st_metrics :: "'w \<Rightarrow> (string + unit) \<times> 'w"
  st_channel :: "string \<Rightarrow> 'w \<Rightarrow> bool \<times> 'w"
  st_spawn_refresh :: "config \<Rightarrow> 'w \<Rightarrow> 'w"
  st_spawn_metrics :: "config \<Rightarrow> 'w \<Rightarrow> 'w"
  st_bind :: "nat \<Rightarrow> 'w \<Rightarrow> (string + unit) \<times> 'w"

text \<open>\<open>?\<close> and \<open>expect\<close>: an \<open>Inl\<close> ends the start-up, here with the message of the panic.\<close>

definition start_then ::
  "('w \<Rightarrow> (string + 'a) \<times> 'w) \<Rightarrow> ('a \<Rightarrow> 'w \<Rightarrow> (string + 'b) \<times> 'w) \<Rightarrow> 'w \<Rightarrow> (string + 'b) \<times> 'w" where
  "start_then f k w = (case f w of (Inl e, w) \<Rightarrow> (Inl e, w) | (Inr v, w) \<Rightarrow> k v w)"

definition expect :: "string \<Rightarrow> ('w \<Rightarrow> (string + 'a) \<times> 'w) \<Rightarrow> 'w \<Rightarrow> (string + 'a) \<times> 'w" where
  "expect m f w = (case f w of (Inl e, w) \<Rightarrow> (Inl (m @ '': '' @ e), w) | (Inr v, w) \<Rightarrow> (Inr v, w))"

definition connect_pools :: "'w start_ext \<Rightarrow> config \<Rightarrow> 'w \<Rightarrow> (string + unit) \<times> 'w" where
  "connect_pools st cfg =
     start_then (st_connect st (database_url cfg)) (\<lambda>_. st_connect st (read_database_url cfg))"

definition connect_validators :: "'w start_ext \<Rightarrow> config \<Rightarrow> 'w \<Rightarrow> (bool \<times> bool) \<times> 'w" where
  "connect_validators st cfg w =
     (if use_grpc_transport cfg then
        (case st_channel st (internal_grpc_url cfg) w of (profile_up, w) \<Rightarrow>
          (case st_channel st (internal_grpc_url cfg) w of (content_up, w) \<Rightarrow> ((profile_up, content_up), w)))
      else ((False, False), w))"

text \<open>The process on the databases \<open>d\<close> (writer) and \<open>d'\<close> (reader): the shared state and the mutable part, whose
  breakers are new and whose counters are zero.\<close>

definition server_new :: "inner \<Rightarrow> inner \<Rightarrow> db \<Rightarrow> db \<Rightarrow> 'w \<Rightarrow> 'w server" where
  "server_new profile content d d' w =
     \<lparr>sv_profile = profile, sv_content = content, sv_writer = d, sv_reader = d', sv_seq = 0, sv_requests = 0,
      sv_inflight = 0, sv_world = w\<rparr>"

definition start_up ::
  "'w ext \<Rightarrow> codec \<Rightarrow> 'w start_ext \<Rightarrow> env \<Rightarrow> db \<Rightarrow> db \<Rightarrow> 'w \<Rightarrow> (string + 'w app \<times> 'w server) \<times> 'w" where
  "start_up x cx st env d d' w =
     (case from_env env of
        Inl e \<Rightarrow> (Inl e, w)
      | Inr cfg \<Rightarrow>
          start_then (expect ''Failed to initialize database pools'' (connect_pools st cfg)) (\<lambda>_.
          start_then (expect ''Failed to run database migrations'' (st_migrate st)) (\<lambda>_.
          start_then (expect ''Failed to initialize Redis pool'' (st_redis st (redis_url cfg))) (\<lambda>_.
          start_then (expect ''Failed to install Prometheus recorder'' (st_metrics st)) (\<lambda>_ w.
            (case connect_validators st cfg w of ((profile_up, content_up), w) \<Rightarrow>
              (case app_new x cx cfg profile_up content_up of (a, content, profile) \<Rightarrow>
                start_then (expect ''Failed to bind HTTP address'' (st_bind st (http_port cfg)))
                  (\<lambda>_ w. (Inr (a, server_new profile content d d' w), w))
                  (st_spawn_metrics st cfg (st_spawn_refresh st cfg w)))))))) w)"

section \<open>From the start\<close>

lemma start_then_Inr:
  "start_then f k w = (Inr r, w') \<longleftrightarrow> (\<exists>v w1. f w = (Inr v, w1) \<and> k v w1 = (Inr r, w'))"
  by (auto simp: start_then_def split: prod.splits sum.splits)

lemma app_new_breakers: "app_new x cx cfg pu cu = (a, c, p) \<Longrightarrow> c = cb_new \<and> p = cb_new"
  by (auto simp: app_new_def build_circuit_breaker_def)

lemma start_up_state:
  assumes "start_up x cx st env d d' w = (Inr (a, s), w')"
  shows "from_env env = Inr (ap_config a) \<and> ap_ext a = x \<and> ap_codec a = cx \<and> s = server_new cb_new cb_new d d' w'"
proof -
  obtain cfg where cfg: "from_env env = Inr cfg" using assms by (cases "from_env env") (auto simp: start_up_def)
  let ?app = "\<lambda>pu cu. app_new x cx cfg pu cu"
  obtain pu cu where a: "a = fst (?app pu cu)" and s: "s = server_new (snd (snd (?app pu cu))) (fst (snd (?app pu cu))) d d' w'"
    using assms cfg by (auto simp: start_up_def start_then_Inr case_prod_unfold)
  obtain c p where n: "?app pu cu = (a, c, p)" using a by (metis prod.collapse)
  have "ap_ext a = x \<and> ap_codec a = cx \<and> ap_config a = cfg"
    using app_new_fields(1-3) [of x cx cfg pu cu] a by simp
  with cfg s n app_new_breakers [OF n] show ?thesis by simp
qed

text \<open>Without a valid configuration nothing is called.\<close>

lemma start_up_no_config: "from_env env = Inl e \<Longrightarrow> start_up x cx st env d d' w = (Inl e, w)"
  by (simp add: start_up_def)

text \<open>C3. What the process keeps, from its start. A process that starts up, with whatever environment and services,
  on databases in which every materialised count is the number of like rows keeps it that way: after any
  sequence of requests over either transport, however the services, the databases and other connections
  behave, both breakers are well formed, each counter is exact and no user likes an item twice.\<close>

theorem process_from_start:
  assumes "others_ok x" "db_inv d" "db_inv d'" "start_up x cx st env d d' w = (Inr (a, s), w')"
  shows "server_inv a (handle_all len a rs s)
    \<and> sql_count c (sv_writer (handle_all len a rs s)) = int (rows_of c (sv_writer (handle_all len a rs s)))
    \<and> distinct (map like_key (likes (sv_writer (handle_all len a rs s))))"
proof (rule process_keeps_invariant)
  note st = start_up_state [OF assms(4)]
  show "others_ok (ap_ext a)" using st assms(1) by simp
  show "server_inv a s" using st assms(2,3) by (simp add: server_inv_def server_new_def)
qed

text \<open>A start on which everything works.\<close>

definition smooth_start :: "sample start_ext" where
  "smooth_start =
     \<lparr>st_connect = \<lambda>u w. (Inr (), w), st_migrate = \<lambda>w. (Inr (), w), st_redis = \<lambda>u w. (Inr (), w),
      st_metrics = \<lambda>w. (Inr (), w), st_channel = \<lambda>u w. (True, w), st_spawn_refresh = \<lambda>c w. w,
      st_spawn_metrics = \<lambda>c w. w, st_bind = \<lambda>p w. (Inr (), w)\<rparr>"

theorem process_from_start_witness:
  "\<exists>a s w'. start_up sample_yes sample_codec smooth_start env_small db_small db_small sample_start = (Inr (a, s), w')
    \<and> server_inv a (handle_all (\<lambda>_. 100) a
        [OverGrpc from_address None (RpcLike \<lparr>pc_type = ''post'', pc_id = ''8''\<rparr>), OverHttp from_address (GetTop (Inl 400))] s)"
proof -
  obtain a s w' where st: "start_up sample_yes sample_codec smooth_start env_small db_small db_small sample_start
      = (Inr (a, s), w')"
    by (simp add: start_up_def from_env_small smooth_start_def start_then_def expect_def connect_pools_def
        connect_validators_def case_prod_unfold)
  from process_from_start [OF sample_others_ok db_small_inv db_small_inv this] this show ?thesis by blast
qed

end
