(* ===== verification/Mock_Services.thy ===== *)
theory Mock_Services
  imports Profile_Client
begin

text \<open>
  \<open>mock-services/src\<close>: the content and profile services the repository runs its own deployment and
  stress tests against, on both transports, and the URL router in front of the HTTP ones. They are the
  services whose behaviour \<open>Content_Client\<close> and \<open>Profile_Client\<close> assume; the last section discharges those
  assumptions for them and shows that it does not matter to a client which transport is configured.
\<close>

section \<open>The data\<close>

definition known_content_types :: "string list" where
  "known_content_types = [''post'', ''bonus_hunter'', ''top_picks'']"

definition is_known_content_type :: "string \<Rightarrow> bool" where
  "is_known_content_type ct \<longleftrightarrow> ct \<in> set known_content_types"

record token_entry =
  te_token :: string
  te_user_id :: string
  te_display_name :: string

definition token_entry_of :: "string \<Rightarrow> string \<Rightarrow> string \<Rightarrow> token_entry" where
  "token_entry_of t u d = \<lparr>te_token = t, te_user_id = u, te_display_name = d\<rparr>"

definition static_tokens :: "token_entry list" where
  "static_tokens =
     [token_entry_of ''tok_user_1'' ''550e8400-e29b-41d4-a716-446655440001'' ''Test User 1'',
      token_entry_of ''tok_user_2'' ''550e8400-e29b-41d4-a716-446655440002'' ''Test User 2'',
      token_entry_of ''tok_user_3'' ''550e8400-e29b-41d4-a716-446655440003'' ''Test User 3'',
      token_entry_of ''tok_user_4'' ''550e8400-e29b-41d4-a716-446655440004'' ''Test User 4'',
      token_entry_of ''tok_user_5'' ''550e8400-e29b-41d4-a716-446655440005'' ''Test User 5'',
      token_entry_of ''tok_user_6'' ''550e8400-e29b-41d4-a716-446655440006'' ''Test User 6'',
      token_entry_of ''tok_user_7'' ''550e8400-e29b-41d4-a716-446655440007'' ''Test User 7'',
      token_entry_of ''tok_user_8'' ''550e8400-e29b-41d4-a716-446655440008'' ''Test User 8'',
      token_entry_of ''tok_user_9'' ''550e8400-e29b-41d4-a716-446655440009'' ''Test User 9'',
      token_entry_of ''tok_user_10'' ''550e8400-e29b-41d4-a716-446655440010'' ''Test User 10'',
      token_entry_of ''tok_user_11'' ''550e8400-e29b-41d4-a716-446655440011'' ''Test User 11'',
      token_entry_of ''tok_user_12'' ''550e8400-e29b-41d4-a716-446655440012'' ''Test User 12'',
      token_entry_of ''tok_user_13'' ''550e8400-e29b-41d4-a716-446655440013'' ''Test User 13'',
      token_entry_of ''tok_user_14'' ''550e8400-e29b-41d4-a716-446655440014'' ''Test User 14'',
      token_entry_of ''tok_user_15'' ''550e8400-e29b-41d4-a716-446655440015'' ''Test User 15'',
      token_entry_of ''tok_user_16'' ''550e8400-e29b-41d4-a716-446655440016'' ''Test User 16'',
      token_entry_of ''tok_user_17'' ''550e8400-e29b-41d4-a716-446655440017'' ''Test User 17'',
      token_entry_of ''tok_user_18'' ''550e8400-e29b-41d4-a716-446655440018'' ''Test User 18'',
      token_entry_of ''tok_user_19'' ''550e8400-e29b-41d4-a716-446655440019'' ''Test User 19'',
      token_entry_of ''tok_user_20'' ''550e8400-e29b-41d4-a716-446655440020'' ''Test User 20'']"

text \<open>\<open>{n:012x}\<close>.\<close>

definition hex_padded :: "nat \<Rightarrow> nat \<Rightarrow> string" where
  "hex_padded width n = replicate (width - length (show_hex n)) (CHR ''0'') @ show_hex n"

definition mock_token_user :: "string \<Rightarrow> (string \<times> string) option" where
  "mock_token_user token =
     (case find (\<lambda>entry. te_token entry = token) static_tokens of
        Some entry \<Rightarrow> Some (te_user_id entry, te_display_name entry)
      | None \<Rightarrow>
          (case str_strip_prefix token ''tok_user_'' of
             None \<Rightarrow> None
           | Some s \<Rightarrow>
               (case parse_u64 s of
                  None \<Rightarrow> None
                | Some n \<Rightarrow>
                    (if \<not> (1 \<le> n \<and> n \<le> 100000) then None
                     else Some (''00000000-0000-4000-8000-'' @ hex_padded 12 n, ''Test User '' @ show_nat n)))))"

section \<open>The services\<close>

definition get_content :: "codec \<Rightarrow> string \<Rightarrow> string \<Rightarrow> http_response" where
  "get_content cx ct cid =
     (case uuid_parse cx cid of
        None \<Rightarrow> \<lparr>hs_status = 400, hs_json = Inr [(''error'', JStr ''invalid_content_id'')]\<rparr>
      | Some i \<Rightarrow>
          (if \<not> is_known_content_type ct
           then \<lparr>hs_status = 404, hs_json = Inr [(''error'', JStr ''unknown_content_type'')]\<rparr>
           else \<lparr>hs_status = 200,
                 hs_json = Inr [(''id'', JStr (uuid_show cx i)),
                                (''title'', JStr (''Mock '' @ ct @ '' item '' @ uuid_show cx i)),
                                (''content_type'', JStr ct)]\<rparr>))"

definition mock_health :: http_response where
  "mock_health = \<lparr>hs_status = 200, hs_json = Inr [(''status'', JStr ''ok'')]\<rparr>"

text \<open>\<open>HeaderValue::to_str\<close> refuses what is not visible ASCII.\<close>

definition visible_ascii :: "char \<Rightarrow> bool" where
  "visible_ascii c \<longleftrightarrow> (32 \<le> (of_char c :: nat) \<and> (of_char c :: nat) < 127) \<or> (of_char c :: nat) = 9"

definition authorization_text :: "string option \<Rightarrow> string" where
  "authorization_text bearer =
     (case bearer of
        None \<Rightarrow> []
      | Some token \<Rightarrow> (if list_all visible_ascii token then ''Bearer '' @ token else []))"

definition mock_profile :: "string option \<Rightarrow> http_response" where
  "mock_profile bearer =
     (let token = (case str_strip_prefix (authorization_text bearer) ''Bearer '' of Some t \<Rightarrow> t | None \<Rightarrow> []) in
      case mock_token_user token of
        Some (user_id, display_name) \<Rightarrow>
          \<lparr>hs_status = 200,
           hs_json = Inr [(''valid'', JBool True), (''user_id'', JStr (''usr_'' @ user_id)),
                          (''display_name'', JStr display_name)]\<rparr>
      | None \<Rightarrow>
          \<lparr>hs_status = 401, hs_json = Inr [(''valid'', JBool False), (''error'', JStr ''invalid_token'')]\<rparr>)"

definition mock_grpc_content :: "codec \<Rightarrow> string \<Rightarrow> string \<Rightarrow> bool grpc_outcome" where
  "mock_grpc_content cx ct cid =
     (case uuid_parse cx cid of
        None \<Rightarrow> GrpcStatus GInvalidArgument ''Invalid content ID''
      | Some _ \<Rightarrow> GrpcReply (is_known_content_type ct))"

definition mock_grpc_token :: "string \<Rightarrow> (bool \<times> string \<times> string) grpc_outcome" where
  "mock_grpc_token token =
     (case mock_token_user token of
        Some (user_id, display_name) \<Rightarrow> GrpcReply (True, user_id, display_name)
      | None \<Rightarrow> GrpcStatus GUnauthenticated ''Invalid token'')"

text \<open>The router of \<open>main.rs\<close> on the path of a plain URL: no escapes, no query, no dots. A static route goes
  before one with parameters, and a parameter is not empty.\<close>

definition mock_router :: "codec \<Rightarrow> string \<Rightarrow> string option \<Rightarrow> http_response" where
  "mock_router cx path bearer =
     (let segments = str_split (CHR ''/'') path; nothing = \<lparr>hs_status = 404, hs_json = Inl ''empty body''\<rparr> in
      if segments = [[], ''v1'', ''auth'', ''validate''] then mock_profile bearer
      else if segments = [[], ''health''] then mock_health
      else (case segments of
          [r, v, ct, cid] \<Rightarrow>
            (if r = [] \<and> v = ''v1'' \<and> ct \<noteq> [] \<and> cid \<noteq> [] then get_content cx ct cid else nothing)
        | _ \<Rightarrow> nothing))"

text \<open>Every host name of the deployment is this server. A URL without the scheme does not get so far.\<close>

definition mock_http :: "codec \<Rightarrow> http_request \<Rightarrow> string + http_response" where
  "mock_http cx r =
     (case str_strip_prefix (hr_url r) ''http://'' of
        None \<Rightarrow> Inl ''builder error''
      | Some rest \<Rightarrow> Inr (mock_router cx (dropWhile (\<lambda>c. c \<noteq> CHR ''/'') rest) (hr_bearer r)))"

section \<open>The deployment\<close>

definition plain_char :: "char \<Rightarrow> bool" where
  "plain_char c \<longleftrightarrow> c \<in> set ''abcdefghijklmnopqrstuvwxyz0123456789_-''"

definition host_url :: "string \<Rightarrow> bool" where
  "host_url u \<longleftrightarrow> (\<exists>host. u = ''http://'' @ host \<and> CHR ''/'' \<notin> set host)"

text \<open>The calls of a client are answered by these services, the configured URLs name a host each, and the
  registered content types need no escape in a URL.\<close>

definition mock_deployment :: "'w ext \<Rightarrow> codec \<Rightarrow> config \<Rightarrow> bool" where
  "mock_deployment x cx cfg \<longleftrightarrow>
     (\<forall>r w. fst (http_send x r w) = mock_http cx r)
     \<and> (\<forall>ct cid t w. fst (grpc_content_validate x ct cid t w) = mock_grpc_content cx ct cid)
     \<and> (\<forall>token t w. fst (grpc_token_validate x token t w) = mock_grpc_token token)
     \<and> uuid_codec_ok cx \<and> user_codec_ok cx \<and> (\<forall>u. uuid_show cx u \<noteq> [])
     \<and> host_url (profile_api_url cfg)
     \<and> (\<forall>(ct, u) \<in> set (content_api_urls cfg). host_url u \<and> ct \<noteq> [] \<and> list_all plain_char ct)"

definition mock_owner :: "codec \<Rightarrow> string \<Rightarrow> authenticated_user option" where
  "mock_owner cx token =
     (case mock_token_user token of
        None \<Rightarrow> None
      | Some (u, d) \<Rightarrow> map_option (\<lambda>i. \<lparr>au_user_id = i, au_display_name = d\<rparr>) (uuid_parse cx u))"

lemma split_plain: "c \<notin> set p \<Longrightarrow> str_split c p = [p]"
  by (induction p) auto

lemma split_step: "c \<notin> set p \<Longrightarrow> str_split c (p @ c # s) = p # str_split c s"
  by (induction p) auto

lemma path_of_host: "CHR ''/'' \<notin> set host \<Longrightarrow> dropWhile (\<lambda>c. c \<noteq> CHR ''/'') (host @ CHR ''/'' # s) = CHR ''/'' # s"
  by (induction host) auto

lemma plain_no_slash: "list_all plain_char s \<Longrightarrow> CHR ''/'' \<notin> set s"
proof -
  assume "list_all plain_char s"
  moreover have "\<not> plain_char (CHR ''/'')" by (simp add: plain_char_def)
  ultimately show ?thesis by (auto simp: list_all_iff)
qed

lemma uuid_no_slash: "uuid_codec_ok cx \<Longrightarrow> CHR ''/'' \<notin> set (uuid_show cx u)"
  by (auto simp: uuid_codec_ok_def uuid_char_def)

lemma mock_http_path:
  assumes "CHR ''/'' \<notin> set host"
  shows "mock_http cx \<lparr>hr_url = (''http://'' @ host) @ CHR ''/'' # p, hr_bearer = b, hr_timeout_secs = n\<rparr>
    = Inr (mock_router cx (CHR ''/'' # p) b)"
proof -
  have "str_strip_prefix ((''http://'' @ host) @ CHR ''/'' # p) ''http://'' = Some (host @ CHR ''/'' # p)"
    using str_strip_prefix_append [of "''http://''" "host @ CHR ''/'' # p"] by simp
  then show ?thesis by (simp only: mock_http_def path_of_host [OF assms] http_request.simps option.case)
qed

lemma mock_http_profile:
  assumes "host_url base"
  shows "mock_http cx (profile_request base t) = Inr (mock_profile (Some t))"
proof -
  obtain host where h: "base = ''http://'' @ host" "CHR ''/'' \<notin> set host"
    using assms by (auto simp: host_url_def)
  have "str_split (CHR ''/'') ''/v1/auth/validate'' = [[], ''v1'', ''auth'', ''validate'']" by simp
  then have "mock_router cx ''/v1/auth/validate'' (Some t) = mock_profile (Some t)"
    by (simp only: mock_router_def Let_def simp_thms if_True)
  then show ?thesis using mock_http_path [OF h(2), of cx "''v1/auth/validate''" "Some t" 5]
    by (simp only: profile_request_def h(1))
qed

lemma mock_http_content:
  assumes "host_url base" "ct \<noteq> []" "list_all plain_char ct" "uuid_codec_ok cx" "uuid_show cx cid \<noteq> []"
  shows "mock_http cx (content_request cx base ct cid) = Inr (get_content cx ct (uuid_show cx cid))"
proof -
  obtain host where h: "base = ''http://'' @ host" "CHR ''/'' \<notin> set host"
    using assms(1) by (auto simp: host_url_def)
  let ?p = "''v1/'' @ ct @ CHR ''/'' # uuid_show cx cid"
  have "str_split (CHR ''/'') (ct @ CHR ''/'' # uuid_show cx cid) = [ct, uuid_show cx cid]"
    using split_step [OF plain_no_slash [OF assms(3)], of "uuid_show cx cid"] split_plain [OF uuid_no_slash [OF assms(4)], of cid]
    by simp
  then have segs: "str_split (CHR ''/'') (CHR ''/'' # ?p) = [[], ''v1'', ct, uuid_show cx cid]" by simp
  have "uuid_show cx cid \<noteq> ''validate''"
  proof
    assume "uuid_show cx cid = ''validate''"
    then have "CHR ''v'' \<in> set (uuid_show cx cid)" by simp
    then show False using assms(4) by (auto simp: uuid_codec_ok_def uuid_char_def)
  qed
  then have "mock_router cx (CHR ''/'' # ?p) None = get_content cx ct (uuid_show cx cid)"
    using assms(2,5) by (simp only: mock_router_def Let_def segs) simp
  then show ?thesis using mock_http_path [OF h(2), of cx ?p None 5] by (simp add: content_request_def h(1))
qed

section \<open>The contracts hold\<close>

lemma digits_visible: "parse_digits acc s = Some n \<Longrightarrow> list_all visible_ascii s"
  by (induction acc s rule: parse_digits.induct)
    (auto simp: digit_val_def visible_ascii_def Let_def split: option.splits if_splits)

lemma nat_visible: "parse_nat s = Some n \<Longrightarrow> list_all visible_ascii s"
  by (auto simp: parse_nat_def dest: digits_visible split: if_splits)

lemma u64_visible: "parse_u64 s = Some n \<Longrightarrow> list_all visible_ascii s"
  by (cases s) (auto simp: parse_uint_def visible_ascii_def split: option.splits if_splits dest: nat_visible)

lemma mock_token_visible:
  assumes "mock_token_user t = Some ud"
  shows "list_all visible_ascii t"
proof (cases "find (\<lambda>entry. te_token entry = t) static_tokens")
  case (Some entry)
  then have "t \<in> te_token ` set static_tokens" by (auto simp: find_Some_iff)
  then show ?thesis by (auto simp: static_tokens_def token_entry_of_def visible_ascii_def)
next
  case None
  then obtain s n where "str_strip_prefix t ''tok_user_'' = Some s" "parse_u64 s = Some n"
    using assms by (auto simp: mock_token_user_def split: option.splits)
  then show ?thesis using u64_visible by (auto dest!: str_strip_prefix_SomeD simp: visible_ascii_def)
qed

lemma mock_no_token: "mock_token_user [] = None"
  by (simp add: mock_token_user_def static_tokens_def token_entry_of_def str_strip_prefix_def str_starts_with_def)

lemma mock_profile_token:
  "mock_profile (Some t) =
     (case mock_token_user t of
        Some (u, d) \<Rightarrow> \<lparr>hs_status = 200, hs_json = Inr [(''valid'', JBool True), (''user_id'', JStr (''usr_'' @ u)),
                                                     (''display_name'', JStr d)]\<rparr>
      | None \<Rightarrow> \<lparr>hs_status = 401, hs_json = Inr [(''valid'', JBool False), (''error'', JStr ''invalid_token'')]\<rparr>)"
proof (cases "list_all visible_ascii t")
  case True
  then show ?thesis
    using str_strip_prefix_append [of "''Bearer ''" t] by (simp add: mock_profile_def authorization_text_def)
next
  case False
  then have "mock_token_user t = None" using mock_token_visible by (cases "mock_token_user t") auto
  with False mock_no_token show ?thesis
    by (simp add: mock_profile_def authorization_text_def str_strip_prefix_def str_starts_with_def)
qed

lemma mock_profile_user: "user_of_response cx (mock_profile (Some t)) = Inr u \<longleftrightarrow> mock_owner cx t = Some u"
  using str_strip_prefix_append [of "''usr_''"]
  by (auto simp: mock_profile_token mock_owner_def user_of_response_def user_of_body_def is_success_def is_server_error_def
      json_bool_def json_str_def Let_def split: option.splits)

lemma mock_reply_user:
  "(\<exists>r. mock_grpc_token t = GrpcReply r \<and> user_of_reply cx r = Inr u) \<longleftrightarrow> mock_owner cx t = Some u"
  by (auto simp: mock_grpc_token_def mock_owner_def user_of_reply_def split: option.splits)

lemma mock_content_status:
  "uuid_codec_ok cx \<Longrightarrow> \<not> is_server_error (hs_status (get_content cx ct (uuid_show cx cid)))
     \<and> is_success (hs_status (get_content cx ct (uuid_show cx cid))) = is_known_content_type ct"
  by (simp add: get_content_def is_success_def is_server_error_def)

lemma mock_http_content_env:
  assumes "mock_deployment x cx cfg" "store_ok x H"
  shows "http_content_env (x, cx, cfg) H (\<lambda>ct cid. is_known_content_type ct)"
proof -
  have "is_success (hs_status r) = is_known_content_type ct"
    if "fst (http_send x (content_request cx base ct cid) w) = Inr r" "content_api_url cfg ct = Some base" for base ct cid w r
  proof -
    have "(ct, base) \<in> set (content_api_urls cfg)" using that(2) by (auto simp: content_api_url_def dest: map_of_SomeD)
    then show ?thesis using assms(1) that(1) mock_http_content [of base ct cx cid] mock_content_status [of cx ct cid]
      by (auto simp: mock_deployment_def)
  qed
  then show ?thesis using assms by (auto simp: mock_deployment_def)
qed

lemma mock_grpc_content_env:
  "mock_deployment x cx cfg \<Longrightarrow> store_ok x H \<Longrightarrow> grpc_content_env (x, cx, cfg) H (\<lambda>ct cid. is_known_content_type ct)"
  by (auto simp: mock_deployment_def mock_grpc_content_def)

lemma mock_identifies:
  assumes "mock_profile (Some t) = r" "is_success (hs_status r)" "hs_json r = Inr body"
  shows "identifies cx (mock_owner cx) t body"
proof -
  obtain u d where ud: "mock_token_user t = Some (u, d)"
    using assms by (cases "mock_token_user t") (auto simp: mock_profile_token is_success_def)
  then have body: "body = [(''valid'', JBool True), (''user_id'', JStr (''usr_'' @ u)), (''display_name'', JStr d)]"
    using assms by (auto simp: mock_profile_token)
  have "str_starts_with (''usr_'' @ u) ''usr_''" by (simp add: str_starts_with_def)
  then show ?thesis unfolding identifies_def body by (auto simp: mock_owner_def ud)
qed

lemma mock_http_token_env:
  assumes "mock_deployment x cx cfg" "store_ok x H"
  shows "http_token_env (x, cx, cfg) H (mock_owner cx)"
proof -
  have "mock_profile (Some t) = r" if "fst (http_send x (profile_request (profile_api_url cfg) t) w) = Inr r" for t w r
    using that assms(1) by (simp add: mock_deployment_def mock_http_profile)
  then have "identifies cx (mock_owner cx) t body"
    if "fst (http_send x (profile_request (profile_api_url cfg) t) w) = Inr r" "is_success (hs_status r)"
      "hs_json r = Inr body" for t w r body
    using that mock_identifies by blast
  moreover have "user_codec_ok cx" using assms(1) by (simp add: mock_deployment_def)
  ultimately show ?thesis using assms(2) by simp
qed

lemma mock_grpc_token_env:
  assumes "mock_deployment x cx cfg" "store_ok x H"
  shows "grpc_token_env (x, cx, cfg) H (mock_owner cx)"
proof -
  have "mock_token_user t = Some (i, d)" if "fst (grpc_token_validate x t n w) = GrpcReply (True, i, d)" for t n w i d
    using that assms(1) by (auto simp: mock_deployment_def mock_grpc_token_def split: option.splits)
  then have "mock_owner cx t = Some \<lparr>au_user_id = u, au_display_name = d\<rparr>"
    if "fst (grpc_token_validate x t n w) = GrpcReply (True, i, d)" "uuid_parse cx i = Some u" for t n w i d u
    using that by (simp add: mock_owner_def)
  then show ?thesis using assms(2) assms(1) [unfolded mock_deployment_def] unfolding grpc_token_env.simps by blast
qed

section \<open>Either transport\<close>

lemma mock_http_token:
  assumes "mock_deployment x cx cfg" "store_ok x H" "collision_free T" "t \<in> T" "entries H (tok_entry cx (mock_owner cx) T) w"
  shows "fst (http_token_validate_call x cx cfg t w) = Inr u \<longleftrightarrow> mock_owner cx t = Some u"
proof
  assume "fst (http_token_validate_call x cx cfg t w) = Inr u"
  then show "mock_owner cx t = Some u"
    using http_token_sound [OF mock_http_token_env [OF assms(1,2)] assms(3-5)] by (metis prod.collapse)
next
  assume own: "mock_owner cx t = Some u"
  obtain c w1 where 1: "cached_user x cx t w = (c, w1)" by fastforce
  have "fst (http_send x (profile_request (profile_api_url cfg) t) w1) = Inr (mock_profile (Some t))"
    using assms(1) mock_http_profile by (simp add: mock_deployment_def)
  then show "fst (http_token_validate_call x cx cfg t w) = Inr u"
    using 1 own mock_profile_user [of cx t u] cached_user_sound [OF assms(2,4,5) 1]
    by (auto simp: http_token_validate_call_def case_prod_unfold split: option.split)
qed

lemma mock_grpc_token_call:
  assumes "mock_deployment x cx cfg" "store_ok x H" "collision_free T" "t \<in> T" "entries H (tok_entry cx (mock_owner cx) T) w"
  shows "fst (grpc_token_validate_call x cx cfg t w) = Inr u \<longleftrightarrow> mock_owner cx t = Some u"
proof
  assume "fst (grpc_token_validate_call x cx cfg t w) = Inr u"
  then show "mock_owner cx t = Some u"
    using grpc_token_sound [OF mock_grpc_token_env [OF assms(1,2)] assms(3-5)] by (metis prod.collapse)
next
  assume own: "mock_owner cx t = Some u"
  obtain c w1 where 1: "cached_user x cx t w = (c, w1)" by fastforce
  obtain r where "mock_grpc_token t = GrpcReply r" "user_of_reply cx r = Inr u"
    using own mock_reply_user [of t cx u] by blast
  then have "fst (grpc_token_validate x t n w1) = GrpcReply r" for n
    using assms(1) by (simp add: mock_deployment_def)
  then show "fst (grpc_token_validate_call x cx cfg t w) = Inr u"
    using 1 own \<open>user_of_reply cx r = Inr u\<close> cached_user_sound [OF assms(2,4,5) 1]
    by (auto simp: grpc_token_validate_call_def case_prod_unfold split: option.split)
qed

lemma mock_http_verdict:
  assumes dep: "mock_deployment x cx cfg" and ok: "store_ok x H"
    and P: "entries H (cv_entry cx (\<lambda>ct cid. is_known_content_type ct)) w" and reg: "content_api_url cfg ct = Some base"
  shows "\<exists>out. fst (http_content_validate x cx cfg ct cid w) = Inr out \<and> outcome_valid out = is_known_content_type ct"
proof -
  have "(ct, base) \<in> set (content_api_urls cfg)" using reg by (auto simp: content_api_url_def dest: map_of_SomeD)
  then have sent: "fst (http_send x (content_request cx base ct cid) w') = Inr (get_content cx ct (uuid_show cx cid))" for w'
    using dep mock_http_content [of base ct cx cid] by (auto simp: mock_deployment_def)
  have "uuid_codec_ok cx" using dep by (simp add: mock_deployment_def)
  note st = mock_content_status [OF this, of ct cid]
  have "\<exists>out. fst (http_content_validate x cx cfg ct cid w) = Inr out"
    using sent st reg by (auto simp: http_content_validate_def Let_def case_prod_unfold split: option.split)
  then show ?thesis
    using http_validator_sound [OF mock_http_content_env [OF dep ok] P] by (metis prod.collapse)
qed

lemma mock_grpc_verdict:
  assumes dep: "mock_deployment x cx cfg" and ok: "store_ok x H"
    and P: "entries H (cv_entry cx (\<lambda>ct cid. is_known_content_type ct)) w"
  shows "\<exists>out. fst (grpc_content_validate_call x cx cfg ct cid w) = Inr out \<and> outcome_valid out = is_known_content_type ct"
proof -
  have sent: "fst (grpc_content_validate x ct (uuid_show cx cid) t w') = GrpcReply (is_known_content_type ct)" for t w'
    using dep by (simp add: mock_deployment_def mock_grpc_content_def)
  have "\<exists>out. fst (grpc_content_validate_call x cx cfg ct cid w) = Inr out"
    using sent by (auto simp: grpc_content_validate_call_def Let_def case_prod_unfold split: option.split)
  then show ?thesis
    using grpc_validator_sound [OF mock_grpc_content_env [OF dep ok] P] by (metis prod.collapse)
qed

lemma static_token_names: "entry \<in> set static_tokens \<Longrightarrow>
    \<exists>s. te_token entry = ''tok_user_'' @ s \<and> te_display_name entry = ''Test User '' @ s"
  by (auto simp: static_tokens_def token_entry_of_def)

text \<open>The tokens the stress tests use are those of the users.\<close>

lemma mock_test_users:
  assumes "1 \<le> n" "n \<le> 100000"
  shows "\<exists>u. mock_token_user (''tok_user_'' @ show_nat n) = Some (u, ''Test User '' @ show_nat n)"
proof (cases "find (\<lambda>entry. te_token entry = ''tok_user_'' @ show_nat n) static_tokens")
  case (Some entry)
  then have "entry \<in> set static_tokens" "te_token entry = ''tok_user_'' @ show_nat n" by (auto simp: find_Some_iff)
  with static_token_names [OF this(1)] Some show ?thesis by (auto simp: mock_token_user_def)
next
  case None
  then show ?thesis
    using assms str_strip_prefix_append [of "''tok_user_''" "show_nat n"] parse_uint_show_nat [of n 64]
    by (simp add: mock_token_user_def)
qed

text \<open>C35. The services of the repository satisfy the contracts the two clients rely on, and the transport does
  not matter: with caches that hold true entries, HTTP and gRPC accept the same tokens for the same user, and
  give the same verdict on every registered content type.\<close>

theorem mock_services_agree:
  assumes "mock_deployment x cx cfg" "store_ok x H"
    and "collision_free T" "t \<in> T" "entries H (tok_entry cx (mock_owner cx) T) w"
    and "entries H (cv_entry cx (\<lambda>ct cid. is_known_content_type ct)) w" "is_valid_content_type cfg ct"
  shows "(fst (http_token_validate_call x cx cfg t w) = Inr u \<longleftrightarrow> mock_owner cx t = Some u)
    \<and> (fst (grpc_token_validate_call x cx cfg t w) = Inr u \<longleftrightarrow> mock_owner cx t = Some u)
    \<and> (\<exists>out. fst (http_content_validate x cx cfg ct cid w) = Inr out \<and> outcome_valid out = is_known_content_type ct)
    \<and> (\<exists>out. fst (grpc_content_validate_call x cx cfg ct cid w) = Inr out \<and> outcome_valid out = is_known_content_type ct)"
proof -
  obtain base where "content_api_url cfg ct = Some base"
    using assms(7) by (auto simp: is_valid_content_type_def content_api_url_def)
  then show ?thesis
    using mock_http_token [OF assms(1-5), of u] mock_grpc_token_call [OF assms(1-5), of u]
      mock_http_verdict [OF assms(1,2,6), of ct base cid] mock_grpc_verdict [OF assms(1,2,6), of ct cid] by simp
qed

text \<open>A codec that also reads the identifier of the first test user.\<close>

definition mock_codec :: codec where
  "mock_codec = sample_codec\<lparr>uuid_parse := \<lambda>s.
     (if s = ''550e8400-e29b-41d4-a716-446655440001'' then Some 1 else uuid_parse sample_codec s)\<rparr>"

definition mock_world :: "sample ext" where
  "mock_world = sample_ext (mock_http mock_codec) (mock_grpc_content mock_codec) mock_grpc_token"

lemma mock_codec_ok: "uuid_codec_ok mock_codec" "user_codec_ok mock_codec" "uuid_show mock_codec u \<noteq> []"
proof -
  have "uuid_show sample_codec u \<noteq> ''550e8400-e29b-41d4-a716-446655440001''" for u
  proof
    assume "uuid_show sample_codec u = ''550e8400-e29b-41d4-a716-446655440001''"
    then have "CHR ''e'' \<in> set (show_nat (unat u))" by (simp add: sample_codec_def)
    then show False using show_nat_chars by force
  qed
  then show "uuid_codec_ok mock_codec" using sample_uuid_codec by (simp add: uuid_codec_ok_def mock_codec_def)
  show "user_codec_ok mock_codec" using sample_user_codec by (simp add: user_codec_ok_def mock_codec_def)
  show "uuid_show mock_codec u \<noteq> []" by (simp add: mock_codec_def sample_codec_def)
qed

lemma mock_world_deployment: "mock_deployment mock_world mock_codec cfg_small"
proof -
  have "host_url ''http://p''" "host_url ''http://c''"
    by (auto simp: host_url_def intro: exI [of _ "''p''"] exI [of _ "''c''"])
  moreover have "list_all plain_char ''post''" by (simp add: plain_char_def)
  moreover have "profile_api_url cfg_small = ''http://p''" "content_api_urls cfg_small = [(''post'', ''http://c'')]"
    by (simp_all add: cfg_small_def config_of_def Let_def)
  ultimately show ?thesis
    using mock_codec_ok by (simp add: mock_deployment_def mock_world_def sample_ext_def)
qed

theorem mock_services_agree_witness:
  "fst (http_token_validate_call mock_world mock_codec cfg_small ''tok_user_1'' sample_start)
     = fst (grpc_token_validate_call mock_world mock_codec cfg_small ''tok_user_1'' sample_start)
   \<and> is_ok (fst (http_content_validate mock_world mock_codec cfg_small ''post'' 7 sample_start))"
proof -
  let ?own = "mock_owner mock_codec" and ?u = "\<lparr>au_user_id = 1, au_display_name = ''Test User 1''\<rparr>"
  have own: "?own ''tok_user_1'' = Some ?u"
    by (simp add: mock_owner_def mock_token_user_def static_tokens_def token_entry_of_def mock_codec_def)
  have P: "entries sample_holds Q sample_start" for Q by (simp add: entries_def sample_holds_def sample_start_def)
  have cf: "collision_free {''tok_user_1''}" by (simp add: collision_free_def)
  have reg: "is_valid_content_type cfg_small ''post''"
    by (simp add: is_valid_content_type_def cfg_small_def config_of_def Let_def)
  have ok: "store_ok mock_world sample_holds" using sample_store_ok by (simp add: mock_world_def)
  from mock_services_agree [OF mock_world_deployment ok cf _ P P reg, of "''tok_user_1''" ?u 7] own
  show ?thesis by auto
qed

end
