(* ===== verification/Transactions.thy ===== *)
theory Transactions
  imports Repositories "HOL-Library.Sublist"
begin

text \<open>
  The two write transactions of \<open>social-api/src/repositories.rs\<close> with any number of connections running them at
  once, one statement at a time, as PostgreSQL runs them at its default isolation level: a statement sees what
  is committed, what a transaction wrote becomes visible when it commits, and a write to a row that an open
  transaction has written waits for it. \<open>Repositories\<close> lets a transaction take effect at one point, with whole
  commits of others in between; here that is proved: the commits are the transactions of \<open>Tables\<close> run one
  after the other, every answer comes from a state between two commits, and the transactions cannot deadlock.
\<close>

section \<open>The transactions\<close>

datatype tx_answer = LikeAnswer insert_like_result | UnlikeAnswer delete_like_result | TxFailed

text \<open>Where a connection stands. A like draws its identifier from the sequence (the default of \<open>id\<close> is evaluated
  before the conflict is looked for), inserts, increments and commits; after a conflict it reads the existing
  row, commits, and reads the count if there was none. An unlike deletes, decrements and commits, or reads the
  count; when another transaction is deleting the row its statement found, it waits for that row (its \<open>id\<close>), and
  a row inserted meanwhile does not count for the statement. Each state says what the last statement returned; the
  last one keeps the request it answers.\<close>

datatype tx =
    TxIdle
  | LikeBegun uuid content_key datetime
  | LikeDrawn uuid content_key datetime int
  | LikeInserted like
  | LikeCounted like int
  | LikeConflict uuid content_key
  | LikeExisting uuid content_key "(like \<times> int) option"
  | LikeRemoved uuid content_key
  | UnlikeBegun uuid content_key
  | UnlikeWaits uuid content_key int
  | UnlikeDeleted uuid content_key
  | UnlikeCounted uuid content_key "int option"
  | UnlikeAbsent uuid content_key
  | UnlikeRead uuid content_key int
  | TxDone uuid content_key tx_answer

text \<open>The rows an open transaction has written: a row of \<open>likes\<close> (its unique key) and a row of \<open>like_counts\<close>.\<close>

fun tx_key :: "tx \<Rightarrow> (uuid \<times> content_key) option" where
  "tx_key (LikeInserted r) = Some (like_key r)"
| "tx_key (LikeCounted r _) = Some (like_key r)"
| "tx_key (UnlikeDeleted u c) = Some (u, c)"
| "tx_key (UnlikeCounted u c _) = Some (u, c)"
| "tx_key _ = None"

fun tx_counter :: "tx \<Rightarrow> content_key option" where
  "tx_counter (LikeCounted r _) = Some (like_content r)"
| "tx_counter (UnlikeCounted u c _) = Some c"
| "tx_counter _ = None"

datatype commit = CommitLike like int | CommitUnlike uuid content_key int

text \<open>The effect of a commit on the committed tables.\<close>

fun apply_commit :: "commit \<Rightarrow> db \<Rightarrow> db" where
  "apply_commit (CommitLike r n) d =
     d\<lparr>likes := likes d @ [r], like_counts := AList.update (like_content r) n (like_counts d)\<rparr>"
| "apply_commit (CommitUnlike u c n) d =
     d\<lparr>likes := filter (\<lambda>r. like_key r \<noteq> (u, c)) (likes d), like_counts := AList.update c n (like_counts d)\<rparr>"

text \<open>The statement a connection sends next: its new state, the sequence (in \<open>db\<close>) and what it commits; \<open>None\<close>
  while it has to wait. \<open>kf\<close> and \<open>cf\<close> tell which rows no other open transaction has written. The decrement
  always finds its row (\<open>tx_ok\<close> below); the code's \<open>unwrap_or(0)\<close> is in the answer.\<close>

fun tx_next ::
  "(uuid \<times> content_key \<Rightarrow> bool) \<Rightarrow> (content_key \<Rightarrow> bool) \<Rightarrow> db \<Rightarrow> tx \<Rightarrow> (tx \<times> db \<times> commit option) option" where
  "tx_next kf cf d (LikeBegun u c now) =
     (if \<not> varchar50_ok (fst c) then Some (TxDone u c TxFailed, burn_seq d, None)
      else Some (LikeDrawn u c now (next_like_id d), burn_seq d, None))"
| "tx_next kf cf d (LikeDrawn u c now i) =
     (if \<not> kf (u, c) then None
      else (case sql_insert_like u c now (d\<lparr>next_like_id := i\<rparr>) of
          (Some r, _) \<Rightarrow> Some (LikeInserted r, d, None)
        | (None, _) \<Rightarrow> Some (LikeConflict u c, d, None)))"
| "tx_next kf cf d (LikeInserted r) =
     (if \<not> cf (like_content r) then None
      else Some (LikeCounted r (fst (sql_upsert_count (like_content r) d)), d, None))"
| "tx_next kf cf d (LikeCounted r n) =
     Some (TxDone (lk_user r) (like_content r) (LikeAnswer (Inserted (row_of r) n)),
           apply_commit (CommitLike r n) d, Some (CommitLike r n))"
| "tx_next kf cf d (LikeConflict u c) =
     Some (LikeExisting u c (map_option (\<lambda>r. (r, sql_count c d)) (sql_find_like u c d)), d, None)"
| "tx_next kf cf d (LikeExisting u c existing) =
     (case existing of
        Some (r, n) \<Rightarrow> Some (TxDone u c (LikeAnswer (AlreadyExisted (row_of r) n)), d, None)
      | None \<Rightarrow> Some (LikeRemoved u c, d, None))"
| "tx_next kf cf d (LikeRemoved u c) =
     Some (TxDone u c (LikeAnswer (ConcurrentlyRemoved (sql_count c d))), d, None)"
| "tx_next kf cf d (UnlikeBegun u c) =
     (case sql_find_like u c d of
        None \<Rightarrow> Some (UnlikeAbsent u c, d, None)
      | Some r \<Rightarrow> Some (if kf (u, c) then UnlikeDeleted u c else UnlikeWaits u c (lk_id r), d, None))"
| "tx_next kf cf d (UnlikeWaits u c i) =
     (if \<not> kf (u, c) then None
      else Some (if map_option lk_id (sql_find_like u c d) = Some i then UnlikeDeleted u c else UnlikeAbsent u c,
                 d, None))"
| "tx_next kf cf d (UnlikeDeleted u c) =
     (if \<not> cf c then None else Some (UnlikeCounted u c (fst (sql_decrement_count c d)), d, None))"
| "tx_next kf cf d (UnlikeCounted u c m) =
     (let n = (case m of None \<Rightarrow> 0 | Some n \<Rightarrow> n) in
      Some (TxDone u c (UnlikeAnswer \<lparr>was_liked = True, dl_count = n\<rparr>),
            (case m of None \<Rightarrow> snd (sql_delete_like u c d) | Some n \<Rightarrow> apply_commit (CommitUnlike u c n) d),
            Some (CommitUnlike u c n)))"
| "tx_next kf cf d (UnlikeAbsent u c) = Some (UnlikeRead u c (sql_count c d), d, None)"
| "tx_next kf cf d (UnlikeRead u c n) =
     Some (TxDone u c (UnlikeAnswer \<lparr>was_liked = False, dl_count = n\<rparr>), d, None)"
| "tx_next kf cf d TxIdle = None"
| "tx_next kf cf d (TxDone u c a) = None"

section \<open>The connections\<close>

text \<open>The committed tables with the sequence, the connections, and two books that no statement reads: the commits
  so far, newest first, and how many there were when each connection took its last request.\<close>

record tx_state =
  tx_db :: db
  tx_conns :: "tx list"
  tx_commits :: "commit list"
  tx_since :: "nat list"

definition tx_start :: "nat \<Rightarrow> db \<Rightarrow> tx_state" where
  "tx_start n d = \<lparr>tx_db = d, tx_conns = replicate n TxIdle, tx_commits = [], tx_since = replicate n 0\<rparr>"

definition others_free :: "(tx \<Rightarrow> 'k option) \<Rightarrow> tx list \<Rightarrow> nat \<Rightarrow> 'k \<Rightarrow> bool" where
  "others_free f ps t k \<longleftrightarrow> (\<forall>u < length ps. u \<noteq> t \<longrightarrow> f (ps ! u) \<noteq> Some k)"

definition tx_open :: "tx \<Rightarrow> bool" where
  "tx_open p \<longleftrightarrow> p \<noteq> TxIdle \<and> (\<forall>u c a. p \<noteq> TxDone u c a)"

definition tx_move :: "nat \<Rightarrow> tx \<Rightarrow> tx_state \<Rightarrow> tx_state" where
  "tx_move t p s = s\<lparr>tx_conns := (tx_conns s)[t := p]\<rparr>"

definition tx_take :: "nat \<Rightarrow> tx \<Rightarrow> tx_state \<Rightarrow> tx_state" where
  "tx_take t p s = (tx_move t p s)\<lparr>tx_since := (tx_since s)[t := length (tx_commits s)]\<rparr>"

definition tx_advance :: "nat \<Rightarrow> tx_state \<Rightarrow> tx_state option" where
  "tx_advance t s =
     (if t \<ge> length (tx_conns s) then None
      else (case tx_next (others_free tx_key (tx_conns s) t) (others_free tx_counter (tx_conns s) t) (tx_db s)
                   (tx_conns s ! t) of
          None \<Rightarrow> None
        | Some (p, d, k) \<Rightarrow>
            Some (s\<lparr>tx_db := d, tx_conns := (tx_conns s)[t := p],
                    tx_commits := (case k of None \<Rightarrow> tx_commits s | Some k \<Rightarrow> k # tx_commits s)\<rparr>)))"

text \<open>The request a transaction serves.\<close>

fun tx_request :: "tx \<Rightarrow> uuid \<times> content_key" where
  "tx_request (LikeBegun u c now) = (u, c)"
| "tx_request (LikeDrawn u c now i) = (u, c)"
| "tx_request (LikeInserted r) = like_key r"
| "tx_request (LikeCounted r n) = like_key r"
| "tx_request (LikeConflict u c) = (u, c)"
| "tx_request (LikeExisting u c e) = (u, c)"
| "tx_request (LikeRemoved u c) = (u, c)"
| "tx_request (UnlikeBegun u c) = (u, c)"
| "tx_request (UnlikeWaits u c i) = (u, c)"
| "tx_request (UnlikeDeleted u c) = (u, c)"
| "tx_request (UnlikeCounted u c m) = (u, c)"
| "tx_request (UnlikeAbsent u c) = (u, c)"
| "tx_request (UnlikeRead u c n) = (u, c)"
| "tx_request (TxDone u c a) = (u, c)"
| "tx_request TxIdle = undefined"

definition tx_failed :: "tx \<Rightarrow> tx" where
  "tx_failed p = (case tx_request p of (u, c) \<Rightarrow> TxDone u c TxFailed)"

text \<open>A connection that is not in a transaction takes a request; an open one sends its next statement; a
  statement or a commit fails and the transaction is rolled back (\<open>TxFault\<close>); a commit is applied and its
  acknowledgement lost (\<open>TxLost\<close>).\<close>

datatype tx_action =
    TxLike nat uuid content_key datetime
  | TxUnlike nat uuid content_key
  | TxStep nat
  | TxFault nat
  | TxLost nat

fun tx_act :: "tx_action \<Rightarrow> tx_state \<Rightarrow> tx_state option" where
  "tx_act (TxLike t u c now) s =
     (if t < length (tx_conns s) \<and> \<not> tx_open (tx_conns s ! t) then Some (tx_take t (LikeBegun u c now) s) else None)"
| "tx_act (TxUnlike t u c) s =
     (if t < length (tx_conns s) \<and> \<not> tx_open (tx_conns s ! t) then Some (tx_take t (UnlikeBegun u c) s) else None)"
| "tx_act (TxStep t) s = tx_advance t s"
| "tx_act (TxFault t) s =
     (if t < length (tx_conns s) \<and> tx_open (tx_conns s ! t)
      then Some (tx_move t (tx_failed (tx_conns s ! t)) s) else None)"
| "tx_act (TxLost t) s =
     (if t < length (tx_conns s) \<and> tx_counter (tx_conns s ! t) \<noteq> None
      then map_option (tx_move t (tx_failed (tx_conns s ! t))) (tx_advance t s) else None)"

inductive tx_reach :: "nat \<Rightarrow> db \<Rightarrow> tx_state \<Rightarrow> bool" for n d where
  tx_init: "tx_reach n d (tx_start n d)"
| tx_more: "tx_reach n d s \<Longrightarrow> tx_act a s = Some s' \<Longrightarrow> tx_reach n d s'"

section \<open>What the open transactions hold\<close>

definition fresh_id :: "db \<Rightarrow> int \<Rightarrow> bool" where
  "fresh_id d i \<longleftrightarrow> 0 < i \<and> i < next_like_id d \<and> i \<notin> lk_id ` set (likes d)"

fun tx_ok :: "db \<Rightarrow> tx \<Rightarrow> bool" where
  "tx_ok d (LikeDrawn u c now i) \<longleftrightarrow> fresh_id d i"
| "tx_ok d (LikeInserted r) \<longleftrightarrow> fresh_id d (lk_id r) \<and> \<not> liked (lk_user r) (like_content r) d"
| "tx_ok d (LikeCounted r n) \<longleftrightarrow>
     fresh_id d (lk_id r) \<and> \<not> liked (lk_user r) (like_content r) d \<and> n = sql_count (like_content r) d + 1"
| "tx_ok d (UnlikeDeleted u c) \<longleftrightarrow> liked u c d"
| "tx_ok d (UnlikeCounted u c m) \<longleftrightarrow> liked u c d \<and> m = Some (sql_count c d - 1)"
| "tx_ok d _ \<longleftrightarrow> True"

fun tx_id :: "tx \<Rightarrow> int option" where
  "tx_id (LikeDrawn u c now i) = Some i"
| "tx_id (LikeInserted r) = Some (lk_id r)"
| "tx_id (LikeCounted r n) = Some (lk_id r)"
| "tx_id _ = None"

definition exclusive :: "(tx \<Rightarrow> 'k option) \<Rightarrow> tx list \<Rightarrow> bool" where
  "exclusive f ps \<longleftrightarrow> (\<forall>t < length ps. \<forall>k. f (ps ! t) = Some k \<longrightarrow> others_free f ps t k)"

definition tx_inv :: "tx_state \<Rightarrow> bool" where
  "tx_inv s \<longleftrightarrow> db_inv (tx_db s) \<and> (\<forall>p \<in> set (tx_conns s). tx_ok (tx_db s) p)
     \<and> exclusive tx_key (tx_conns s) \<and> exclusive tx_counter (tx_conns s) \<and> exclusive tx_id (tx_conns s)"

lemma exclusive_update:
  assumes "exclusive f ps" "t < length ps" "\<And>k. f p = Some k \<Longrightarrow> f (ps ! t) = Some k \<or> others_free f ps t k"
  shows "exclusive f (ps[t := p])"
proof -
  have free: "others_free f ps t k" if "f p = Some k" for k
    using assms(3) [OF that] assms(1,2) by (auto simp: exclusive_def)
  have "others_free f (ps[t := p]) u k" if u: "u < length ps" "f (ps[t := p] ! u) = Some k" for u k
  proof (cases "u = t")
    case True
    then show ?thesis using free [of k] u assms(2) by (simp add: others_free_def)
  next
    case False
    then have "f (ps ! u) = Some k" using u by simp
    moreover have "f p \<noteq> Some k"
    proof
      assume "f p = Some k"
      from free [OF this] False u(1) \<open>f (ps ! u) = Some k\<close> show False by (simp add: others_free_def)
    qed
    moreover have "others_free f ps u k" using assms(1) u(1) \<open>f (ps ! u) = Some k\<close> by (simp add: exclusive_def)
    ultimately show ?thesis using assms(2) by (auto simp: others_free_def nth_list_update)
  qed
  then show ?thesis by (simp add: exclusive_def)
qed

lemma exclusiveD:
  "exclusive f ps \<Longrightarrow> t < length ps \<Longrightarrow> u < length ps \<Longrightarrow> u \<noteq> t \<Longrightarrow> f (ps ! t) = Some k \<Longrightarrow> f (ps ! u) \<noteq> Some k"
  unfolding exclusive_def others_free_def by blast

lemma exclusive_idle: "exclusive f ps \<Longrightarrow> t < length ps \<Longrightarrow> f p = None \<Longrightarrow> exclusive f (ps[t := p])"
  by (rule exclusive_update) simp_all

lemma apply_commit_liked:
  "liked u c (apply_commit (CommitLike r n) d) \<longleftrightarrow> (u, c) = like_key r \<or> liked u c d"
  "liked u c (apply_commit (CommitUnlike v k m) d) \<longleftrightarrow> (u, c) \<noteq> (v, k) \<and> liked u c d"
  by (auto simp: liked_iff)

lemma apply_commit_count:
  "sql_count c (apply_commit (CommitLike r n) d) = (if c = like_content r then n else sql_count c d)"
  "sql_count c (apply_commit (CommitUnlike v k m) d) = (if c = k then m else sql_count c d)"
  by (simp_all add: sql_count_def update_conv)

lemma apply_liked_inv:
  assumes inv: "db_inv d" and ok: "tx_ok d (LikeCounted r n)"
  shows "db_inv (apply_commit (CommitLike r n) d)"
proof -
  let ?d = "apply_commit (CommitLike r n) d" and ?c = "like_content r"
  have n: "n = sql_count ?c d + 1" and id: "fresh_id d (lk_id r)" and new: "\<not> liked (lk_user r) ?c d" using ok by simp_all
  have "sql_count k ?d = (if k = ?c then sql_count ?c d + 1 else sql_count k d)" for k
    using apply_commit_count(1) n by simp
  moreover have "rows_of k ?d = (if k = ?c then rows_of ?c d + 1 else rows_of k d)" for k by (simp add: rows_of_def)
  ultimately have "\<forall>k. sql_count k ?d = int (rows_of k ?d)" using db_inv_count [OF inv] by (simp del: split_paired_All)
  moreover have "like_key r \<notin> like_key ` set (likes d)" using new by (simp add: liked_iff like_key_def)
  then have "distinct (map like_key (likes ?d)) \<and> distinct (map lk_id (likes ?d))
      \<and> (\<forall>r \<in> set (likes ?d). 0 < lk_id r \<and> lk_id r < next_like_id ?d) \<and> 0 < next_like_id ?d"
    using inv id by (auto simp: db_inv_def fresh_id_def)
  moreover have "distinct (map fst (like_counts ?d))" using inv by (simp add: db_inv_def distinct_update)
  ultimately show ?thesis unfolding db_inv_def by blast
qed

lemma apply_unliked:
  "db_inv d \<Longrightarrow> liked u c d \<Longrightarrow> apply_commit (CommitUnlike u c (sql_count c d - 1)) d = snd (tx_delete u c d)"
  by (simp add: tx_delete_liked)

text \<open>A commit, and a draw from the sequence, leave alone what another transaction holds.\<close>

lemma tx_ok_commit:
  assumes "tx_ok d q" "tx_key q \<noteq> Some (like_key r)" "tx_counter q \<noteq> Some (like_content r)" "tx_id q \<noteq> Some (lk_id r)"
  shows "tx_ok (apply_commit (CommitLike r n) d) q"
proof -
  have "fresh_id d i \<Longrightarrow> i \<noteq> lk_id r \<Longrightarrow> fresh_id (apply_commit (CommitLike r n) d) i" for i by (auto simp: fresh_id_def)
  with assms show ?thesis
    by (cases q) (auto simp: apply_commit_liked apply_commit_count like_key_def simp del: apply_commit.simps)
qed

lemma tx_ok_uncommit:
  assumes "tx_ok d q" "tx_key q \<noteq> Some (u, c)" "tx_counter q \<noteq> Some c"
  shows "tx_ok (apply_commit (CommitUnlike u c n) d) q"
proof -
  have "fresh_id d i \<Longrightarrow> fresh_id (apply_commit (CommitUnlike u c n) d) i" for i by (auto simp: fresh_id_def)
  with assms show ?thesis
    by (cases q) (auto simp: apply_commit_liked apply_commit_count like_key_def simp del: apply_commit.simps)
qed

lemma tx_ok_burn: "tx_ok d q \<Longrightarrow> tx_ok (burn_seq d) q"
proof -
  have "liked u c (burn_seq d) \<longleftrightarrow> liked u c d" "sql_count c (burn_seq d) = sql_count c d" for u c
    by (simp_all add: liked_iff burn_seq_def)
  moreover have "fresh_id d i \<Longrightarrow> fresh_id (burn_seq d) i" for i by (simp add: fresh_id_def burn_seq_def)
  ultimately show "tx_ok d q \<Longrightarrow> tx_ok (burn_seq d) q" by (cases q) auto
qed

section \<open>One statement\<close>

lemma upsert_count: "fst (sql_upsert_count c d) = sql_count c d + 1"
  by (simp add: sql_upsert_count_def sql_count_def Let_def split: option.split)

lemma decrement_count:
  assumes "db_inv d" "liked u c d"
  shows "fst (sql_decrement_count c d) = Some (sql_count c d - 1)"
proof -
  have "0 < sql_count c d" using rows_of_liked [OF assms(2)] db_inv_count [OF assms(1)] by simp
  then show ?thesis using count_pos_entry [of c d] by (simp add: sql_decrement_count_def Let_def)
qed

lemma insert_finds:
  "sql_insert_like u c now (d\<lparr>next_like_id := i\<rparr>) =
     (if liked u c d then (None, d\<lparr>next_like_id := i + 1\<rparr>)
      else (let r = \<lparr>lk_id = i, lk_user = u, lk_type = fst c, lk_content = snd c, lk_created = now\<rparr> in
            (Some r, d\<lparr>next_like_id := i + 1, likes := likes d @ [r]\<rparr>)))"
  by (auto simp: sql_insert_like_def liked_def sql_find_like_def Let_def split: option.split)

lemma like_row_key [simp]: "like_key r = (lk_user r, like_content r)" 
  by (simp add: like_key_def)

lemma tx_next_key: "tx_next kf cf d p = Some (p', d', k) \<Longrightarrow> tx_key p' = Some x \<Longrightarrow> tx_key p = Some x \<or> kf x"
  by (cases p) (auto simp: insert_finds Let_def like_content_def split: if_splits option.splits)

lemma tx_next_counter: "tx_next kf cf d p = Some (p', d', k) \<Longrightarrow> tx_counter p' = Some x \<Longrightarrow> tx_counter p = Some x \<or> cf x"
  by (cases p) (auto simp: insert_finds Let_def split: if_splits option.splits)

lemma tx_next_id: "tx_next kf cf d p = Some (p', d', k) \<Longrightarrow> tx_id p' = Some i \<Longrightarrow> tx_id p = Some i \<or> i = next_like_id d"
  by (cases p) (auto simp: insert_finds Let_def split: if_splits option.splits)

lemma tx_next_self:
  assumes "db_inv d" "tx_ok d p" "tx_next kf cf d p = Some (p', d', k)"
  shows "db_inv d' \<and> tx_ok d' p'"
proof (cases p)
  case (LikeBegun u c now)
  have "fresh_id (burn_seq d) (next_like_id d)" using assms(1) by (auto simp: fresh_id_def burn_seq_def db_inv_def)
  then show ?thesis using LikeBegun assms by (auto split: if_splits)
next
  case (LikeDrawn u c now i)
  then show ?thesis using assms by (auto simp: insert_finds Let_def like_content_def split: if_splits)
next
  case (LikeInserted r)
  then show ?thesis using assms by (auto simp: upsert_count split: if_splits)
next
  case (LikeCounted r n)
  then show ?thesis using assms apply_liked_inv [OF assms(1), of r n] by (auto simp del: apply_commit.simps)
next
  case (LikeExisting u c e)
  then show ?thesis using assms by (auto split: option.splits)
next
  case (UnlikeBegun u c)
  then show ?thesis using assms by (auto simp: liked_def split: option.splits)
next
  case (UnlikeWaits u c i)
  then show ?thesis using assms by (auto simp: liked_def split: if_splits)
next
  case (UnlikeDeleted u c)
  then show ?thesis using assms decrement_count by (auto split: if_splits)
next
  case (UnlikeCounted u c m)
  then have "d' = snd (tx_delete u c d)" "tx_ok d' p'"
    using assms apply_unliked [OF assms(1), of u c] by (auto simp: Let_def simp del: apply_commit.simps)
  then show ?thesis using tx_delete_inv [OF assms(1)] by simp
qed (use assms in auto)

lemma tx_next_other:
  assumes "tx_ok d p" "tx_next kf cf d p = Some (p', d', k)" "tx_ok d q"
    and "\<And>x. tx_key p = Some x \<Longrightarrow> tx_key q \<noteq> Some x" "\<And>x. tx_counter p = Some x \<Longrightarrow> tx_counter q \<noteq> Some x"
    and "\<And>x. tx_id p = Some x \<Longrightarrow> tx_id q \<noteq> Some x"
  shows "tx_ok d' q"
proof (cases p)
  case (LikeBegun u c now)
  then show ?thesis using assms(2,3) tx_ok_burn by (auto split: if_splits)
next
  case (LikeCounted r n)
  then show ?thesis using assms tx_ok_commit [OF assms(3), of r n] by (auto simp del: apply_commit.simps)
next
  case (UnlikeCounted u c m)
  then show ?thesis using assms tx_ok_uncommit [OF assms(3), of u c] by (auto simp: Let_def simp del: apply_commit.simps)
qed (use assms(2,3) in \<open>auto simp: insert_finds Let_def split: if_splits option.splits\<close>)

lemma tx_advance_inv:
  assumes inv: "tx_inv s" and run: "tx_advance t s = Some s'"
  shows "tx_inv s'"
proof -
  let ?ps = "tx_conns s" and ?d = "tx_db s"
  let ?kf = "others_free tx_key ?ps t" and ?cf = "others_free tx_counter ?ps t"
  obtain p' d' k where t: "t < length ?ps" and n: "tx_next ?kf ?cf ?d (?ps ! t) = Some (p', d', k)"
    and s': "tx_db s' = d'" "tx_conns s' = ?ps[t := p']"
    using run by (auto simp: tx_advance_def split: if_splits option.splits prod.splits)
  have db: "db_inv ?d" and ok: "\<And>u. u < length ?ps \<Longrightarrow> tx_ok ?d (?ps ! u)"
    and ex: "exclusive tx_key ?ps" "exclusive tx_counter ?ps" "exclusive tx_id ?ps"
    using inv by (auto simp: tx_inv_def)
  note self = tx_next_self [OF db ok [OF t] n]
  have other: "tx_ok d' (?ps ! u)" if "u < length ?ps" "u \<noteq> t" for u
    by (rule tx_next_other [OF ok [OF t] n ok [OF that(1)]])
      (erule exclusiveD [OF ex(1) t that] exclusiveD [OF ex(2) t that] exclusiveD [OF ex(3) t that])+
  have "tx_ok d' q" if q: "q \<in> set (?ps[t := p'])" for q
  proof -
    obtain u where u: "u < length ?ps" "q = ?ps[t := p'] ! u" using q unfolding in_set_conv_nth by auto
    then show ?thesis using self other by (cases "u = t") simp_all
  qed
  moreover have "exclusive tx_key (?ps[t := p'])" using tx_next_key [OF n] by (intro exclusive_update ex(1) t) auto
  moreover have "exclusive tx_counter (?ps[t := p'])" using tx_next_counter [OF n] by (intro exclusive_update ex(2) t) auto
  moreover have "others_free tx_id ?ps t (next_like_id ?d)"
  proof -
    have "tx_ok ?d q \<Longrightarrow> tx_id q \<noteq> Some (next_like_id ?d)" for q by (cases q) (auto simp: fresh_id_def)
    with ok show ?thesis unfolding others_free_def by blast
  qed
  then have "exclusive tx_id (?ps[t := p'])" using tx_next_id [OF n] by (intro exclusive_update ex(3) t) blast
  ultimately show ?thesis using self s' by (simp add: tx_inv_def)
qed

lemma tx_move_inv:
  assumes "tx_inv s" "t < length (tx_conns s)" "tx_key p = None" "tx_counter p = None" "tx_id p = None"
  shows "tx_inv (tx_move t p s)"
proof -
  have "tx_ok d p" for d using assms(3-5) by (cases p) auto
  then have "tx_ok (tx_db s) q" if "q \<in> set ((tx_conns s)[t := p])" for q
    using assms(1) set_update_subset_insert [of "tx_conns s" t p] that by (auto simp: tx_inv_def)
  then show ?thesis using assms by (simp add: tx_inv_def tx_move_def exclusive_idle)
qed

lemma tx_failed_free [simp]: "tx_key (tx_failed p) = None" "tx_counter (tx_failed p) = None" "tx_id (tx_failed p) = None"
  by (simp_all add: tx_failed_def case_prod_unfold)

lemma tx_advance_length: "tx_advance t s = Some s' \<Longrightarrow> t < length (tx_conns s) \<and> length (tx_conns s') = length (tx_conns s)"
  by (auto simp: tx_advance_def split: if_splits option.splits prod.splits)

lemma tx_take_inv: "tx_inv (tx_take t p s) \<longleftrightarrow> tx_inv (tx_move t p s)"
  by (simp add: tx_inv_def tx_take_def)

lemma tx_act_inv: "tx_inv s \<Longrightarrow> tx_act a s = Some s' \<Longrightarrow> tx_inv s'"
  using tx_advance_length [of _ s]
  by (cases a) (auto simp: tx_take_inv intro!: tx_move_inv intro: tx_advance_inv split: if_splits)

lemma tx_reach_inv: "tx_reach n d s \<Longrightarrow> db_inv d \<Longrightarrow> tx_inv s"
proof (induction rule: tx_reach.induct)
  case tx_init
  then show ?case by (simp add: tx_inv_def tx_start_def exclusive_def)
qed (blast intro: tx_act_inv)


section \<open>The serial run\<close>

text \<open>The commits, oldest last, as the transactions of \<open>Tables\<close> run one after the other, each like with the
  identifier it drew.\<close>

fun replay :: "db \<Rightarrow> commit list \<Rightarrow> db" where
  "replay d [] = d"
| "replay d (CommitLike r n # ks) =
     snd (tx_insert (lk_user r) (like_content r) (lk_created r) ((replay d ks)\<lparr>next_like_id := lk_id r\<rparr>))"
| "replay d (CommitUnlike u c n # ks) = snd (tx_delete u c (replay d ks))"

fun replay_ok :: "db \<Rightarrow> commit list \<Rightarrow> bool" where
  "replay_ok d [] \<longleftrightarrow> True"
| "replay_ok d (CommitLike r n # ks) \<longleftrightarrow> replay_ok d ks
     \<and> fst (tx_insert (lk_user r) (like_content r) (lk_created r) ((replay d ks)\<lparr>next_like_id := lk_id r\<rparr>)) = Some (r, n)"
| "replay_ok d (CommitUnlike u c n # ks) \<longleftrightarrow> replay_ok d ks \<and> fst (tx_delete u c (replay d ks)) = (1, Some n)"

definition same_tables :: "db \<Rightarrow> db \<Rightarrow> bool" where
  "same_tables d e \<longleftrightarrow> likes d = likes e \<and> like_counts d = like_counts e"

lemma same_tables_reads:
  "same_tables d e \<Longrightarrow> sql_find_like u c d = sql_find_like u c e"
  "same_tables d e \<Longrightarrow> sql_count c d = sql_count c e"
  "same_tables d e \<Longrightarrow> liked u c d = liked u c e"
  by (simp_all add: same_tables_def sql_find_like_def sql_count_def liked_def)

lemma same_tables_delete:
  assumes "same_tables d e"
  shows "fst (tx_delete u c d) = fst (tx_delete u c e) \<and> same_tables (snd (tx_delete u c d)) (snd (tx_delete u c e))"
  using assms by (auto simp: same_tables_def tx_delete_def sql_delete_like_def sql_decrement_count_def Let_def
      split: option.splits)

lemma replay_like:
  assumes "same_tables d e" "tx_ok d (LikeCounted r n)"
  shows "let x = tx_insert (lk_user r) (like_content r) (lk_created r) (e\<lparr>next_like_id := lk_id r\<rparr>) in
    fst x = Some (r, n) \<and> same_tables (apply_commit (CommitLike r n) d) (snd x)"
proof -
  have "\<not> liked (lk_user r) (like_content r) (e\<lparr>next_like_id := lk_id r\<rparr>)"
    using assms same_tables_reads(3) [OF assms(1)] by (simp add: liked_iff)
  moreover have "n = sql_count (like_content r) e + 1" using assms same_tables_reads(2) [OF assms(1)] by simp
  moreover have "r = \<lparr>lk_id = lk_id r, lk_user = lk_user r, lk_type = fst (like_content r),
      lk_content = snd (like_content r), lk_created = lk_created r\<rparr>" by (simp add: like_content_def)
  ultimately show ?thesis using assms(1) by (simp add: tx_insert_cases Let_def same_tables_def)
qed

text \<open>A state between two commits, none of them earlier than the \<open>m\<close>th.\<close>

definition seen :: "db \<Rightarrow> nat \<Rightarrow> commit list \<Rightarrow> (db \<Rightarrow> bool) \<Rightarrow> bool" where
  "seen d m ks P \<longleftrightarrow> (\<exists>older. suffix older ks \<and> m \<le> length older \<and> P (replay d older))"

lemma seen_now: "m \<le> length ks \<Longrightarrow> P (replay d ks) \<Longrightarrow> seen d m ks P"
  by (auto simp: seen_def)

lemma seen_later: "seen d m ks P \<Longrightarrow> seen d m (k # ks) P"
  by (auto simp: seen_def intro: suffix_ConsI)

text \<open>What an answer says of the serial run. A successful write is one of the commits made since the request was
  taken; what was read is true of a state since then.\<close>

fun answer_ok :: "db \<Rightarrow> nat \<Rightarrow> commit list \<Rightarrow> uuid \<Rightarrow> content_key \<Rightarrow> tx_answer \<Rightarrow> bool" where
  "answer_ok d m ks u c (LikeAnswer (Inserted row n)) \<longleftrightarrow>
     (\<exists>r. row = row_of r \<and> like_key r = (u, c) \<and> CommitLike r n \<in> set (take (length ks - m) ks))"
| "answer_ok d m ks u c (LikeAnswer (AlreadyExisted row n)) \<longleftrightarrow>
     seen d m ks (\<lambda>e. map_option row_of (sql_find_like u c e) = Some row \<and> sql_count c e = n)"
| "answer_ok d m ks u c (LikeAnswer (ConcurrentlyRemoved n)) \<longleftrightarrow>
     seen d m ks (liked u c) \<and> seen d m ks (\<lambda>e. \<not> liked u c e) \<and> seen d m ks (\<lambda>e. sql_count c e = n)"
| "answer_ok d m ks u c (UnlikeAnswer r) \<longleftrightarrow>
     (if was_liked r then CommitUnlike u c (dl_count r) \<in> set (take (length ks - m) ks)
      else seen d m ks (\<lambda>e. \<not> liked u c e) \<and> seen d m ks (\<lambda>e. sql_count c e = dl_count r))"
| "answer_ok d m ks u c TxFailed \<longleftrightarrow> True"

fun tx_said :: "db \<Rightarrow> nat \<Rightarrow> commit list \<Rightarrow> tx \<Rightarrow> bool" where
  "tx_said d m ks (LikeConflict u c) \<longleftrightarrow> seen d m ks (liked u c)"
| "tx_said d m ks (LikeExisting u c None) \<longleftrightarrow> seen d m ks (liked u c) \<and> seen d m ks (\<lambda>e. \<not> liked u c e)"
| "tx_said d m ks (LikeExisting u c (Some (r, n))) \<longleftrightarrow>
     seen d m ks (\<lambda>e. sql_find_like u c e = Some r \<and> sql_count c e = n)"
| "tx_said d m ks (LikeRemoved u c) \<longleftrightarrow> seen d m ks (liked u c) \<and> seen d m ks (\<lambda>e. \<not> liked u c e)"
| "tx_said d m ks (UnlikeWaits u c i) \<longleftrightarrow>
     map_option lk_id (sql_find_like u c (replay d ks)) = Some i \<or> seen d m ks (\<lambda>e. \<not> liked u c e)"
| "tx_said d m ks (UnlikeAbsent u c) \<longleftrightarrow> seen d m ks (\<lambda>e. \<not> liked u c e)"
| "tx_said d m ks (UnlikeRead u c n) \<longleftrightarrow> seen d m ks (\<lambda>e. \<not> liked u c e) \<and> seen d m ks (\<lambda>e. sql_count c e = n)"
| "tx_said d m ks (TxDone u c a) \<longleftrightarrow> answer_ok d m ks u c a"
| "tx_said d m ks _ \<longleftrightarrow> True"

lemma take_later: "m \<le> length ks \<Longrightarrow> x \<in> set (take (length ks - m) ks) \<Longrightarrow> x \<in> set (take (length (k # ks) - m) (k # ks))"
  by (simp add: Suc_diff_le)

lemma answer_later:
  assumes "m \<le> length ks" "answer_ok d m ks u c a"
  shows "answer_ok d m (k # ks) u c a"
proof (cases a)
  case (LikeAnswer r)
  then show ?thesis using assms take_later [OF assms(1)] seen_later by (cases r) (auto simp del: take_Cons length_Cons)
next
  case (UnlikeAnswer r)
  then show ?thesis
    using assms take_later [OF assms(1)] seen_later by (auto simp del: take_Cons length_Cons split: if_splits)
qed simp

lemma find_replay:
  "sql_find_like u c (replay d ks) = Some r \<Longrightarrow>
     sql_find_like u c (replay d (k # ks)) = Some r \<or> \<not> liked u c (replay d (k # ks))"
proof (cases k)
  case (CommitLike s n)
  assume "sql_find_like u c (replay d ks) = Some r"
  moreover have "find P (xs @ ys) = Some x" if "find P xs = Some x" for P xs ys and x :: like
    using that by (induction xs) (auto split: if_splits)
  ultimately show ?thesis using CommitLike by (simp add: tx_insert_cases sql_find_like_def Let_def)
next
  case (CommitUnlike v b n)
  assume found: "sql_find_like u c (replay d ks) = Some r"
  have rows: "likes (replay d (k # ks)) = filter (\<lambda>r. like_key r \<noteq> (v, b)) (likes (replay d ks))"
    using CommitUnlike by (simp add: tx_delete_def sql_delete_like_def sql_decrement_count_def Let_def split: option.split)
  show ?thesis
  proof (cases "(u, c) = (v, b)")
    case True
    then show ?thesis using rows by (auto simp: liked_iff)
  next
    case False
    have "find P (filter Q xs) = find P xs" if "\<And>x. P x \<Longrightarrow> Q x" for P Q and xs :: "like list"
      using that by (induction xs) auto
    from this [of "\<lambda>r. like_key r = (u, c)" "\<lambda>r. like_key r \<noteq> (v, b)" "likes (replay d ks)"]
    have "sql_find_like u c (replay d (k # ks)) = sql_find_like u c (replay d ks)"
      using False rows by (auto simp: sql_find_like_def)
    then show ?thesis using found by simp
  qed
qed

lemma tx_said_later:
  assumes "m \<le> length ks" "tx_said d m ks p"
  shows "tx_said d m (k # ks) p"
proof (cases "\<exists>u c i. p = UnlikeWaits u c i")
  case True
  then obtain u c i where p: "p = UnlikeWaits u c i" by blast
  consider r where "sql_find_like u c (replay d ks) = Some r" "lk_id r = i" | "seen d m ks (\<lambda>e. \<not> liked u c e)"
    using assms(2) p by auto
  then show ?thesis
  proof cases
    case 1
    then show ?thesis
      using find_replay [OF 1(1), of k] seen_now [of m "k # ks" "\<lambda>e. \<not> liked u c e" d] assms(1) p by auto
  next
    case 2
    then show ?thesis using seen_later p by simp
  qed
next
  case False
  with assms show ?thesis
    by (induction d m ks p rule: tx_said.induct) (auto intro: seen_later answer_later)
qed

lemma tx_next_serial:
  assumes inv: "db_inv d" "tx_ok d p" and same: "same_tables d (replay d0 ks)" and m: "m \<le> length ks"
    and said: "tx_said d0 m ks p" and n: "tx_next kf cf d p = Some (p', d', k)"
  shows "case k of
      None \<Rightarrow> same_tables d' (replay d0 ks) \<and> tx_said d0 m ks p'
    | Some k \<Rightarrow> same_tables d' (replay d0 (k # ks)) \<and> tx_said d0 m (k # ks) p'
        \<and> (replay_ok d0 ks \<longrightarrow> replay_ok d0 (k # ks))"
proof -
  note now = seen_now [OF m, of _ d0] and reads = same_tables_reads [OF same]
  have burn: "same_tables (burn_seq d) (replay d0 ks)" using same by (simp add: same_tables_def burn_seq_def)
  show ?thesis
  proof (cases p)
    case (LikeBegun u c t)
    then show ?thesis using n burn by (auto split: if_splits)
  next
    case (LikeDrawn u c t i)
    then show ?thesis using n same now reads by (auto simp: insert_finds Let_def split: if_splits)
  next
    case (LikeInserted r)
    then show ?thesis using n same by (auto split: if_splits)
  next
    case (LikeCounted r j)
    have "CommitLike r j \<in> set (take (length (CommitLike r j # ks) - m) (CommitLike r j # ks))"
      using m by (simp add: Suc_diff_le)
    moreover have ok: "tx_ok d (LikeCounted r j)" using inv LikeCounted by simp
    ultimately show ?thesis using LikeCounted n replay_like [OF same ok]
      by (auto simp: Let_def simp del: apply_commit.simps take_Cons length_Cons tx_ok.simps)
  next
    case (LikeConflict u c)
    show ?thesis
    proof (cases "sql_find_like u c d")
      case None
      then have "seen d0 m ks (\<lambda>e. \<not> liked u c e)" using now [of "\<lambda>e. \<not> liked u c e"] reads by (simp add: liked_def)
      then show ?thesis using None LikeConflict n same said by auto
    next
      case (Some r)
      then show ?thesis using LikeConflict n same now reads by auto
    qed
  next
    case (LikeExisting u c x)
    then show ?thesis using n same said by (auto simp: seen_def split: option.splits) blast
  next
    case (LikeRemoved u c)
    then show ?thesis using n same now reads said by auto
  next
    case (UnlikeBegun u c)
    then show ?thesis using n same now reads by (auto simp: liked_def split: if_splits option.splits)
  next
    case (UnlikeWaits u c i)
    then show ?thesis using n same said reads by (auto split: if_splits)
  next
    case (UnlikeDeleted u c)
    then show ?thesis using n same by (auto split: if_splits)
  next
    case (UnlikeCounted u c x)
    let ?k = "CommitUnlike u c (sql_count c d - 1)"
    have l: "liked u c d" "x = Some (sql_count c d - 1)" using inv UnlikeCounted by auto
    have "?k \<in> set (take (length (?k # ks) - m) (?k # ks))" using m by (simp add: Suc_diff_le)
    moreover have "fst (tx_delete u c (replay d0 ks)) = (1, Some (sql_count c d - 1))"
      using tx_delete_liked [OF inv(1) l(1)] same_tables_delete [OF same, of u c] by simp
    ultimately show ?thesis
      using UnlikeCounted n l same_tables_delete [OF same, of u c] apply_unliked [OF inv(1) l(1)]
      by (auto simp: Let_def simp del: apply_commit.simps take_Cons length_Cons)
  next
    case (UnlikeAbsent u c)
    then show ?thesis using n same now reads said by auto
  next
    case (UnlikeRead u c x)
    then show ?thesis using n same said by auto
  qed (use n in simp_all)
qed

definition serial_inv :: "db \<Rightarrow> tx_state \<Rightarrow> bool" where
  "serial_inv d s \<longleftrightarrow> same_tables (tx_db s) (replay d (tx_commits s)) \<and> replay_ok d (tx_commits s)
     \<and> length (tx_since s) = length (tx_conns s)
     \<and> (\<forall>t < length (tx_conns s). tx_since s ! t \<le> length (tx_commits s)
          \<and> tx_said d (tx_since s ! t) (tx_commits s) (tx_conns s ! t))"

lemma serial_advance:
  assumes inv: "tx_inv s" and ser: "serial_inv d0 s" and run: "tx_advance t s = Some s'"
  shows "serial_inv d0 s'"
proof -
  let ?ps = "tx_conns s" and ?d = "tx_db s" and ?ks = "tx_commits s" and ?m = "\<lambda>u. tx_since s ! u"
  obtain p' d' k where t: "t < length ?ps"
    and n: "tx_next (others_free tx_key ?ps t) (others_free tx_counter ?ps t) ?d (?ps ! t) = Some (p', d', k)"
    and s': "s' = s\<lparr>tx_db := d', tx_conns := ?ps[t := p'], tx_commits := (case k of None \<Rightarrow> ?ks | Some k \<Rightarrow> k # ?ks)\<rparr>"
    using run by (auto simp: tx_advance_def split: if_splits option.splits prod.splits)
  have ok: "db_inv ?d" "tx_ok ?d (?ps ! t)" using inv t by (auto simp: tx_inv_def)
  have same: "same_tables ?d (replay d0 ?ks)" and rok: "replay_ok d0 ?ks" and len: "length (tx_since s) = length ?ps"
    and m: "\<And>u. u < length ?ps \<Longrightarrow> ?m u \<le> length ?ks" and said: "\<And>u. u < length ?ps \<Longrightarrow> tx_said d0 (?m u) ?ks (?ps ! u)"
    using ser by (auto simp: serial_inv_def)
  note step = tx_next_serial [OF ok same m [OF t] said [OF t] n]
  show ?thesis
  proof (cases k)
    case None
    have "tx_said d0 (?m u) ?ks (?ps[t := p'] ! u)" if "u < length ?ps" for u
      using said [OF that] step None that by (cases "u = t") simp_all
    then show ?thesis using step None rok len m by (simp add: serial_inv_def s')
  next
    case (Some c)
    have "tx_said d0 (?m u) (c # ?ks) (?ps[t := p'] ! u)" if "u < length ?ps" for u
      using tx_said_later [OF m [OF that] said [OF that]] step Some that by (cases "u = t") simp_all
    moreover have "same_tables d' (replay d0 (c # ?ks))" "replay_ok d0 (c # ?ks)" using step Some rok by auto
    ultimately show ?thesis using Some len m by (simp add: serial_inv_def s' le_SucI)
  qed
qed

lemma nth_update_inside: "u < length xs \<Longrightarrow> xs[t := x] ! u = (if u = t then x else xs ! u)"
  by (cases "u = t") simp_all

lemma serial_move:
  assumes "serial_inv d0 s" "\<And>m. tx_said d0 m (tx_commits s) p"
  shows "serial_inv d0 (tx_move t p s)" "serial_inv d0 (tx_take t p s)"
  using assms by (auto simp: serial_inv_def tx_move_def tx_take_def nth_update_inside)

lemma tx_failed_said: "tx_said d m ks (tx_failed p)"
  by (simp add: tx_failed_def case_prod_unfold)

lemma serial_act:
  assumes "tx_inv s" "serial_inv d0 s" "tx_act a s = Some s'"
  shows "serial_inv d0 s'"
  using assms serial_advance [OF assms(1,2)]
  by (cases a) (auto intro!: serial_move tx_failed_said split: if_splits)

lemma tx_reach_serial: "tx_reach n d s \<Longrightarrow> db_inv d \<Longrightarrow> serial_inv d s"
proof (induction rule: tx_reach.induct)
  case tx_init
  then show ?case by (simp add: serial_inv_def tx_start_def same_tables_def)
next
  case (tx_more s a s')
  then show ?case using serial_act [OF tx_reach_inv [OF tx_more.hyps(1)]] by blast
qed


fun tx_run :: "tx_action list \<Rightarrow> tx_state \<Rightarrow> tx_state option" where
  "tx_run [] s = Some s"
| "tx_run (a # as) s = (case tx_act a s of None \<Rightarrow> None | Some s' \<Rightarrow> tx_run as s')"

lemma tx_run_reach: "tx_run as s = Some s' \<Longrightarrow> tx_reach n d s \<Longrightarrow> tx_reach n d s'"
  by (induction as arbitrary: s) (auto intro: tx_more split: option.splits)

text \<open>C2. The concurrent write transactions serialise. However the statements of any number of connections
  interleave, with statements failing, transactions rolled back and acknowledgements lost, the committed tables
  keep the counter invariant and are those of the transactions of \<open>Tables\<close> run one at a time in commit order,
  each with the row and the count that it committed. A like or an unlike that reports a change is one of the
  commits made after its request was taken; an answer that changed nothing reports the row, the absence and the
  count of a state between two commits that was current while it ran.\<close>

theorem transactions_serialise:
  assumes "db_inv d" "tx_reach n d s"
  shows "db_inv (tx_db s) \<and> same_tables (tx_db s) (replay d (tx_commits s)) \<and> replay_ok d (tx_commits s)
    \<and> (\<forall>t < length (tx_conns s). \<forall>u c a.
         tx_conns s ! t = TxDone u c a \<longrightarrow> answer_ok d (tx_since s ! t) (tx_commits s) u c a)"
proof -
  have "answer_ok d (tx_since s ! t) (tx_commits s) u c a" if "t < length (tx_conns s)" "tx_conns s ! t = TxDone u c a"
    for t u c a
    using tx_reach_serial [OF assms(2,1)] that by (auto simp: serial_inv_def)
  then show ?thesis using tx_reach_inv [OF assms(2,1)] tx_reach_serial [OF assms(2,1)]
    unfolding tx_inv_def serial_inv_def by blast
qed

text \<open>The race the follow-up \<open>SELECT\<close> of \<open>insert_like\<close> is exposed to: the second like of connection 0 meets the
  row, connection 1 removes it, and the first \<open>SELECT\<close> of connection 0 no longer sees it.\<close>

definition race_schedule :: "tx_action list" where
  "race_schedule =
     [TxLike 0 1 (''post'', 7) 5, TxStep 0, TxStep 0, TxStep 0, TxStep 0,
      TxLike 0 1 (''post'', 7) 6, TxStep 0, TxStep 0,
      TxUnlike 1 1 (''post'', 7), TxStep 1, TxStep 1, TxStep 1,
      TxStep 0, TxStep 0, TxStep 0]"

definition race_state :: tx_state where
  "race_state = the (tx_run race_schedule (tx_start 2 db_empty))"

lemmas tx_eval = tx_start_def tx_take_def tx_move_def tx_advance_def tx_open_def others_free_def All_less_Suc
  sql_insert_like_def liked_def sql_find_like_def sql_count_def sql_upsert_count_def sql_delete_like_def
  sql_decrement_count_def like_content_def burn_seq_def varchar50_ok_def byte_in_def db_empty_def row_of_def
  eval_nat_numeral Let_def

lemma race_run:
  "tx_run race_schedule (tx_start 2 db_empty) = Some
     \<lparr>tx_db = \<lparr>likes = [], like_counts = [((''post'', 7), 0)], next_like_id = 3\<rparr>,
      tx_conns = [TxDone 1 (''post'', 7) (LikeAnswer (ConcurrentlyRemoved 0)),
                  TxDone 1 (''post'', 7) (UnlikeAnswer \<lparr>was_liked = True, dl_count = 0\<rparr>)],
      tx_commits = [CommitUnlike 1 (''post'', 7) 0,
                    CommitLike \<lparr>lk_id = 1, lk_user = 1, lk_type = ''post'', lk_content = 7, lk_created = 5\<rparr> 1],
      tx_since = [1, 1]\<rparr>"
  by (simp add: race_schedule_def tx_eval)

lemmas race_at = race_run [THEN arg_cong [of _ _ the], folded race_state_def, unfolded option.sel]

theorem transactions_serialise_witness:
  "answer_ok db_empty 1 (tx_commits race_state) 1 (''post'', 7) (LikeAnswer (ConcurrentlyRemoved 0))
   \<and> length (tx_commits race_state) = 2"
proof -
  have reach: "tx_reach 2 db_empty race_state"
    using tx_run_reach [OF race_run tx_init] by (simp add: race_at)
  have "0 < length (tx_conns race_state)" "tx_since race_state ! 0 = 1" "length (tx_commits race_state) = 2"
    "tx_conns race_state ! 0 = TxDone 1 (''post'', 7) (LikeAnswer (ConcurrentlyRemoved 0))"
    by (simp_all add: race_at)
  then show ?thesis using transactions_serialise [OF db_inv_empty reach] by metis
qed

section \<open>Progress\<close>

text \<open>The statements and commits a transaction has left at most.\<close>

fun tx_left :: "tx \<Rightarrow> nat" where
  "tx_left (LikeBegun u c now) = 5"
| "tx_left (LikeDrawn u c now i) = 4"
| "tx_left (LikeConflict u c) = 3"
| "tx_left (LikeInserted r) = 2"
| "tx_left (LikeExisting u c e) = 2"
| "tx_left (LikeCounted r n) = 1"
| "tx_left (LikeRemoved u c) = 1"
| "tx_left (UnlikeBegun u c) = 4"
| "tx_left (UnlikeWaits u c i) = 3"
| "tx_left (UnlikeDeleted u c) = 2"
| "tx_left (UnlikeAbsent u c) = 2"
| "tx_left (UnlikeCounted u c m) = 1"
| "tx_left (UnlikeRead u c n) = 1"
| "tx_left _ = 0"

lemma tx_left_open: "tx_open p \<longleftrightarrow> 0 < tx_left p"
  by (cases p) (simp_all add: tx_open_def)

lemma tx_left_le: "tx_left p \<le> 5"
  by (cases p) simp_all

lemma tx_next_left: "tx_next kf cf d p = Some (p', d', k) \<Longrightarrow> tx_left p' < tx_left p"
  by (cases p) (auto simp: insert_finds Let_def split: if_splits option.splits)

text \<open>Who waits for whom: a transaction waits for a counter only while it holds no counter, and for a key only
  while it holds nothing, so the waiting has no cycle.\<close>

lemma tx_next_ready:
  "tx_counter p \<noteq> None \<Longrightarrow> tx_next kf cf d p \<noteq> None"
  "tx_key p \<noteq> None \<Longrightarrow> (\<forall>c. cf c) \<Longrightarrow> tx_next kf cf d p \<noteq> None"
proof -
  show "tx_counter p \<noteq> None \<Longrightarrow> tx_next kf cf d p \<noteq> None" by (cases p) (simp_all add: Let_def)
  show "tx_key p \<noteq> None \<Longrightarrow> (\<forall>c. cf c) \<Longrightarrow> tx_next kf cf d p \<noteq> None"
    by (cases p) (simp_all add: Let_def del: split_paired_All)
qed

lemma tx_next_open:
  assumes "tx_open p" and free: "\<And>x. kf x" "\<And>c. cf c"
  shows "tx_next kf cf d p \<noteq> None"
proof (cases p)
  case (LikeDrawn u c now i)
  then show ?thesis by (simp add: free insert_finds Let_def)
qed (use assms(1) in \<open>simp_all add: free tx_open_def Let_def split: option.split\<close>)

lemma tx_advance_ready:
  assumes "\<exists>p \<in> set (tx_conns s). tx_open p"
  shows "\<exists>t. tx_advance t s \<noteq> None"
proof -
  let ?ps = "tx_conns s"
  have go: "tx_advance t s \<noteq> None" if "t < length ?ps"
    "tx_next (others_free tx_key ?ps t) (others_free tx_counter ?ps t) (tx_db s) (?ps ! t) \<noteq> None" for t
    using that by (auto simp: tx_advance_def)
  obtain t where t: "t < length ?ps" "tx_open (?ps ! t)" using assms by (auto simp: in_set_conv_nth)
  show ?thesis
  proof (cases "\<exists>u < length ?ps. tx_counter (?ps ! u) \<noteq> None")
    case True
    then show ?thesis using go tx_next_ready(1) by blast
  next
    case False
    then have c: "\<forall>k. others_free tx_counter ?ps u k" for u by (simp add: others_free_def)
    show ?thesis
    proof (cases "\<exists>u < length ?ps. tx_key (?ps ! u) \<noteq> None")
      case True
      then show ?thesis using go tx_next_ready(2) [OF _ c] by blast
    next
      case False
      then have "\<forall>k. others_free tx_key ?ps t k" by (simp add: others_free_def del: split_paired_All not_None_eq)
      then show ?thesis using go [OF t(1)] tx_next_open [OF t(2)] c by blast
    qed
  qed
qed

definition tx_work :: "tx_state \<Rightarrow> nat" where
  "tx_work s = sum_list (map tx_left (tx_conns s))"

lemma tx_advance_work:
  assumes "tx_advance t s = Some s'"
  shows "tx_work s' < tx_work s"
proof -
  obtain p' d' k where t: "t < length (tx_conns s)" and ps: "tx_conns s' = (tx_conns s)[t := p']"
    and n: "tx_next (others_free tx_key (tx_conns s) t) (others_free tx_counter (tx_conns s) t) (tx_db s) (tx_conns s ! t)
      = Some (p', d', k)"
    using assms by (auto simp: tx_advance_def split: if_splits option.splits prod.splits)
  have "tx_left (tx_conns s ! t) \<le> tx_work s" using t by (auto simp: tx_work_def intro: member_le_sum_list)
  then show ?thesis using t tx_next_left [OF n] by (simp add: tx_work_def ps map_update sum_list_update)
qed

lemma tx_work_le: "tx_work s \<le> 5 * length (tx_conns s)"
  using sum_list_mono [of "tx_conns s" tx_left "\<lambda>_. 5"] tx_left_le by (simp add: tx_work_def sum_list_triv)

lemma tx_steps_work: "tx_run (map TxStep ts) s = Some s' \<Longrightarrow> length ts + tx_work s' \<le> tx_work s"
proof (induction ts arbitrary: s)
  case (Cons t ts)
  then obtain s1 where "tx_advance t s = Some s1" "tx_run (map TxStep ts) s1 = Some s'" by (auto split: option.splits)
  then show ?case using Cons.IH [of s1] tx_advance_work [of t s s1] by simp
qed simp

text \<open>C12. The write transactions cannot deadlock, and they end: from any state, as long as a transaction is open
  some connection can send its next statement, and after at most five statements and commits per connection
  none is open. A waiting transaction waits for a row some other will release, since every transaction writes its
  row of \<open>likes\<close> before its row of \<open>like_counts\<close> and commits next.\<close>

theorem transactions_progress:
  assumes "tx_run (map TxStep ts) s = Some s'"
  shows "length ts \<le> 5 * length (tx_conns s)
    \<and> ((\<exists>t. tx_act (TxStep t) s' \<noteq> None) = (\<exists>p \<in> set (tx_conns s'). tx_open p))"
proof -
  have "\<exists>p \<in> set (tx_conns s'). tx_open p" if a: "tx_advance t s' \<noteq> None" for t
  proof -
    let ?p = "tx_conns s' ! t"
    have "t < length (tx_conns s')" "0 < tx_left ?p"
      using a by (auto simp: tx_advance_def dest: tx_next_left split: if_splits option.splits)
    then show ?thesis using tx_left_open nth_mem by blast
  qed
  then show ?thesis using tx_steps_work [OF assms] tx_work_le [of s] tx_advance_ready [of s'] by auto
qed

definition begun_state :: tx_state where
  "begun_state = the (tx_run [TxLike 0 1 (''post'', 7) 5, TxUnlike 1 1 (''post'', 7)] (tx_start 2 db_empty))"

theorem transactions_progress_witness:
  "\<exists>s'. tx_run (map TxStep [0, 0, 0, 1, 0, 1, 1]) begun_state = Some s' \<and> (\<forall>t. tx_act (TxStep t) s' = None)"
proof -
  obtain s' where run: "tx_run (map TxStep [0, 0, 0, 1, 0, 1, 1]) begun_state = Some s'"
    and finished: "\<forall>p \<in> set (tx_conns s'). \<not> tx_open p"
    by (simp add: begun_state_def tx_eval)
  then show ?thesis using transactions_progress [OF run] by blast
qed

end
