(* ===== verification/Write_Through.thy ===== *)
theory Write_Through
  imports Transactions
begin

text \<open>
  What \<open>services/like_commands.rs\<close> does after a transaction, with any number of requests at once: it writes the
  count and the status to the cache and publishes an event, each as a step of its own and in no order with the
  other requests; \<open>services/like_count_cache.rs\<close> and \<open>like_queries.rs\<close> fill the cache on a miss the same way.
  The cache is one map from which entries may vanish. Properties: every cached value was true between two
  commits, every event announces a commit; but which value stays is a matter of luck, until it expires.
\<close>

section \<open>Steps after the commit\<close>

datatype cache_write =
    PutCount content_key int
  | PutStatus uuid content_key bool
  | Announce uuid content_key bool int

text \<open>What the handlers of the two results do, in their order.\<close>

fun answer_writes :: "uuid \<Rightarrow> content_key \<Rightarrow> tx_answer \<Rightarrow> cache_write list" where
  "answer_writes u c (LikeAnswer (Inserted row n)) = [PutCount c n, PutStatus u c True, Announce u c True n]"
| "answer_writes u c (LikeAnswer (AlreadyExisted row n)) = [PutCount c n, PutStatus u c True]"
| "answer_writes u c (LikeAnswer (ConcurrentlyRemoved n)) = []"
| "answer_writes u c (UnlikeAnswer r) =
     [PutCount c (dl_count r), PutStatus u c False] @ (if was_liked r then [Announce u c False (dl_count r)] else [])"
| "answer_writes u c TxFailed = []"

text \<open>The transactions, what each request still has to do, the cached counts and statuses, and the events
  published so far, the last one first.\<close>

record wt_state =
  wt_tx :: tx_state
  wt_due :: "cache_write list list"
  wt_counts :: "content_key \<Rightarrow> int option"
  wt_status :: "uuid \<times> content_key \<Rightarrow> bool option"
  wt_events :: "(uuid \<times> content_key \<times> bool \<times> int) list"

definition wt_start :: "nat \<Rightarrow> db \<Rightarrow> wt_state" where
  "wt_start n d = \<lparr>wt_tx = tx_start n d, wt_due = [], wt_counts = (\<lambda>_. None), wt_status = (\<lambda>_. None), wt_events = []\<rparr>"

fun put :: "cache_write \<Rightarrow> wt_state \<Rightarrow> wt_state" where
  "put (PutCount c n) s = s\<lparr>wt_counts := (wt_counts s)(c \<mapsto> n)\<rparr>"
| "put (PutStatus u c b) s = s\<lparr>wt_status := (wt_status s)((u, c) \<mapsto> b)\<rparr>"
| "put (Announce u c b n) s = s\<lparr>wt_events := (u, c, b, n) # wt_events s\<rparr>"

lemma put_tx [simp]: "wt_tx (put p s) = wt_tx s"
  by (cases p) simp_all

definition owe :: "cache_write list \<Rightarrow> wt_state \<Rightarrow> wt_state" where
  "owe ws s = (if ws = [] then s else s\<lparr>wt_due := wt_due s @ [ws]\<rparr>)"

text \<open>What the step of a transaction leaves to do: the writes of its answer, if it was the last step.\<close>

fun answered_by :: "tx_action \<Rightarrow> tx_state \<Rightarrow> cache_write list" where
  "answered_by (TxStep t) s = (case tx_conns s ! t of TxDone u c a \<Rightarrow> answer_writes u c a | _ \<Rightarrow> [])"
| "answered_by _ s = []"

text \<open>A transaction moves; a request does its next write, or is dropped because its client went away; a reader
  misses a count or a status, reads the committed one and will cache it; an entry expires.\<close>

datatype wt_action =
    WtTx tx_action
  | WtPut nat
  | WtDrop nat
  | WtReadCount content_key
  | WtReadStatus uuid content_key
  | WtExpireCount content_key
  | WtExpireStatus uuid content_key

fun wt_act :: "wt_action \<Rightarrow> wt_state \<Rightarrow> wt_state option" where
  "wt_act (WtTx a) s =
     (case tx_act a (wt_tx s) of
        None \<Rightarrow> None
      | Some x \<Rightarrow> Some (owe (answered_by a x) (s\<lparr>wt_tx := x\<rparr>)))"
| "wt_act (WtPut i) s =
     (if i < length (wt_due s)
      then (case wt_due s ! i of
          [] \<Rightarrow> None
        | p # ps \<Rightarrow> Some (put p (s\<lparr>wt_due := (wt_due s)[i := ps]\<rparr>)))
      else None)"
| "wt_act (WtDrop i) s = Some (s\<lparr>wt_due := (wt_due s)[i := []]\<rparr>)"
| "wt_act (WtReadCount c) s =
     (if wt_counts s c = None then Some (owe [PutCount c (sql_count c (tx_db (wt_tx s)))] s) else None)"
| "wt_act (WtReadStatus u c) s =
     (if wt_status s (u, c) = None then Some (owe [PutStatus u c (liked u c (tx_db (wt_tx s)))] s) else None)"
| "wt_act (WtExpireCount c) s = Some (s\<lparr>wt_counts := (wt_counts s)(c := None)\<rparr>)"
| "wt_act (WtExpireStatus u c) s = Some (s\<lparr>wt_status := (wt_status s)((u, c) := None)\<rparr>)"

inductive wt_reach :: "nat \<Rightarrow> db \<Rightarrow> wt_state \<Rightarrow> bool" for n d where
  wt_init: "wt_reach n d (wt_start n d)"
| wt_more: "wt_reach n d s \<Longrightarrow> wt_act a s = Some s' \<Longrightarrow> wt_reach n d s'"

fun wt_run :: "wt_action list \<Rightarrow> wt_state \<Rightarrow> wt_state option" where
  "wt_run [] s = Some s"
| "wt_run (a # as) s = (case wt_act a s of None \<Rightarrow> None | Some s' \<Rightarrow> wt_run as s')"

lemma wt_run_reach: "wt_run as s = Some s' \<Longrightarrow> wt_reach n d s \<Longrightarrow> wt_reach n d s'"
  by (induction as arbitrary: s) (auto intro: wt_more split: option.splits)

section \<open>What was committed\<close>

lemma replay_ok_suffix: "replay_ok d (xs @ ks) \<Longrightarrow> replay_ok d ks"
proof (induction xs)
  case (Cons k xs)
  then show ?case by (cases k) simp_all
qed simp

lemma committed_like:
  assumes "replay_ok d ks" "CommitLike r n \<in> set ks" "like_key r = (u, c)"
  shows "seen d 0 ks (\<lambda>e. sql_count c e = n) \<and> seen d 0 ks (liked u c)"
proof -
  obtain xs older where ks: "ks = xs @ CommitLike r n # older" using split_list [OF assms(2)] by blast
  let ?e = "replay d (CommitLike r n # older)"
  have "sql_count c ?e = n \<and> liked u c ?e"
    using replay_ok_suffix [of d xs "CommitLike r n # older"] assms(1,3) ks
    by (auto simp: tx_insert_cases Let_def sql_count_def update_conv liked_iff split: if_splits)
  moreover have "suffix (CommitLike r n # older) ks" using ks by (simp add: suffix_def)
  ultimately show ?thesis unfolding seen_def by blast
qed

lemma committed_unlike:
  assumes "replay_ok d ks" "CommitUnlike u c n \<in> set ks"
  shows "seen d 0 ks (\<lambda>e. sql_count c e = n) \<and> seen d 0 ks (\<lambda>e. \<not> liked u c e)"
proof -
  obtain xs older where ks: "ks = xs @ CommitUnlike u c n # older" using split_list [OF assms(2)] by blast
  let ?e = "replay d (CommitUnlike u c n # older)"
  have "fst (tx_delete u c (replay d older)) = (1, Some n)"
    using replay_ok_suffix [of d xs "CommitUnlike u c n # older"] assms(1) ks by simp
  then have "sql_count c ?e = n \<and> \<not> liked u c ?e"
    by (auto simp: tx_delete_def sql_delete_like_def sql_decrement_count_def Let_def sql_count_def update_conv liked_iff
        split: option.splits if_splits)
  moreover have "suffix (CommitUnlike u c n # older) ks" using ks by (simp add: suffix_def)
  ultimately show ?thesis unfolding seen_def by blast
qed

lemma seen_ever: "seen d m ks P \<Longrightarrow> seen d 0 ks P"
  by (auto simp: seen_def)

lemma seen_mono: "seen d m ks P \<Longrightarrow> (\<And>e. P e \<Longrightarrow> Q e) \<Longrightarrow> seen d m ks Q"
  by (auto simp: seen_def)

text \<open>A write puts what was true; an event tells of a commit.\<close>

fun write_ok :: "db \<Rightarrow> commit list \<Rightarrow> cache_write \<Rightarrow> bool" where
  "write_ok d ks (PutCount c n) \<longleftrightarrow> seen d 0 ks (\<lambda>e. sql_count c e = n)"
| "write_ok d ks (PutStatus u c b) \<longleftrightarrow> seen d 0 ks (\<lambda>e. liked u c e = b)"
| "write_ok d ks (Announce u c b n) \<longleftrightarrow>
     (if b then \<exists>r. CommitLike r n \<in> set ks \<and> like_key r = (u, c) else CommitUnlike u c n \<in> set ks)"

lemma write_ok_later: "write_ok d ks p \<Longrightarrow> write_ok d (k # ks) p"
  by (cases p) (auto intro: seen_later split: if_splits)

lemma answer_writes_ok:
  assumes "replay_ok d ks" "answer_ok d m ks u c a" "p \<in> set (answer_writes u c a)"
  shows "write_ok d ks p"
proof (cases a)
  case (LikeAnswer r)
  show ?thesis
  proof (cases r)
    case (Inserted row n)
    then obtain l where l: "like_key l = (u, c)" "CommitLike l n \<in> set ks"
      using assms(2) LikeAnswer by (auto dest: in_set_takeD)
    show ?thesis using committed_like [OF assms(1) l(2,1)] l assms(3) LikeAnswer Inserted by auto
  next
    case (AlreadyExisted row n)
    then have "seen d 0 ks (\<lambda>e. map_option row_of (sql_find_like u c e) = Some row \<and> sql_count c e = n)"
      using assms(2) LikeAnswer by (auto intro: seen_ever)
    then have "seen d 0 ks (\<lambda>e. sql_count c e = n)" "seen d 0 ks (\<lambda>e. liked u c e = True)"
      by (auto elim!: seen_mono simp: liked_def)
    then show ?thesis using assms(3) LikeAnswer AlreadyExisted by auto
  qed (use assms(3) LikeAnswer in auto)
next
  case (UnlikeAnswer r)
  show ?thesis
  proof (cases "was_liked r")
    case True
    then have k: "CommitUnlike u c (dl_count r) \<in> set ks" using assms(2) UnlikeAnswer by (auto dest: in_set_takeD)
    show ?thesis using committed_unlike [OF assms(1) k] k assms(3) UnlikeAnswer True by auto
  next
    case False
    then show ?thesis using assms(2,3) UnlikeAnswer seen_ever by auto
  qed
qed (use assms(3) in auto)

section \<open>What the cache holds\<close>

fun holds :: "wt_state \<Rightarrow> cache_write \<Rightarrow> bool" where
  "holds s (PutCount c n) \<longleftrightarrow> wt_counts s c = Some n"
| "holds s (PutStatus u c b) \<longleftrightarrow> wt_status s (u, c) = Some b"
| "holds s (Announce u c b n) \<longleftrightarrow> (u, c, b, n) \<in> set (wt_events s)"

text \<open>What the caches and the channel have got, or still will.\<close>

definition wt_has :: "wt_state \<Rightarrow> cache_write \<Rightarrow> bool" where
  "wt_has s p \<longleftrightarrow> holds s p \<or> p \<in> \<Union> (set ` set (wt_due s))"

lemma holds_tx [simp]: "holds (s\<lparr>wt_tx := x\<rparr>) p = holds s p" "holds (s\<lparr>wt_due := ws\<rparr>) p = holds s p"
  by (cases p; simp)+

lemma put_due [simp]: "wt_due (put p s) = wt_due s"
  by (cases p) simp_all

lemma wt_has_tx [simp]: "wt_has (s\<lparr>wt_tx := x\<rparr>) p = wt_has s p"
  by (simp add: wt_has_def)

lemma owe_tx [simp]: "wt_tx (owe ws s) = wt_tx s"
  by (simp add: owe_def)

lemma wt_has_owe: "wt_has (owe ws s) p \<longleftrightarrow> wt_has s p \<or> p \<in> set ws"
  by (auto simp: wt_has_def owe_def)

lemma wt_has_put: "wt_has (put p s) q \<Longrightarrow> wt_has s q \<or> q = p"
proof -
  have "holds (put p s) q \<Longrightarrow> holds s q \<or> q = p" by (cases p; cases q) (auto split: if_splits)
  then show "wt_has (put p s) q \<Longrightarrow> wt_has s q \<or> q = p" by (auto simp: wt_has_def)
qed

lemma wt_has_due:
  assumes "wt_has (s\<lparr>wt_due := (wt_due s)[i := ps]\<rparr>) q" "i < length (wt_due s) \<Longrightarrow> set ps \<subseteq> set (wt_due s ! i)"
  shows "wt_has s q"
proof (cases "i < length (wt_due s)")
  case True
  then have "ws \<in> set ((wt_due s)[i := ps]) \<Longrightarrow> q \<in> set ws \<Longrightarrow> \<exists>vs \<in> set (wt_due s). q \<in> set vs" for ws
    using assms(2) set_update_subset_insert [of "wt_due s" i ps] nth_mem [of i "wt_due s"] by blast
  then show ?thesis using assms(1) by (auto simp: wt_has_def)
next
  case False
  then have "(wt_due s)[i := ps] = wt_due s" by (simp add: list_update_beyond)
  then show ?thesis using assms(1) by simp
qed

definition wt_inv :: "db \<Rightarrow> wt_state \<Rightarrow> bool" where
  "wt_inv d s \<longleftrightarrow> (\<forall>p. wt_has s p \<longrightarrow> write_ok d (tx_commits (wt_tx s)) p)"

lemma tx_act_commits: "tx_act a s = Some s' \<Longrightarrow> tx_commits s' = tx_commits s \<or> (\<exists>k. tx_commits s' = k # tx_commits s)"
  by (cases a) (auto simp: tx_advance_def tx_move_def tx_take_def split: if_splits option.splits prod.splits)

lemma write_ok_act: "tx_act a s = Some s' \<Longrightarrow> write_ok d (tx_commits s) p \<Longrightarrow> write_ok d (tx_commits s') p"
  using tx_act_commits write_ok_later by metis

lemma answered_ok:
  assumes ser: "serial_inv d x" and run: "tx_act a y = Some x" and p: "p \<in> set (answered_by a x)"
  shows "write_ok d (tx_commits x) p"
proof (cases a)
  case (TxStep t)
  then have t: "t < length (tx_conns x)" using run tx_advance_length [of t y x] by simp
  show ?thesis
  proof (cases "tx_conns x ! t")
    case (TxDone u c ans)
    then have "p \<in> set (answer_writes u c ans)" using p TxStep by simp
    moreover have "answer_ok d (tx_since x ! t) (tx_commits x) u c ans" "replay_ok d (tx_commits x)"
      using ser t TxDone by (auto simp: serial_inv_def)
    ultimately show ?thesis using answer_writes_ok by blast
  qed (use p TxStep in simp_all)
qed (use p in simp_all)

lemma committed_reads:
  assumes "serial_inv d x"
  shows "write_ok d (tx_commits x) (PutCount c (sql_count c (tx_db x)))"
    "write_ok d (tx_commits x) (PutStatus u c (liked u c (tx_db x)))"
proof -
  have same: "same_tables (tx_db x) (replay d (tx_commits x))" using assms by (simp add: serial_inv_def)
  show "write_ok d (tx_commits x) (PutCount c (sql_count c (tx_db x)))"
    using seen_now [of 0 "tx_commits x" "\<lambda>e. sql_count c e = sql_count c (tx_db x)" d] same_tables_reads(2) [OF same]
    by simp
  show "write_ok d (tx_commits x) (PutStatus u c (liked u c (tx_db x)))"
    using seen_now [of 0 "tx_commits x" "\<lambda>e. liked u c e = liked u c (tx_db x)" d] same_tables_reads(3) [OF same]
    by simp
qed

text \<open>A step brings nothing but the writes of the answer that it gives and those of a reader.\<close>

lemma wt_act_inv:
  assumes inv: "wt_inv d s" and tx: "tx_inv (wt_tx s)" "serial_inv d (wt_tx s)" and run: "wt_act a s = Some s'"
  shows "wt_inv d s'"
proof -
  let ?ok = "write_ok d (tx_commits (wt_tx s))"
  have ok: "wt_has s p \<Longrightarrow> ?ok p" for p using inv by (simp add: wt_inv_def)
  show ?thesis
  proof (cases a)
    case (WtTx b)
    then obtain x where x: "tx_act b (wt_tx s) = Some x" and s': "s' = owe (answered_by b x) (s\<lparr>wt_tx := x\<rparr>)"
      using run by (auto split: option.splits)
    have "write_ok d (tx_commits x) p" if "wt_has s p \<or> p \<in> set (answered_by b x)" for p
      using that ok write_ok_act [OF x] answered_ok [OF serial_act [OF tx x] x] by blast
    then show ?thesis unfolding wt_inv_def s' wt_has_owe by simp
  next
    case (WtPut i)
    then obtain p ps where i: "i < length (wt_due s)" "wt_due s ! i = p # ps"
      and s': "s' = put p (s\<lparr>wt_due := (wt_due s)[i := ps]\<rparr>)"
      using run by (auto split: if_splits list.splits)
    have "wt_has s q" if "wt_has s' q" for q
    proof -
      have "p # ps \<in> set (wt_due s)" using i nth_mem by metis
      then have "wt_has s p" by (force simp: wt_has_def)
      then show ?thesis using wt_has_put [of p _ q] wt_has_due [of s i ps q] that i s' by auto
    qed
    then show ?thesis using ok s' by (simp add: wt_inv_def)
  next
    case (WtDrop i)
    then have "wt_has s' q \<Longrightarrow> wt_has s q" for q using run wt_has_due [of s i "[]" q] by auto
    then show ?thesis using ok WtDrop run by (auto simp: wt_inv_def)
  next
    case (WtReadCount c)
    then have "s' = owe [PutCount c (sql_count c (tx_db (wt_tx s)))] s" using run by (simp split: if_splits)
    then show ?thesis using ok committed_reads(1) [OF tx(2), of c]
      unfolding wt_inv_def by (auto simp: wt_has_owe simp del: write_ok.simps)
  next
    case (WtReadStatus u c)
    then have "s' = owe [PutStatus u c (liked u c (tx_db (wt_tx s)))] s" using run by (simp split: if_splits)
    then show ?thesis using ok committed_reads(2) [OF tx(2), of u c]
      unfolding wt_inv_def by (auto simp: wt_has_owe simp del: write_ok.simps)
  next
    case (WtExpireCount c)
    then have s': "s' = s\<lparr>wt_counts := (wt_counts s)(c := None)\<rparr>" using run by simp
    have "wt_has s' q \<Longrightarrow> wt_has s q" for q unfolding s' wt_has_def by (cases q) (auto split: if_splits)
    then show ?thesis using ok by (simp add: wt_inv_def s')
  next
    case (WtExpireStatus u c)
    then have s': "s' = s\<lparr>wt_status := (wt_status s)((u, c) := None)\<rparr>" using run by simp
    have "wt_has s' q \<Longrightarrow> wt_has s q" for q unfolding s' wt_has_def by (cases q) (auto split: if_splits)
    then show ?thesis using ok by (simp add: wt_inv_def s')
  qed
qed

lemma wt_act_tx: "wt_act a s = Some s' \<Longrightarrow> wt_tx s' = wt_tx s \<or> (\<exists>b. tx_act b (wt_tx s) = Some (wt_tx s'))"
  by (cases a) (auto simp: owe_def split: option.splits if_splits list.splits)

lemma wt_reach_inv:
  assumes "wt_reach n d s" "db_inv d"
  shows "tx_reach n d (wt_tx s) \<and> wt_inv d s"
  using assms(1)
proof (induction rule: wt_reach.induct)
  case wt_init
  have "\<not> wt_has (wt_start n d) p" for p by (cases p) (auto simp: wt_has_def wt_start_def)
  then show ?case by (auto intro: tx_init simp: wt_inv_def wt_start_def)
next
  case (wt_more s a s')
  have "tx_reach n d (wt_tx s')" using wt_more.IH wt_act_tx [OF wt_more.hyps(2)] tx_more by metis
  then show ?case
    using wt_act_inv [OF _ tx_reach_inv tx_reach_serial wt_more.hyps(2)] wt_more.IH assms(2) by blast
qed


text \<open>C9. What the caches hold was true. With any number of likes, unlikes and cache-filling reads under way at
  once, statements failing, requests dropped and entries expiring, every cached count and every cached status is
  that of a state between two commits, and every published event announces one of the commits with its count.\<close>

theorem cached_values_committed:
  assumes "db_inv d" "wt_reach n d s"
  shows "(\<forall>c m. wt_counts s c = Some m \<longrightarrow> seen d 0 (tx_commits (wt_tx s)) (\<lambda>e. sql_count c e = m))
    \<and> (\<forall>u c b. wt_status s (u, c) = Some b \<longrightarrow> seen d 0 (tx_commits (wt_tx s)) (\<lambda>e. liked u c e = b))
    \<and> (\<forall>u c b m. (u, c, b, m) \<in> set (wt_events s) \<longrightarrow>
         (if b then \<exists>r. CommitLike r m \<in> set (tx_commits (wt_tx s)) \<and> like_key r = (u, c)
          else CommitUnlike u c m \<in> set (tx_commits (wt_tx s))))"
proof -
  have ok: "holds s p \<Longrightarrow> write_ok d (tx_commits (wt_tx s)) p" for p
    using wt_reach_inv [OF assms(2,1)] by (simp add: wt_inv_def wt_has_def)
  show ?thesis
    using ok [of "PutCount _ _"] ok [of "PutStatus _ _ _"] ok [of "Announce _ _ _ _"]
    unfolding holds.simps write_ok.simps by blast
qed

text \<open>User 1 likes an item and unlikes it again, with the unlike overtaking the like between its commit and its
  writes.\<close>

definition overtaking :: "wt_action list" where
  "overtaking =
     map WtTx [TxLike 0 1 (''post'', 7) 5, TxStep 0, TxStep 0, TxStep 0, TxStep 0,
               TxUnlike 1 1 (''post'', 7), TxStep 1, TxStep 1, TxStep 1]
     @ [WtPut 1, WtPut 1, WtPut 1, WtPut 0, WtPut 0, WtPut 0]"

lemma overtaking_run:
  "\<exists>s. wt_run overtaking (wt_start 2 db_empty) = Some s
     \<and> tx_conns (wt_tx s) = [TxDone 1 (''post'', 7) (LikeAnswer (Inserted
           \<lparr>row_id = 1, row_type = ''post'', row_content = 7, row_created = 5\<rparr> 1)),
         TxDone 1 (''post'', 7) (UnlikeAnswer \<lparr>was_liked = True, dl_count = 0\<rparr>)]
     \<and> tx_commits (wt_tx s) = [CommitUnlike 1 (''post'', 7) 0,
         CommitLike \<lparr>lk_id = 1, lk_user = 1, lk_type = ''post'', lk_content = 7, lk_created = 5\<rparr> 1]
     \<and> tx_db (wt_tx s) = \<lparr>likes = [], like_counts = [((''post'', 7), 0)], next_like_id = 2\<rparr>
     \<and> wt_due s = [[], []] \<and> wt_counts s (''post'', 7) = Some 1 \<and> wt_status s (1, ''post'', 7) = Some True
     \<and> wt_events s = [(1, (''post'', 7), True, 1), (1, (''post'', 7), False, 0)]"
  by (simp add: overtaking_def wt_start_def owe_def tx_eval)

theorem cached_values_committed_witness:
  "\<exists>s. wt_run overtaking (wt_start 2 db_empty) = Some s
     \<and> seen db_empty 0 (tx_commits (wt_tx s)) (\<lambda>e. sql_count (''post'', 7) e = 1)"
proof -
  obtain s where run: "wt_run overtaking (wt_start 2 db_empty) = Some s" and n: "wt_counts s (''post'', 7) = Some 1"
    using overtaking_run by blast
  have "wt_reach 2 db_empty s" using wt_run_reach [OF run wt_init] .
  then show ?thesis using cached_values_committed [OF db_inv_empty, of 2 s] n run by blast
qed

text \<open>C29. Nothing keeps the writes in the order of the commits. There is a run of one like and one unlike of the
  same user that ends with both requests answered and nothing under way, the database without the like and with
  count zero, and the cache saying that the user likes the item and that it has one like; the last event the
  clients of its stream got says one like, too.\<close>

theorem write_through_unordered:
  "\<exists>s. wt_reach 2 db_empty s \<and> list_all (\<lambda>p. \<not> tx_open p) (tx_conns (wt_tx s)) \<and> concat (wt_due s) = []
     \<and> sql_count (''post'', 7) (tx_db (wt_tx s)) = 0 \<and> \<not> liked 1 (''post'', 7) (tx_db (wt_tx s))
     \<and> wt_counts s (''post'', 7) = Some 1 \<and> wt_status s (1, ''post'', 7) = Some True
     \<and> hd (wt_events s) = (1, (''post'', 7), True, 1)"
proof -
  obtain s where run: "wt_run overtaking (wt_start 2 db_empty) = Some s"
    and c: "tx_conns (wt_tx s) = [TxDone 1 (''post'', 7) (LikeAnswer (Inserted
           \<lparr>row_id = 1, row_type = ''post'', row_content = 7, row_created = 5\<rparr> 1)),
         TxDone 1 (''post'', 7) (UnlikeAnswer \<lparr>was_liked = True, dl_count = 0\<rparr>)]"
    and d: "tx_db (wt_tx s) = \<lparr>likes = [], like_counts = [((''post'', 7), 0)], next_like_id = 2\<rparr>"
    and rest: "wt_due s = [[], []]" "wt_counts s (''post'', 7) = Some 1" "wt_status s (1, ''post'', 7) = Some True"
      "wt_events s = [(1, (''post'', 7), True, 1), (1, (''post'', 7), False, 0)]"
    using overtaking_run by blast
  have "wt_reach 2 db_empty s" using wt_run_reach [OF run wt_init] .
  then show ?thesis using c d rest by (intro exI [of _ s]) (simp add: tx_open_def sql_count_def liked_iff)
qed

end
