(* ===== verification/Metrics.thy ===== *)
theory Metrics
  imports Requests
begin

text \<open>
  What the process counts about itself: \<open>middleware/metrics.rs\<close>, \<open>clients/metrics.rs\<close>,
  \<open>grpc/interceptors/metrics.rs\<close>, \<open>LikeEventPublisher::record_metric\<close> and \<open>handlers/metrics_handler.rs\<close>.
  The recorder belongs to the \<open>metrics\<close> library; here it is the list of the calls it got, each with the name and
  the labels of its series. Latencies come as arguments, in nanoseconds, and what the recorder renders is a parameter.
\<close>

section \<open>The recorder\<close>

type_synonym series = "string \<times> (string \<times> string) list"

datatype metric_call = Increment series | Observe series nat

type_synonym registry = "metric_call list"

definition counter_increment :: "series \<Rightarrow> registry \<Rightarrow> registry" where
  "counter_increment k m = m @ [Increment k]"

definition histogram_record :: "series \<Rightarrow> nat \<Rightarrow> registry \<Rightarrow> registry" where
  "histogram_record k t m = m @ [Observe k t]"

text \<open>What a recorder that counts increments and keeps observations reports of a series.\<close>

definition counter_at :: "registry \<Rightarrow> series \<Rightarrow> nat" where
  "counter_at m k = count_list m (Increment k)"

fun timings_at :: "registry \<Rightarrow> series \<Rightarrow> nat list" where
  "timings_at [] k = []"
| "timings_at (Increment _ # m) k = timings_at m k"
| "timings_at (Observe j t # m) k = (if j = k then t # timings_at m k else timings_at m k)"

lemma timings_at_append [simp]: "timings_at (m @ n) k = timings_at m k @ timings_at n k"
  by (induction m k rule: timings_at.induct) auto

section \<open>What is recorded\<close>

text \<open>The status label: the statuses the API documents, and one for all others.\<close>

definition status_str :: "nat \<Rightarrow> string" where
  "status_str status =
     (if status \<in> {200, 201, 204, 400, 401, 404, 429, 500, 503} then show_nat status else ''other'')"

definition http_series :: "string \<Rightarrow> string \<Rightarrow> nat \<Rightarrow> series" where
  "http_series meth path status =
     (''social_api_http_requests_total'',
      [(''method'', meth), (''path'', normalize_path path), (''status'', status_str status)])"

definition http_timing :: "string \<Rightarrow> string \<Rightarrow> series" where
  "http_timing meth path =
     (''social_api_http_request_duration_seconds'', [(''method'', meth), (''path'', normalize_path path)])"

text \<open>The middleware around the handler of a request.\<close>

definition track_metrics ::
  "string \<Rightarrow> string \<Rightarrow> nat \<Rightarrow> 'w handler \<Rightarrow> 'w server \<times> registry \<Rightarrow> body reply \<times> 'w server \<times> registry" where
  "track_metrics meth path latency nxt = (\<lambda>(s, m).
     (case nxt s of (response, s) \<Rightarrow>
        (response, s,
         histogram_record (http_timing meth path) latency
           (counter_increment (http_series meth path (rp_status response)) m))))"

definition record_external_call :: "string \<Rightarrow> string \<Rightarrow> string \<Rightarrow> nat \<Rightarrow> registry \<Rightarrow> registry" where
  "record_external_call service meth status latency m =
     histogram_record
       (''social_api_external_call_duration_seconds'', [(''service'', service), (''method'', meth)]) latency
       (counter_increment
         (''social_api_external_calls_total'', [(''service'', service), (''method'', meth), (''status'', status)]) m)"

text \<open>The status text of a call over HTTP and over gRPC; \<open>code_text\<close> is the library's text of a code.\<close>

fun http_call_status :: "string + http_response \<Rightarrow> string" where
  "http_call_status (Inr r) = show_nat (hs_status r)"
| "http_call_status (Inl e) = ''error''"

fun grpc_call_status :: "(grpc_code \<Rightarrow> string) \<Rightarrow> 'a grpc_outcome \<Rightarrow> string" where
  "grpc_call_status code_text (GrpcReply v) = ''OK''"
| "grpc_call_status code_text (GrpcStatus c msg) = code_text c"
| "grpc_call_status code_text GrpcTimeout = ''timeout''"

definition grpc_series :: "string \<Rightarrow> string \<Rightarrow> series" where
  "grpc_series meth code_label = (''social_api_grpc_requests_total'', [(''method'', meth), (''code'', code_label)])"

definition grpc_timing :: "string \<Rightarrow> series" where
  "grpc_timing meth = (''social_api_grpc_request_duration_seconds'', [(''method'', meth)])"

definition record_grpc_request :: "string \<Rightarrow> string \<Rightarrow> nat \<Rightarrow> registry \<Rightarrow> registry" where
  "record_grpc_request meth code_label latency m =
     histogram_record (grpc_timing meth) latency (counter_increment (grpc_series meth code_label) m)"

fun rpc_method :: "rpc_call \<Rightarrow> string" where
  "rpc_method (RpcLike _) = ''social.v1.LikeService/Like''"
| "rpc_method (RpcUnlike _) = ''social.v1.LikeService/Unlike''"
| "rpc_method (RpcGetCount _) = ''social.v1.LikeService/GetCount''"
| "rpc_method (RpcGetStatus _) = ''social.v1.LikeService/GetStatus''"
| "rpc_method (RpcBatchCounts _) = ''social.v1.LikeService/BatchCounts''"
| "rpc_method (RpcBatchStatuses _) = ''social.v1.LikeService/BatchStatuses''"
| "rpc_method (RpcGetUserLikes _) = ''social.v1.LikeService/GetUserLikes''"
| "rpc_method (RpcGetLeaderboard _) = ''social.v1.LikeService/GetLeaderboard''"
| "rpc_method (RpcStreamLikes _) = ''social.v1.LikeService/StreamLikes''"

definition result_code :: "status + 'r \<Rightarrow> grpc_code" where
  "result_code r = (case r of Inr _ \<Rightarrow> GOk | Inl st \<Rightarrow> fst st)"

definition finish_request :: "string \<Rightarrow> nat \<Rightarrow> status + 'r \<Rightarrow> registry \<Rightarrow> (status + 'r) \<times> registry" where
  "finish_request meth latency r m =
     (case r of
        Inr v \<Rightarrow> (Inr v, record_grpc_request meth (grpc_code_label GOk) latency m)
      | Inl st \<Rightarrow> (Inl st, record_grpc_request meth (grpc_code_label (fst st)) latency m))"

text \<open>A like that was inserted and an unlike that removed one are counted by content type.\<close>

definition record_metric :: "string \<Rightarrow> string \<Rightarrow> registry \<Rightarrow> registry" where
  "record_metric operation ct m =
     counter_increment (''social_api_likes_total'', [(''content_type'', ct), (''operation'', operation)]) m"

fun like_metric :: "string \<Rightarrow> insert_like_result \<Rightarrow> registry \<Rightarrow> registry" where
  "like_metric ct (Inserted row n) m = record_metric ''like'' ct m"
| "like_metric ct (AlreadyExisted row n) m = m"
| "like_metric ct (ConcurrentlyRemoved n) m = m"

definition unlike_metric :: "string \<Rightarrow> delete_like_result \<Rightarrow> registry \<Rightarrow> registry" where
  "unlike_metric ct r m = (if was_liked r then record_metric ''unlike'' ct m else m)"

text \<open>\<open>init_metrics\<close>: the buckets of the histograms, in seconds, and the metrics it describes.\<close>

definition histogram_buckets :: "rat list" where
  "histogram_buckets = [1/1000, 5/1000, 1/100, 25/1000, 5/100, 1/10, 25/100, 5/10, 1, 25/10]"

datatype metric_kind = Counter | Histogram | Gauge

definition described_metrics :: "(metric_kind \<times> string) list" where
  "described_metrics =
     [(Counter, ''social_api_http_requests_total''),
      (Histogram, ''social_api_http_request_duration_seconds''),
      (Counter, ''social_api_cache_operations_total''),
      (Counter, ''social_api_external_calls_total''),
      (Histogram, ''social_api_external_call_duration_seconds''),
      (Gauge, ''social_api_circuit_breaker_state''),
      (Gauge, ''social_api_sse_connections_active''),
      (Counter, ''social_api_likes_total''),
      (Gauge, ''social_api_db_pool_connections''),
      (Counter, ''social_api_grpc_requests_total''),
      (Histogram, ''social_api_grpc_request_duration_seconds'')]"

text \<open>\<open>GET /metrics\<close>.\<close>

definition metrics_endpoint :: "(registry \<Rightarrow> string) \<Rightarrow> registry \<Rightarrow> nat \<times> (string \<times> string) list \<times> string" where
  "metrics_endpoint render m = (200, [(''content-type'', ''text/plain; version=0.0.4'')], render m)"

section \<open>Requests with their metrics\<close>

text \<open>The stack of \<open>serve\<close> with the middleware in its place. The layers outside it keep the status of a
  response (\<open>measured_status\<close>), so that it may be read off the answer.\<close>

datatype measured =
    MeasuredHttp string string nat headers http_call
  | MeasuredGrpc nat headers "string option" rpc_call

fun handle_measured :: "(api_error \<Rightarrow> nat) \<Rightarrow> 'w app \<Rightarrow> measured \<Rightarrow> 'w server \<times> registry \<Rightarrow> 'w server \<times> registry" where
  "handle_measured len a (MeasuredHttp meth path latency hdr call) sm =
     snd (track_metrics meth path latency (serve len a hdr call) sm)"
| "handle_measured len a (MeasuredGrpc latency md remote call) (s, m) =
     (case grpc_inject_request_id (ap_ext a) md s of
        (rid, s) \<Rightarrow> (case grpc_serve a (md(''x-request-id'' \<mapsto> rid)) remote call s of
          (r, s) \<Rightarrow> (s, snd (finish_request (rpc_method call) latency r m))))"

lemma measured_status:
  "\<exists>s'. rp_status (fst (serve len a hdr call s)) = rp_status (fst (http_route a hdr call s'))"
proof -
  have patch: "rp_status (fst (patch_error_request_id len rid h s)) = rp_status (fst (h s))" for rid h and s :: "'a server"
    by (simp add: patch_error_request_id_def case_prod_unfold split: body.split)
  have header: "rp_status (set_header k v r) = rp_status r" for k v and r :: "body reply"
    by (simp add: set_header_def)
  show ?thesis
    by (auto simp: serve_def track_inflight_def inject_request_id_def http_route_def case_prod_unfold patch header
        split: option.splits)
qed


fun measure_all :: "(api_error \<Rightarrow> nat) \<Rightarrow> 'w app \<Rightarrow> measured list \<Rightarrow> 'w server \<times> registry \<Rightarrow> 'w server \<times> registry" where
  "measure_all len a [] sm = sm"
| "measure_all len a (r # rs) sm = measure_all len a rs (handle_measured len a r sm)"

text \<open>The request behind it, what it is timed under and how long it took.\<close>

fun plain :: "measured \<Rightarrow> request" where
  "plain (MeasuredHttp meth path latency hdr call) = OverHttp hdr call"
| "plain (MeasuredGrpc latency md remote call) = OverGrpc md remote call"

fun timing_key :: "measured \<Rightarrow> series" where
  "timing_key (MeasuredHttp meth path latency hdr call) = http_timing meth path"
| "timing_key (MeasuredGrpc latency md remote call) = grpc_timing (rpc_method call)"

fun latency_of :: "measured \<Rightarrow> nat" where
  "latency_of (MeasuredHttp meth path latency hdr call) = latency"
| "latency_of (MeasuredGrpc latency md remote call) = latency"

text \<open>The series its answer belongs to, and those of a whole run.\<close>

fun counted_as :: "(api_error \<Rightarrow> nat) \<Rightarrow> 'w app \<Rightarrow> measured \<Rightarrow> 'w server \<Rightarrow> series" where
  "counted_as len a (MeasuredHttp meth path latency hdr call) s =
     http_series meth path (rp_status (fst (serve len a hdr call s)))"
| "counted_as len a (MeasuredGrpc latency md remote call) s =
     (case grpc_inject_request_id (ap_ext a) md s of (rid, s) \<Rightarrow>
        grpc_series (rpc_method call)
          (grpc_code_label (result_code (fst (grpc_serve a (md(''x-request-id'' \<mapsto> rid)) remote call s)))))"

fun counted :: "(api_error \<Rightarrow> nat) \<Rightarrow> 'w app \<Rightarrow> measured list \<Rightarrow> 'w server \<Rightarrow> series list" where
  "counted len a [] s = []"
| "counted len a (r # rs) s = counted_as len a r s # counted len a rs (handle len a (plain r) s)"

lemma counter_at_increment [simp]: "counter_at (counter_increment k m) k' = counter_at m k' + (if k' = k then 1 else 0)"
  by (simp add: counter_at_def counter_increment_def)

lemma timings_at_record [simp]: "timings_at (histogram_record k t m) k' = timings_at m k' @ (if k' = k then [t] else [])"
  by (simp add: histogram_record_def)

lemma counter_at_record [simp]: "counter_at (histogram_record k t m) = counter_at m"
  by (simp add: fun_eq_iff counter_at_def histogram_record_def)

lemma timings_at_increment [simp]: "timings_at (counter_increment k m) = timings_at m"
  by (simp add: fun_eq_iff counter_increment_def)

text \<open>One request: the process as without metrics, one count and one observation.\<close>

lemma handle_measured_exact:
  "fst (handle_measured len a r (s, m)) = handle len a (plain r) s
   \<and> counter_at (snd (handle_measured len a r (s, m))) k
       = counter_at m k + (if k = counted_as len a r s then 1 else 0)
   \<and> timings_at (snd (handle_measured len a r (s, m))) t
       = timings_at m t @ (if t = timing_key r then [latency_of r] else [])"
  by (cases r) (auto simp: track_metrics_def finish_request_def record_grpc_request_def result_code_def case_prod_unfold
      split: sum.split)

lemma measure_all_exact:
  "fst (measure_all len a rs (s, m)) = handle_all len a (map plain rs) s
   \<and> counter_at (snd (measure_all len a rs (s, m))) k = counter_at m k + count_list (counted len a rs s) k
   \<and> timings_at (snd (measure_all len a rs (s, m))) t
       = timings_at m t @ map latency_of (filter (\<lambda>r. timing_key r = t) rs)"
proof (induction rs arbitrary: s m)
  case (Cons r rs)
  obtain s' m' where step: "handle_measured len a r (s, m) = (s', m')" by fastforce
  note one = handle_measured_exact [of len a r s m, unfolded step, simplified]
  show ?case using Cons.IH [of s' m'] one by (auto simp: step)
qed simp

text \<open>The request metrics, with the labels the code gives them, tell what happened and change nothing. Over any sequence of requests on either
  transport the process goes through the states it goes through without them; each request counter ends as the
  number of requests answered with its method, path label and status label (or code), and each latency histogram
  holds the latencies of the requests with its labels, in order.\<close>

theorem metrics_exact:
  "fst (measure_all len a rs (s, [])) = handle_all len a (map plain rs) s
   \<and> counter_at (snd (measure_all len a rs (s, []))) (http_series meth path status)
       = count_list (counted len a rs s) (http_series meth path status)
   \<and> counter_at (snd (measure_all len a rs (s, []))) (grpc_series meth (grpc_code_label c))
       = count_list (counted len a rs s) (grpc_series meth (grpc_code_label c))
   \<and> timings_at (snd (measure_all len a rs (s, []))) (http_timing meth path)
       = map latency_of (filter (\<lambda>r. timing_key r = http_timing meth path) rs)
   \<and> timings_at (snd (measure_all len a rs (s, []))) (grpc_timing meth)
       = map latency_of (filter (\<lambda>r. timing_key r = grpc_timing meth) rs)"
  using measure_all_exact [of len a rs s "[]"] by (simp add: counter_at_def)

text \<open>Every metric recorded here is described with its kind, and the buckets increase, as the builder requires.\<close>

lemma recorded_are_described:
  "(Counter, fst (http_series meth path status)) \<in> set described_metrics"
  "(Histogram, fst (http_timing meth path)) \<in> set described_metrics"
  "(Counter, fst (grpc_series meth c)) \<in> set described_metrics"
  "(Histogram, fst (grpc_timing meth)) \<in> set described_metrics"
  by (simp_all add: described_metrics_def http_series_def http_timing_def grpc_series_def grpc_timing_def)

lemma buckets_increase: "sorted_wrt (<) histogram_buckets"
  by (simp add: histogram_buckets_def)

text \<open>A content type is a label as the client spelled it, registered or not, as long as it looks like neither a
  number nor a UUID: requests for different types leave different series.\<close>

lemma str_split_piece: "c \<notin> set p \<Longrightarrow> str_split c (p @ c # s) = p # str_split c s"
  by (induction p) auto

definition count_path :: "string \<Rightarrow> string" where
  "count_path ct = ''/v1/likes/'' @ ct @ ''/x/count''"

lemma count_path_label:
  assumes "CHR ''/'' \<notin> set ct" "\<not> looks_like_uuid ct" "\<not> looks_like_number ct"
  shows "normalize_path (count_path ct) = count_path ct"
proof -
  have "str_split (CHR ''/'') (ct @ ''/x/count'') = [ct, ''x'', ''count'']"
    using str_split_piece [OF assms(1), of "''x/count''"] by simp
  then have "str_split (CHR ''/'') (count_path ct) = [[], ''v1'', ''likes'', ct, ''x'', ''count'']"
    by (simp add: count_path_def)
  moreover have "normalize_part ct = ct" using assms(2,3) by (simp add: normalize_part_def)
  moreover have "normalize_part [] = []" "normalize_part ''v1'' = ''v1''" "normalize_part ''likes'' = ''likes''"
    "normalize_part ''x'' = ''x''" "normalize_part ''count'' = ''count''"
    by (simp_all add: normalize_part_def looks_like_uuid_def looks_like_number_def digit_val_def)
  ultimately show ?thesis by (simp add: normalize_path_def count_path_def)
qed

lemma type_labels_unbounded:
  assumes "distinct cts"
    and "\<And>ct. ct \<in> set cts \<Longrightarrow> CHR ''/'' \<notin> set ct \<and> \<not> looks_like_uuid ct \<and> \<not> looks_like_number ct"
  shows "card ((\<lambda>ct. http_series ''GET'' (count_path ct) 400) ` set cts) = length cts"
proof -
  have "normalize_path (count_path ct) = ''/v1/likes/'' @ ct @ ''/x/count''" if "ct \<in> set cts" for ct
    using count_path_label [of ct] assms(2) [OF that] by (simp add: count_path_def)
  then have "inj_on (\<lambda>ct. http_series ''GET'' (count_path ct) 400) (set cts)"
    by (auto simp: inj_on_def http_series_def)
  then show ?thesis using assms(1) by (simp add: card_image distinct_card)
qed

end
