(* ===== verification/Cache_Refresh.thy ===== *)
theory Cache_Refresh
  imports Like_Commands
begin

text \<open>
  What a like or unlike leaves behind in \<open>like_commands.rs\<close> when the caches and Redis do lose nothing: the
  contract of \<open>Cache\<close> says what a store may return at most, and allows it to forget every write; here
  the stores act, so that a write that is missing shows. L1 and Redis are told apart, and the messages
  published are a list.
\<close>

section \<open>Stores that act\<close>














section \<open>The cache manager on such stores\<close>







section \<open>What a command leaves\<close>











section \<open>The rest publishes nothing\<close>











section \<open>Commands\<close>















end
