(* ===== verification/Spec2Isabelle.thy ===== *)
theory Spec2Isabelle
  imports Coalescing Windows Replies Write_Gate Process Mock_Services Write_Through Metrics Cache_Refresh
begin

text \<open>
  A verification development for \<open>social-api\<close>, a Rust service that counts likes: a user likes and unlikes
  content of registered types over HTTP or gRPC, and everybody reads counts, lists of likes, leaderboards
  and a live stream of like events. PostgreSQL is the truth, Redis behind an in-process cache makes reads
  cheap, two remote services say who a bearer token belongs to and which content exists.

  \<^bold>\<open>How the parts interact.\<close> A request enters through the middleware stack or the gRPC interceptor, which give
  it an identifier and count it in flight; the handler authenticates the user through a circuit breaker and
  the profile client, asks the rate limiter, checks the content type against the configuration and calls
  \<open>LikeService\<close>. A command validates the content through the second breaker and the content client, runs one
  database transaction, then updates the caches and publishes an event on Redis Pub/Sub. A query reads the
  caches and falls back to the database; concurrent misses on one count are coalesced. A background task
  recomputes the leaderboards; one bridge task per channel forwards events to the open streams; on shutdown
  the process drains.

  \<^bold>\<open>Modelling.\<close> Definitions keep the names and the order of the code. Code outside the repository is an
  argument: the record \<open>'w ext\<close> of \<open>World\<close> (moka, Redis, clocks, HTTP and gRPC calls, database faults, what
  other connections commit meanwhile) acting on an abstract world \<open>'w\<close>, and the record \<open>codec\<close> of \<open>Types\<close>
  (serde, uuid, chrono, base64). State is threaded: breaker contents, the database \<open>db\<close>, the world; a request
  runs on the record \<open>server\<close>. Errors are sums with \<open>Inl\<close> the error. A future that is dropped, a lost commit,
  a failing dependency, an unknown iteration order of a \<open>HashMap\<close> are all choices of the world.

  \<^bold>\<open>The theories\<close>, under \<open>src/crates/social-api/src\<close> unless a crate is named:
  \<^item> \<open>Prelude\<close>, \<open>Numerals\<close>: machine types, string functions and number formats of the standard library.
  \<^item> \<open>Errors\<close> (\<open>shared/errors.rs\<close>), \<open>Types\<close> (\<open>shared/types.rs\<close>, \<open>cursor.rs\<close>): error codes and envelope, data,
    time windows with their order, cursors and their round trip.
  \<^item> \<open>Tables\<close>, \<open>Repositories\<close> (\<open>migrations/\<close>, \<open>repositories.rs\<close>): one definition per SQL statement; the
    transactions with their faults and interference; the counters are exact, each branch is characterised,
    with what it leaves alone.
  \<^item> \<open>Transactions\<close> (\<open>repositories.rs\<close> again): the two write transactions on any number of connections, one
    statement at a time with the row locks of PostgreSQL; they serialise in commit order and cannot deadlock.
  \<^item> \<open>World\<close>, \<open>Cache\<close> (\<open>cache.rs\<close>), \<open>Sample_World\<close>: the outside, the cache manager with the locale \<open>cache_api\<close>,
    a concrete world for the witnesses.
  \<^item> \<open>Circuit_Breaker\<close> (\<open>clients/circuit_breaker.rs\<close>): the breaker, its invariant, its refinement of the
    documented three-state machine, single probe, recovery.
  \<^item> \<open>Config\<close> (\<open>config.rs\<close>, \<open>content.rs\<close>), \<open>App\<close> (\<open>state.rs\<close>): loading from the environment; the wiring of the
    shared state and the choice of transport.
  \<^item> \<open>Rate_Limit\<close> (\<open>middleware/rate_limit.rs\<close>, \<open>grpc/interceptors/rate_limit.rs\<close>): the Lua script as a function of
    a sorted set, its equivalence with a reference sliding window, and its callers; FNV-1a on 64-bit words.
  \<^item> \<open>Content_Client\<close>, \<open>Profile_Client\<close> (\<open>clients/\<close>): both implementations of both traits; the traits are the
    locales \<open>content_validation\<close> and \<open>token_validation\<close>, each interpreted on the HTTP and the gRPC client.
  \<^item> \<open>Mock_Services\<close> (crate \<open>mock-services\<close>): the stand-ins for the remote services, which discharge the
    assumptions of the clients.
  \<^item> \<open>Auth\<close> (\<open>auth.rs\<close>, \<open>extractors/\<close>, \<open>grpc/interceptors/auth.rs\<close>): bearer tokens, the breaker as a gate
    (locale \<open>breaker_gate\<close>), and the requests of one breaker beside one another, dropped ones included.
  \<^item> \<open>Like_Count_Cache\<close>, \<open>Coalescing\<close> (\<open>services/like_count_cache.rs\<close>): reads and batches of counts (locale
    \<open>count_source\<close>); the protocol between concurrent readers as interleaved steps, and with a clock.
  \<^item> \<open>Like_Commands\<close> (\<open>services/like_commands.rs\<close>, \<open>like_events.rs\<close>), \<open>Like_Queries\<close>, \<open>Pages\<close>
    (\<open>services/like_queries.rs\<close>): commands end to end, the queries, and pagination as a client follows it.
  \<^item> \<open>Cache_Refresh\<close> (\<open>services/like_commands.rs\<close> again): on stores that lose nothing, what a command leaves
    in L1 and Redis and which events it publishes.
  \<^item> \<open>Write_Through\<close> (\<open>services/like_commands.rs\<close> again): concurrent commands and cache-filling reads, each cache
    write and each event a step; what is cached was committed, but the order is not that of the commits.
  \<^item> \<open>Leaderboard_Refresh\<close>, \<open>Leaderboards\<close>, \<open>Windows\<close> (\<open>tasks/leaderboard_refresh.rs\<close>): the task, what a client
    sees of its boards, and how the windows compare.
  \<^item> \<open>Pubsub\<close> (\<open>services/pubsub_manager.rs\<close>), \<open>Streams\<close> (\<open>realtime.rs\<close>, \<open>handlers/stream.rs\<close>): a bridge as a
    function, the shared map as a step relation, the stream of a client.
  \<^item> \<open>Conversions\<close> (\<open>grpc/convert.rs\<close>, \<open>grpc/error.rs\<close>), \<open>Handlers\<close> (\<open>handlers/\<close>, \<open>services/like_service.rs\<close>),
    \<open>Server\<close> (\<open>server.rs\<close>, the other \<open>middleware/\<close>, \<open>health.rs\<close>), \<open>Grpc\<close> (\<open>grpc/likes_service.rs\<close>,
    \<open>grpc/health_service.rs\<close>): the two transports.
  \<^item> \<open>Transports\<close>, \<open>Requests\<close>, \<open>Replies\<close>, \<open>Write_Gate\<close>: properties of whole requests. The locales
    \<open>request_steps\<close>, \<open>write_steps\<close>, \<open>request_invariant\<close> and \<open>process_invariant\<close> prove once what every handler
    keeps; they are interpreted for the in-flight counter, for the database under reads, and for the
    invariant of the process.
  \<^item> \<open>Metrics\<close> (\<open>middleware/metrics.rs\<close>, \<open>clients/metrics.rs\<close>, \<open>grpc/interceptors/metrics.rs\<close>): the counters
    and histograms of the requests on both transports; with the labels of the code they are exact.
  \<^item> \<open>Shutdown\<close>, \<open>Process\<close> (\<open>main.rs\<close>, \<open>db.rs\<close>, \<open>tasks/db_pool_metrics.rs\<close>): the drain and what follows it, the
    pool gauges; the start-up, and the invariant of the process from there on.

  \<^bold>\<open>What is shown\<close>, most important first. The materialised counters equal the rows of
  \<open>likes\<close> under every history, fault and interference; the statements of concurrent transactions may
  interleave as they like, the commits are those of a serial run and every answer fits it. From its start no sequence
  of requests over either transport makes the process break the counters or a breaker. A request writes only past
  authentication, write limit, type check and content validation. The two transports do the same and answer alike. A
  like or unlike reports the true count, adds nothing to the cache but true values, and on stores that lose nothing
  leaves neither an old count, status or page nor an event unsent; counts, statuses, pages and boards that a client reads were true when they
  were computed, also while concurrent requests fill the cache, first pages are independent of the cache, and
  following the cursors traverses the feed once. The limiter admits no more than its limit in any window. Streams
  carry the published events of their channel in order. What must end ends: paging, the write transactions, the
  reconnects of a bridge, the drain. Error behaviour: configuration errors are complete, replies have the right shape
  and identifier. Some theorems describe what the code does against its intention and are named in the list of
  findings: \<open>cached_verdict_wedges\<close>, \<open>token_cache_impersonation\<close>,
  \<open>coalescing_leak\<close>, \<open>lost_probe_locks_out\<close>, \<open>pubsub_dead_channel\<close>, \<open>pubsub_two_bridges\<close>,
  \<open>bridge_gives_up\<close>, \<open>write_through_unordered\<close>.

  \<^bold>\<open>Hypotheses on the outside\<close> state documented behaviour only, and each is met by a concrete instance in a
  witness: \<open>store_ok\<close> and \<open>zset_ok\<close> (a cache or Redis returns only what was written; it may lose anything at any
  time), \<open>store_acts\<close> (the same stores while Redis is up: a write replaces, a removal removes), the \<open>_codec_ok\<close> predicates (what is printed parses back), \<open>others_ok\<close> (other connections run the same
  transactions), the \<open>_env\<close> predicates (a service that answers tells the truth; it may fail), \<open>collision_free\<close>
  (the tokens in use have different hashes), \<open>drain_world\<close> and \<open>bridge_counters\<close> (clocks do not run backwards).

  \<^bold>\<open>Termination and bounds.\<close> No definition of the program has fuel. \<open>forward_loop\<close>
  and \<open>drain_loop\<close> may run for ever and are partial functions into \<open>option\<close>; that the drain
  returns is proved, at its first read of zero or its first clock past the deadline. The reconnect loop ends by a measure. The transactions of \<open>n\<close> connections end within
  \<open>5 * n\<close> statements and commits. The traversal of pages is given a number of requests and is proved
  complete with one for every page. Rust's fixed widths are kept where arithmetic can leave them: the breaker's
  counters, the hash, the limiter's casts, the parsers; the counters of the database are integers.

  \<^bold>\<open>Not modelled.\<close> The counters of cache operations, traces and logs; latencies (they are
  arguments of what records them); the OpenAPI document; pool options; the routes \<open>/health\<close> and \<open>/metrics\<close> are
  modelled outside the layers of \<open>serve\<close>, where the code has them;
  the serving of the two listeners and the signal handler, which only call the runtime; Axum's matching and extraction
  (a call reaches its handler with its parameters, or as a rejection); the concurrency limit layer; generated
  protobuf code; TTLs as times (an entry may vanish at any moment). Requests are interleaved where the code
  makes them meet - the coalescing map, the channel map, the write transactions, the cache
  writes after them, the probe of a breaker - and are otherwise run one by one. A future that is dropped is
  modelled in the coalescing map and in the probe of the profile breaker, where it does lasting harm; the
  in-flight count and the probe of the content breaker have the same flaw, which is reported and not modelled.
  \<open>Write_Through\<close> leaves the pages of likes and the times of the statuses out; \<open>Cache_Refresh\<close> has them.
\<close>

end
